(* ===== verification/TG_Prelude.thy ===== *)
theory TG_Prelude
  imports Main "HOL-Library.Word" "HOL-Library.Monad_Syntax" "HOL-Library.Sublist"
begin

text \<open>
  Shared vocabulary of the development: the machine types of the Win32 sources, wide strings
  and the character arrays that hold them, bounds-checked array access, the printf conversions
  the sources use, and the platform's text functions as a record of parameters.

  Conventions used by every theory.
  \<^item> A \<^verbatim>\<open>WCHAR\<close> array that is only used as a string is the list of its units before the
    first NUL (a \<open>wstr\<close>). Routines that write an array element by element are modelled on the
    array itself, with \<open>buf_get\<close> and \<open>buf_put\<close>: an access outside the array is \<open>None\<close>, so that
    the absence of an overrun is a theorem.
  \<^item> A nullable pointer is an \<open>option\<close>.
  \<^item> A Win32 function is a field of a parameter record; nothing is assumed about it except
    through a named predicate (such as \<open>strsafe_ok\<close>) that states its documented behaviour.
\<close>

section \<open>Machine types\<close>

type_synonym byte = "8 word"
type_synonym wchar = "16 word"
type_synonym u16 = "16 word"
type_synonym dword = "32 word"
type_synonym u64 = "64 word"
type_synonym wstr = "wchar list"

named_theorems buf_simps \<open>bounds-checked array access\<close>
named_theorems str_simps \<open>wide strings, C strings and their lengths\<close>
named_theorems plat_simps \<open>consequences of the documented behaviour of the platform\<close>

section \<open>System error codes\<close>

definition ERROR_SUCCESS :: dword where "ERROR_SUCCESS = 0"
definition ERROR_OUTOFMEMORY :: dword where "ERROR_OUTOFMEMORY = 14"

section \<open>Wide strings\<close>

definition wide_char :: "char \<Rightarrow> wchar" where
  "wide_char c = of_nat (of_char c)"

definition wide :: "string \<Rightarrow> wstr" where
  "wide s = map wide_char s"

lemma wide_Nil [simp]: "wide [] = []"
  by (simp add: wide_def)

lemma wide_append [str_simps]: "wide (s @ t) = wide s @ wide t"
  by (simp add: wide_def)

lemma length_wide [simp]: "length (wide s) = length s"
  by (simp add: wide_def)

text \<open>The string an array holds: its units up to the first NUL.\<close>

definition cstr :: "wstr \<Rightarrow> wstr" where
  "cstr xs = takeWhile (\<lambda>c. c \<noteq> 0) xs"

definition nul_terminated :: "wstr \<Rightarrow> bool" where
  "nul_terminated xs \<longleftrightarrow> 0 \<in> set xs"

lemma cstr_no_nul [simp]: "0 \<notin> set (cstr xs)"
  unfolding cstr_def by (metis (full_types) set_takeWhileD)

lemma cstr_ident [str_simps]: "0 \<notin> set xs \<Longrightarrow> cstr xs = xs"
  by (induction xs) (auto simp: cstr_def)

lemma cstr_append_nul [str_simps]: "0 \<notin> set xs \<Longrightarrow> cstr (xs @ 0 # ys) = xs"
  by (simp add: cstr_def takeWhile_append)

lemma length_cstr_le: "length (cstr xs) \<le> length xs"
  by (simp add: cstr_def length_takeWhile_le)

lemma length_cstr_less: "nul_terminated xs \<Longrightarrow> length (cstr xs) < length xs"
  by (induction xs) (auto simp: nul_terminated_def cstr_def)

lemma nth_cstr: "i < length (cstr xs) \<Longrightarrow> xs ! i = cstr xs ! i \<and> xs ! i \<noteq> 0"
proof (induction xs arbitrary: i)
  case (Cons x xs)
  then show ?case by (cases i) (fastforce simp: cstr_def split: if_splits)+
qed (simp add: cstr_def)

lemma nth_length_cstr: "nul_terminated xs \<Longrightarrow> xs ! length (cstr xs) = 0"
  by (induction xs) (auto simp: nul_terminated_def cstr_def)

section \<open>Bounds-checked arrays\<close>

definition buf_get :: "'a list \<Rightarrow> nat \<Rightarrow> 'a option" where
  "buf_get xs i = (if i < length xs then Some (xs ! i) else None)"

definition buf_put :: "'a list \<Rightarrow> nat \<Rightarrow> 'a \<Rightarrow> 'a list option" where
  "buf_put xs i x = (if i < length xs then Some (xs[i := x]) else None)"

lemma buf_get_in [buf_simps]: "i < length xs \<Longrightarrow> buf_get xs i = Some (xs ! i)"
  by (simp add: buf_get_def)

lemma buf_put_in [buf_simps]: "i < length xs \<Longrightarrow> buf_put xs i x = Some (xs[i := x])"
  by (simp add: buf_put_def)

lemma take_Suc_update: "i < length xs \<Longrightarrow> take (Suc i) (xs[i := x]) = take i xs @ [x]"
  by (simp add: take_Suc_conv_app_nth)

end
