(* ===== verification/TG_Text.thy ===== *)
theory TG_Text
  imports TG_Prelude
begin

text \<open>
  The text services the sources call: the printf conversions used in their format strings
  (C standard), \<^verbatim>\<open>wcsrchr\<close>, and the Win32 functions on strings, which are parameters
  collected in the record \<open>text_api\<close> with their documented behaviour in \<open>strsafe_ok\<close>.
\<close>

section \<open>printf conversions\<close>

fun dec :: "nat \<Rightarrow> wstr" where
  "dec n = (if n < 10 then [of_nat (48 + n)]
            else dec (n div 10) @ [of_nat (48 + n mod 10)])"

declare dec.simps [simp del]

fun hex :: "nat \<Rightarrow> wstr" where
  "hex n = (if n < 16 then [of_nat (if n < 10 then 48 + n else 87 + n)]
            else hex (n div 16) @ [of_nat (if n mod 16 < 10 then 48 + n mod 16 else 87 + n mod 16)])"

declare hex.simps [simp del]

definition zero_pad :: "nat \<Rightarrow> wstr \<Rightarrow> wstr" where
  "zero_pad k ds = replicate (k - length ds) 48 @ ds"

datatype fmt_arg = FStr wstr | FNum nat | FInt int

datatype conversion = ConvS | ConvU nat | ConvX nat | ConvD

text \<open>
  The conversion specification after a percent sign, and the rest of the format. The length
  modifiers \<^verbatim>\<open>l\<close>, \<^verbatim>\<open>ll\<close> and \<^verbatim>\<open>z\<close> name the argument's C type; the value is the number itself.
\<close>

definition conversion_spec :: "string \<Rightarrow> conversion \<times> string" where
  "conversion_spec cs =
     (if take 1 cs = ''s'' then (ConvS, drop 1 cs)
      else if take 1 cs = ''d'' then (ConvD, drop 1 cs)
      else if take 1 cs = ''u'' then (ConvU 0, drop 1 cs)
      else if take 2 cs = ''lu'' then (ConvU 0, drop 2 cs)
      else if take 2 cs = ''zu'' then (ConvU 0, drop 2 cs)
      else if take 3 cs = ''02u'' then (ConvU 2, drop 3 cs)
      else if take 5 cs = ''02llu'' then (ConvU 2, drop 5 cs)
      else if take 3 cs = ''03u'' then (ConvU 3, drop 3 cs)
      else if take 3 cs = ''04u'' then (ConvU 4, drop 3 cs)
      else if take 3 cs = ''04x'' then (ConvX 4, drop 3 cs)
      else (ConvS, cs))"

lemma conversion_spec_shrinks: "conversion_spec cs = (k, rest) \<Longrightarrow> length rest \<le> length cs"
  by (auto simp: conversion_spec_def split: if_splits)

fun render_arg :: "conversion \<Rightarrow> fmt_arg \<Rightarrow> wstr" where
  "render_arg ConvS (FStr s) = s"
| "render_arg (ConvU k) (FNum n) = zero_pad k (dec n)"
| "render_arg (ConvX k) (FNum n) = zero_pad k (hex n)"
| "render_arg ConvD (FInt i) = (if i < 0 then [45] else []) @ dec (nat \<bar>i\<bar>)"
| "render_arg _ _ = []"

function vformat :: "string \<Rightarrow> fmt_arg list \<Rightarrow> wstr" where
  "vformat [] args = []"
| "vformat (c # cs) args =
     (if c \<noteq> CHR ''%'' then wide_char c # vformat cs args
      else case args of [] \<Rightarrow> []
        | a # args' \<Rightarrow> (let (k, rest) = conversion_spec cs in render_arg k a @ vformat rest args'))"
  by pat_completeness auto
termination
  by (relation "measure (\<lambda>(cs, args). length cs)")
    (auto simp: less_Suc_eq_le dest: conversion_spec_shrinks[OF sym])

section \<open>Digits\<close>

definition is_digit :: "wchar \<Rightarrow> bool" where
  "is_digit c \<longleftrightarrow> 48 \<le> c \<and> c \<le> 57"

lemma digit_range: "d < 10 \<Longrightarrow> is_digit (of_nat (48 + d))"
proof -
  assume "d < 10"
  then have "d \<in> {0,1,2,3,4,5,6,7,8,9}" by auto
  then show ?thesis by (auto simp: is_digit_def)
qed

lemma dec_not_Nil [simp]: "dec n \<noteq> []"
  by (subst dec.simps) simp

lemma dec_digits: "c \<in> set (dec n) \<Longrightarrow> is_digit c"
proof (induction n rule: dec.induct)
  case (1 n)
  then show ?case
    using digit_range [of n] digit_range [of "n mod 10"]
    by (subst (asm) dec.simps) (auto split: if_splits)
qed

lemma zero_pad_digits: "c \<in> set (zero_pad k (dec n)) \<Longrightarrow> is_digit c"
  by (auto simp: zero_pad_def is_digit_def dest: dec_digits split: if_splits)

lemma dec_length: "n < 10 ^ k \<Longrightarrow> 0 < k \<Longrightarrow> length (dec n) \<le> k"
proof (induction n arbitrary: k rule: dec.induct)
  case (1 n)
  show ?case
  proof (cases "n < 10")
    case True
    with 1 show ?thesis by (subst dec.simps) simp
  next
    case False
    with "1.prems" obtain j where k: "k = Suc j" and j: "0 < j"
      by (cases k; cases "k - 1") auto
    with "1.prems" have "n div 10 < 10 ^ j" by auto
    with "1.IH" False j have "length (dec (n div 10)) \<le> j" by simp
    with False k show ?thesis by (subst dec.simps) simp
  qed
qed

lemma port_length: "length (dec (unat (p :: u16))) \<le> 5"
proof -
  have "unat p < 2 ^ LENGTH(16)" by (rule unsigned_less)
  then show ?thesis by (intro dec_length) auto
qed

text \<open>Reading a decimal number back.\<close>

definition digit_value :: "wchar \<Rightarrow> nat" where
  "digit_value c = unat c - 48"

definition undec :: "wstr \<Rightarrow> nat" where
  "undec ds = foldl (\<lambda>a c. 10 * a + digit_value c) 0 ds"

lemma digit_value_of_nat: "d < 10 \<Longrightarrow> digit_value (of_nat (48 + d)) = d"
proof -
  assume "d < 10"
  then have "d \<in> {0,1,2,3,4,5,6,7,8,9}" by auto
  then show ?thesis by (auto simp: digit_value_def)
qed

lemma undec_dec [str_simps]: "undec (dec n) = n"
proof (induction n rule: dec.induct)
  case (1 n)
  then show ?case
    using digit_value_of_nat [of n] digit_value_of_nat [of "n mod 10"]
    by (subst dec.simps) (auto simp: undec_def)
qed

lemma dec_inject: "dec m = dec n \<longleftrightarrow> m = n"
  by (metis undec_dec)

lemma zero_pad_undec: "undec (zero_pad k ds) = undec ds"
proof -
  have "foldl (\<lambda>a c. 10 * a + digit_value c) 0 (replicate j 48) = 0" for j
    by (induction j) (auto simp: digit_value_def)
  then show ?thesis by (simp add: undec_def zero_pad_def)
qed

lemma digits_no_nul: "(\<And>c. c \<in> set ds \<Longrightarrow> is_digit c) \<Longrightarrow> 0 \<notin> set ds"
  by (fastforce simp: is_digit_def)

section \<open>Formatted text holds no NUL\<close>

lemma of_nat_wchar_nonzero: "0 < m \<Longrightarrow> m < 65536 \<Longrightarrow> (of_nat m :: wchar) \<noteq> 0"
  using nat_dvd_not_less [of m 65536] by (simp add: word_of_nat_eq_0_iff)

lemma wide_char_eq_0: "wide_char c = 0 \<longleftrightarrow> c = CHR 0x00"
proof -
  have "of_char c < (65536 :: nat)" using nat_of_char_less_256 [of c] by linarith
  then have "wide_char c = 0 \<longleftrightarrow> of_char c = (0 :: nat)"
    using of_nat_wchar_nonzero [of "of_char c"] by (cases "of_char c = (0 :: nat)") (auto simp: wide_char_def)
  also have "\<dots> \<longleftrightarrow> c = CHR 0x00" using of_char_eq_iff [where 'a = nat, of c "CHR 0x00"] by simp
  finally show ?thesis .
qed

lemma wide_no_nul: "CHR 0x00 \<notin> set s \<Longrightarrow> 0 \<notin> set (wide s)"
  by (auto simp: wide_def) (metis wide_char_eq_0)

lemma hex_no_nul: "0 \<notin> set (hex n)"
proof (induction n rule: hex.induct)
  case (1 n)
  have dig: "(of_nat (if d < 10 then 48 + d else 87 + d) :: wchar) \<noteq> 0" if "d < 16" for d :: nat
    using that by (intro of_nat_wchar_nonzero) auto
  show ?case
    using dig [of n] dig [of "n mod 16"] 1 by (subst hex.simps) auto
qed

lemma render_arg_no_nul: "(\<forall>s. a = FStr s \<longrightarrow> 0 \<notin> set s) \<Longrightarrow> 0 \<notin> set (render_arg k a)"
  using digits_no_nul [OF dec_digits] hex_no_nul
  by (cases k; cases a) (auto simp: zero_pad_def)

lemma conversion_spec_rest: "conversion_spec cs = (k, rest) \<Longrightarrow> set rest \<subseteq> set cs"
  by (auto simp: conversion_spec_def split: if_splits dest: in_set_dropD)

lemma vformat_no_nul [str_simps]:
  "CHR 0x00 \<notin> set fmt \<Longrightarrow> \<forall>s. FStr s \<in> set args \<longrightarrow> 0 \<notin> set s \<Longrightarrow> 0 \<notin> set (vformat fmt args)"
proof (induction fmt args rule: vformat.induct)
  case (2 c cs args)
  show ?case
  proof (cases "c = CHR ''%''")
    case False
    then show ?thesis using 2 wide_char_eq_0 [of c] by auto
  next
    case True
    show ?thesis
    proof (cases args)
      case (Cons a args')
      obtain k rest where s: "conversion_spec cs = (k, rest)" by fastforce
      have "CHR 0x00 \<notin> set rest" using conversion_spec_rest [OF s] "2.prems"(1) by auto
      then have "0 \<notin> set (vformat rest args')"
        using "2.IH"(2) True Cons s "2.prems"(2) by auto
      moreover have "0 \<notin> set (render_arg k a)"
        using render_arg_no_nul [of a k] "2.prems"(2) Cons by auto
      ultimately show ?thesis using True Cons s by simp
    qed (use True in simp)
  qed
qed simp

section \<open>The length of formatted text\<close>

lemma hex_length: "n < 16 ^ k \<Longrightarrow> 0 < k \<Longrightarrow> length (hex n) \<le> k"
proof (induction n arbitrary: k rule: hex.induct)
  case (1 n)
  show ?case
  proof (cases "n < 16")
    case True
    with 1 show ?thesis by (subst hex.simps) simp
  next
    case False
    with "1.prems" obtain j where k: "k = Suc j" and j: "0 < j"
      by (cases k; cases "k - 1") auto
    with "1.prems" have "n div 16 < 16 ^ j" by auto
    with "1.IH" False j have "length (hex (n div 16)) \<le> j" by simp
    with False k show ?thesis by (subst hex.simps) simp
  qed
qed

text \<open>The room an argument needs: a string its length, a number of 32 bits at most ten digits and a sign.\<close>

fun arg_size :: "fmt_arg \<Rightarrow> nat" where
  "arg_size (FStr s) = length s"
| "arg_size (FNum n) = 10"
| "arg_size (FInt i) = 11"

fun small_arg :: "fmt_arg \<Rightarrow> bool" where
  "small_arg (FStr s) = True"
| "small_arg (FNum n) = (n < 2 ^ 32)"
| "small_arg (FInt i) = (\<bar>i\<bar> \<le> 2 ^ 31)"

lemma small_words [simp]: "small_arg (FNum (unat (x :: dword)))" "small_arg (FNum (unat (y :: u16)))"
proof -
  have "unat x < 2 ^ LENGTH(32)" "unat y < 2 ^ LENGTH(16)" by (rule unsigned_less)+
  then show "small_arg (FNum (unat x))" "small_arg (FNum (unat y))" by simp_all
qed

lemma render_arg_length:
  assumes "conversion_spec cs = (k, rest)" and "small_arg a"
  shows "length (render_arg k a) \<le> arg_size a"
proof -
  have pad: "k = ConvU j \<or> k = ConvX j \<Longrightarrow> j \<le> 4" for j
    using assms(1) by (auto simp: conversion_spec_def split: if_splits)
  have len: "length (dec n) \<le> 10" "length (hex n) \<le> 10" if "n < 2 ^ 32" for n
    using that dec_length [of n 10] hex_length [of n 10] by simp_all
  show ?thesis
  proof (cases a)
    case (FInt i)
    then have "nat \<bar>i\<bar> < 2 ^ 32" using assms(2) by (simp add: nat_less_iff)
    then show ?thesis using len(1) [of "nat \<bar>i\<bar>"] FInt by (cases k) auto
  qed (use assms(2) pad len in \<open>cases k; fastforce simp: zero_pad_def\<close>)+
qed

lemma vformat_length:
  "\<forall>a \<in> set args. small_arg a \<Longrightarrow> length (vformat fmt args) \<le> length fmt + sum_list (map arg_size args)"
proof (induction fmt args rule: vformat.induct)
  case (2 c cs args)
  show ?case
  proof (cases "c = CHR ''%''")
    case True
    show ?thesis
    proof (cases args)
      case (Cons a args')
      obtain k rest where s: "conversion_spec cs = (k, rest)" by fastforce
      have "length (vformat rest args') \<le> length rest + sum_list (map arg_size args')"
        using "2.IH"(2) True Cons s "2.prems" by auto
      moreover have "length rest \<le> length cs" using conversion_spec_shrinks [OF s] .
      moreover have "length (render_arg k a) \<le> arg_size a"
        using render_arg_length [OF s] "2.prems" Cons by simp
      ultimately show ?thesis using True Cons s by simp
    qed (use True in simp)
  qed (use 2 in force)
qed simp

declare small_arg.simps(2) [simp del]

section \<open>Searching a string for its last separator\<close>

text \<open>\<^verbatim>\<open>wcsrchr\<close> of the C library, as an index into the string.\<close>

fun wcsrchr :: "wstr \<Rightarrow> wchar \<Rightarrow> nat option" where
  "wcsrchr [] c = None"
| "wcsrchr (x # xs) c =
     (case wcsrchr xs c of Some i \<Rightarrow> Some (Suc i) | None \<Rightarrow> if x = c then Some 0 else None)"

lemma wcsrchr_None: "wcsrchr xs c = None \<longleftrightarrow> c \<notin> set xs"
  by (induction xs) (auto split: option.splits)

lemma wcsrchr_Some:
  "wcsrchr xs c = Some i \<Longrightarrow> i < length xs \<and> xs ! i = c \<and> c \<notin> set (drop (Suc i) xs)"
  by (induction xs arbitrary: i) (auto simp: wcsrchr_None split: option.splits if_splits)

section \<open>Win32 text functions\<close>

text \<open>
  \<^item> \<open>towlower\<close>: the C library's, which depends on the locale.
  \<^item> \<open>CompareStringOrdinal\<close>: with \<^verbatim>\<open>bIgnoreCase = TRUE\<close>; 1, 2 and 3 are
    \<^verbatim>\<open>CSTR_LESS_THAN\<close>, \<^verbatim>\<open>CSTR_EQUAL\<close> and \<^verbatim>\<open>CSTR_GREATER_THAN\<close>.
  \<^item> \<open>StringCchPrintfW n text\<close>: the capacity in characters and the text that the format and
    its arguments denote; the string left in the buffer and whether the call succeeded.
  \<^item> \<open>StringCchCatW n old text\<close>: the same, for appending.
  \<^item> \<open>FormatMessageW error n\<close>: the message stored in a buffer of \<open>n\<close> characters, or \<open>None\<close>
    when the call returns 0.
\<close>

record text_api =
  towlower :: "wchar \<Rightarrow> wchar"
  CompareStringOrdinal :: "wstr \<Rightarrow> wstr \<Rightarrow> int"
  StringCchPrintfW :: "nat \<Rightarrow> wstr \<Rightarrow> wstr \<times> bool"
  StringCchCatW :: "nat \<Rightarrow> wstr \<Rightarrow> wstr \<Rightarrow> wstr \<times> bool"
  FormatMessageW :: "dword \<Rightarrow> nat \<Rightarrow> wstr option"

definition CSTR_LESS_THAN :: int where "CSTR_LESS_THAN = 1"
definition CSTR_EQUAL :: int where "CSTR_EQUAL = 2"
definition CSTR_GREATER_THAN :: int where "CSTR_GREATER_THAN = 3"

text \<open>
  The documented behaviour of the strsafe functions: the buffer always ends up holding as much
  of the text as fits before a terminating NUL, and the call fails exactly when that truncates.
\<close>

definition strsafe_ok :: "text_api \<Rightarrow> bool" where
  "strsafe_ok W \<longleftrightarrow>
     (\<forall>n s. 0 < n \<longrightarrow> StringCchPrintfW W n s = (take (n - 1) s, length s < n)) \<and>
     (\<forall>n s t. length s < n \<longrightarrow>
        StringCchCatW W n s t = (take (n - 1) (s @ t), length s + length t < n))"

definition cch_printf :: "text_api \<Rightarrow> nat \<Rightarrow> string \<Rightarrow> fmt_arg list \<Rightarrow> wstr" where
  "cch_printf W n fmt args = fst (StringCchPrintfW W n (vformat fmt args))"

lemma cch_printf_take [plat_simps]:
  "strsafe_ok W \<Longrightarrow> 0 < n \<Longrightarrow> cch_printf W n fmt args = take (n - 1) (vformat fmt args)"
  by (simp add: strsafe_ok_def cch_printf_def)

lemma cch_cat_take [plat_simps]:
  "strsafe_ok W \<Longrightarrow> length s < n \<Longrightarrow>
   StringCchCatW W n s t = (take (n - 1) (s @ t), length s + length t < n)"
  by (simp add: strsafe_ok_def)

lemma cch_printf_length: "strsafe_ok W \<Longrightarrow> 0 < n \<Longrightarrow> length (cch_printf W n fmt args) < n"
  by (simp add: plat_simps)

text \<open>A concrete platform (ASCII case mapping, no system messages), for the witnesses.\<close>

definition ascii_lower :: "wchar \<Rightarrow> wchar" where
  "ascii_lower c = (if 65 \<le> c \<and> c \<le> 90 then c + 32 else c)"

fun ordinal_compare :: "wstr \<Rightarrow> wstr \<Rightarrow> int" where
  "ordinal_compare [] [] = 2"
| "ordinal_compare [] (y # ys) = 1"
| "ordinal_compare (x # xs) [] = 3"
| "ordinal_compare (x # xs) (y # ys) =
     (if ascii_lower x < ascii_lower y then 1
      else if ascii_lower y < ascii_lower x then 3 else ordinal_compare xs ys)"

definition ascii_text :: text_api where
  "ascii_text =
     \<lparr>towlower = ascii_lower,
      CompareStringOrdinal = ordinal_compare,
      StringCchPrintfW = (\<lambda>n s. (take (n - 1) s, length s < n)),
      StringCchCatW = (\<lambda>n s t. (take (n - 1) (s @ t), length s + length t < n)),
      FormatMessageW = (\<lambda>e n. None)\<rparr>"

lemma ascii_text_strsafe [simp]: "strsafe_ok ascii_text"
  by (simp add: strsafe_ok_def ascii_text_def)

lemma ascii_text_simps [simp]:
  "towlower ascii_text = ascii_lower"
  "CompareStringOrdinal ascii_text = ordinal_compare"
  "StringCchPrintfW ascii_text = (\<lambda>n s. (take (n - 1) s, length s < n))"
  "FormatMessageW ascii_text = (\<lambda>e n. None)"
  by (simp_all add: ascii_text_def)

end
