(* ===== verification/TG_Utils.thy ===== *)
theory TG_Utils
  imports TG_Text
begin

text \<open>
  \<^verbatim>\<open>src/utils.c\<close>: file times, the bounded string copy, case-insensitive search, path basenames
  and Windows error texts. The copy is modelled on the destination array, with every access
  bounds-checked; the string it leaves is shown to be a truncation of the source, which is the
  function \<open>wcopy\<close> the other components are written with.
\<close>

section \<open>Times\<close>

text \<open>The Win32 structure \<^verbatim>\<open>SYSTEMTIME\<close>, which events carry as their timestamp.\<close>

record systemtime =
  wYear :: u16
  wMonth :: u16
  wDayOfWeek :: u16
  wDay :: u16
  wHour :: u16
  wMinute :: u16
  wSecond :: u16
  wMilliseconds :: u16

record filetime =
  dwLowDateTime :: dword
  dwHighDateTime :: dword

text \<open>The conversions of the platform; \<open>None\<close> is a failing call.\<close>

record time_api =
  FileTimeToLocalFileTime :: "filetime \<Rightarrow> filetime option"
  FileTimeToSystemTime :: "filetime \<Rightarrow> systemtime option"
  SystemTimeToTzSpecificLocalTime :: "systemtime \<Rightarrow> systemtime option"
  SystemTimeToFileTime :: "systemtime \<Rightarrow> filetime option"

definition filetime_to_u64 :: "filetime \<Rightarrow> u64" where
  "filetime_to_u64 v = or (push_bit 32 (ucast (dwHighDateTime v))) (ucast (dwLowDateTime v))"

definition filetime_of_u64 :: "u64 \<Rightarrow> filetime" where
  "filetime_of_u64 v = \<lparr>dwLowDateTime = ucast v, dwHighDateTime = ucast (drop_bit 32 v)\<rparr>"

definition local_systemtime_from_filetime :: "time_api \<Rightarrow> u64 \<Rightarrow> systemtime option" where
  "local_systemtime_from_filetime T v =
     (if v = 0 then None
      else case FileTimeToLocalFileTime T (filetime_of_u64 v) of
             None \<Rightarrow> None
           | Some local_time \<Rightarrow> FileTimeToSystemTime T local_time)"

text \<open>\<open>utc\<close> is what \<^verbatim>\<open>GetSystemTime\<close> returns at the call.\<close>

definition get_local_system_time :: "time_api \<Rightarrow> systemtime \<Rightarrow> systemtime" where
  "get_local_system_time T utc =
     (case SystemTimeToTzSpecificLocalTime T utc of Some t \<Rightarrow> t | None \<Rightarrow> utc)"

lemma filetime_roundtrip: "filetime_of_u64 (filetime_to_u64 ft) = ft"
proof -
  have lo: "ucast (or (push_bit 32 (ucast hi :: u64)) (ucast lo)) = (lo :: dword)" for hi lo :: dword
    by (rule bit_eqI) (auto simp: bit_simps)
  have hi: "ucast (drop_bit 32 (or (push_bit 32 (ucast hi :: u64)) (ucast lo))) = (hi :: dword)"
    for hi lo :: dword
    by (rule bit_eqI) (auto simp: bit_simps dest: bit_imp_le_length)
  show ?thesis
    by (cases ft) (simp only: filetime_of_u64_def filetime_to_u64_def filetime.simps lo hi)
qed

lemma u64_roundtrip: "filetime_to_u64 (filetime_of_u64 v) = v"
  unfolding filetime_of_u64_def filetime_to_u64_def
  by (rule bit_eqI) (auto simp: bit_simps dest: bit_imp_le_length)

section \<open>Bounded copy\<close>

function copy_wstring_loop :: "wstr \<Rightarrow> nat \<Rightarrow> wstr \<Rightarrow> nat \<Rightarrow> (wstr \<times> nat) option" where
  "copy_wstring_loop dst n src i =
     (if i + 1 < n then do {
        c \<leftarrow> buf_get src i;
        if c \<noteq> 0 then do {
          dst' \<leftarrow> buf_put dst i c;
          copy_wstring_loop dst' n src (i + 1)
        } else Some (dst, i)
      } else Some (dst, i))"
  by pat_completeness auto
termination
  by (relation "measure (\<lambda>(dst, n, src, i). n - i)") auto

declare copy_wstring_loop.simps [simp del]

text \<open>
  The outer \<open>None\<close> is an access outside an array. A NULL destination is left alone; a NULL
  source stores the empty string.
\<close>

definition copy_wstring :: "wstr option \<Rightarrow> nat \<Rightarrow> wstr option \<Rightarrow> wstr option option" where
  "copy_wstring destination n source =
     (case destination of
        None \<Rightarrow> Some None
      | Some d \<Rightarrow>
          if n = 0 then Some (Some d)
          else (case source of
            None \<Rightarrow> (do { d' \<leftarrow> buf_put d 0 0; Some (Some d') })
          | Some s \<Rightarrow> (do {
              (d', i) \<leftarrow> copy_wstring_loop d n s 0;
              d'' \<leftarrow> buf_put d' i 0;
              Some (Some d'') })))"

text \<open>What the copy leaves as a string; the loop is shown to compute it.\<close>

definition wcopy :: "nat \<Rightarrow> wstr \<Rightarrow> wstr" where
  "wcopy n s = take (n - 1) s"

lemma wcopy_length [str_simps]: "0 < n \<Longrightarrow> length (wcopy n s) < n"
  by (simp add: wcopy_def)

lemma wcopy_fits [str_simps]: "length s < n \<Longrightarrow> wcopy n s = s"
  by (simp add: wcopy_def)

lemma wcopy_Nil [simp]: "wcopy n [] = []"
  by (simp add: wcopy_def)

lemma wcopy_idem [str_simps]: "wcopy n (wcopy n s) = wcopy n s"
  by (simp add: wcopy_def)

lemma wcopy_eq_Nil: "1 < n \<Longrightarrow> wcopy n s = [] \<longleftrightarrow> s = []"
  by (auto simp: wcopy_def)

lemma copy_wstring_loop_correct:
  assumes "i \<le> min (n - 1) (length (cstr src))" and "n \<le> length dst"
    and "nul_terminated src" and "0 < n" and "take i dst = take i (cstr src)"
  shows "\<exists>d. copy_wstring_loop dst n src i = Some (d, min (n - 1) (length (cstr src)))
           \<and> length d = length dst
           \<and> take (min (n - 1) (length (cstr src))) d = take (n - 1) (cstr src)
           \<and> drop (n - 1) d = drop (n - 1) dst"
  using assms
proof (induction dst n src i rule: copy_wstring_loop.induct)
  case (1 dst n src i)
  let ?m = "min (n - 1) (length (cstr src))"
  show ?case
  proof (cases "i + 1 < n \<and> i < length (cstr src)")
    case True
    then have i: "i < length src" "i < length dst"
      using "1.prems" length_cstr_less [of src] by auto
    have c: "src ! i = cstr src ! i" "src ! i \<noteq> 0"
      using nth_cstr [of i src] True by auto
    have bound: "Suc i \<le> n - Suc 0" "i < n - Suc 0" using True by auto
    have "take (i + 1) (dst[i := src ! i]) = take (i + 1) (cstr src)"
      using "1.prems" i c True by (simp add: take_Suc_update take_Suc_conv_app_nth)
    then obtain d where
      "copy_wstring_loop (dst[i := src ! i]) n src (i + 1) = Some (d, ?m)"
      "length d = length dst" "take ?m d = take (n - 1) (cstr src)"
      "drop (n - 1) d = drop (n - 1) (dst[i := src ! i])"
      using "1.IH" [of "src ! i" "dst[i := src ! i]"] "1.prems" True i c bound
      by (auto simp: buf_simps)
    moreover have "copy_wstring_loop dst n src i = copy_wstring_loop (dst[i := src ! i]) n src (i + 1)"
      using True i c by (subst copy_wstring_loop.simps) (simp add: buf_simps)
    ultimately show ?thesis using True by auto
  next
    case False
    then have m: "i = ?m" using "1.prems" by linarith
    have stop: "copy_wstring_loop dst n src i = Some (dst, i)"
    proof (cases "i + 1 < n")
      case True
      with False m have "i = length (cstr src)" by linarith
      with "1.prems" have "i < length src" "src ! i = 0"
        using length_cstr_less [of src] nth_length_cstr [of src] by auto
      then show ?thesis by (subst copy_wstring_loop.simps) (simp add: buf_simps)
    qed (simp add: copy_wstring_loop.simps)
    have "take ?m (cstr src) = take (n - 1) (cstr src)"
      by (simp add: min_def)
    then show ?thesis using stop m "1.prems"(5) by (metis)
  qed
qed

text \<open>
  \<^bold>\<open>C10\<close>. \<^verbatim>\<open>copy_wstring\<close> never leaves its arrays: with a destination of at least \<open>n > 0\<close>
  characters and a NUL-terminated source it succeeds, stores the source's string truncated to
  \<open>n - 1\<close> characters, terminates it, and changes nothing beyond the first \<open>n\<close> characters.
\<close>

theorem copy_wstring_safe:
  assumes "0 < n" and "n \<le> length d" and "nul_terminated s"
  shows "\<exists>d'. copy_wstring (Some d) n (Some s) = Some (Some d') \<and> length d' = length d
           \<and> cstr d' = wcopy n (cstr s) \<and> nul_terminated (take n d') \<and> drop n d' = drop n d"
proof -
  let ?m = "min (n - 1) (length (cstr s))"
  obtain e where e: "copy_wstring_loop d n s 0 = Some (e, ?m)" "length e = length d"
      "take ?m e = take (n - 1) (cstr s)" "drop (n - 1) e = drop (n - 1) d"
    using copy_wstring_loop_correct [of 0 n s d] assms by auto
  have m: "?m < n" "?m < length e" using assms e by auto
  have dec: "e[?m := 0] = take (n - 1) (cstr s) @ 0 # drop (Suc ?m) e"
    using m e by (simp add: upd_conv_take_nth_drop)
  have nul: "0 \<notin> set (take (n - 1) (cstr s))"
    using cstr_no_nul [of s] by (meson in_set_takeD)
  have "cstr (e[?m := 0]) = wcopy n (cstr s)"
    unfolding dec wcopy_def by (rule cstr_append_nul [OF nul])
  moreover have "nul_terminated (take n (e[?m := 0]))"
    using m unfolding nul_terminated_def
    by (metis assms(2) e(2) length_list_update length_take min.absorb2 nth_list_update_eq
        nth_mem nth_take)
  moreover have "drop n (e[?m := 0]) = drop n d"
  proof -
    have "drop n e = drop n d"
      using e(4) \<open>0 < n\<close> by (metis Suc_diff_1 drop_Suc tl_drop)
    then show ?thesis using m by simp
  qed
  ultimately show ?thesis
    using e m assms by (auto simp: copy_wstring_def buf_simps)
qed

theorem copy_wstring_safe_witness:
  "\<exists>d'. copy_wstring (Some [1, 1, 1, 1]) 3 (Some [65, 66, 67, 0]) = Some (Some d')
      \<and> cstr d' = [65, 66] \<and> nul_terminated (take 3 d') \<and> drop 3 d' = [1]"
proof -
  have h: "0 < (3::nat)" "3 \<le> length [1, 1, 1, 1 :: wchar]" "nul_terminated [65, 66, 67, 0]"
    by (simp_all add: nul_terminated_def)
  have "wcopy 3 (cstr [65, 66, 67, 0]) = [65, 66]" "drop 3 [1, 1, 1, 1 :: wchar] = [1]"
    by (simp_all add: wcopy_def cstr_def)
  with copy_wstring_safe [OF h] show ?thesis by metis
qed

section \<open>Case-insensitive search\<close>

text \<open>
  The inner loop: the offset at which it stops, either at the first mismatch (the \<^verbatim>\<open>break\<close>) or
  at the needle's end.
\<close>

function match_offset :: "text_api \<Rightarrow> wstr \<Rightarrow> wstr \<Rightarrow> nat \<Rightarrow> nat \<Rightarrow> nat" where
  "match_offset W value needle index offset =
     (if offset < length needle then
        if towlower W (value ! (index + offset)) \<noteq> towlower W (needle ! offset) then offset
        else match_offset W value needle index (offset + 1)
      else offset)"
  by pat_completeness auto
termination
  by (relation "measure (\<lambda>(W, value, needle, index, offset). length needle - offset)") auto

declare match_offset.simps [simp del]

function search_from :: "text_api \<Rightarrow> wstr \<Rightarrow> wstr \<Rightarrow> nat \<Rightarrow> bool" where
  "search_from W value needle index =
     (if index + length needle \<le> length value then
        if match_offset W value needle index 0 = length needle then True
        else search_from W value needle (index + 1)
      else False)"
  by pat_completeness auto
termination
  by (relation "measure (\<lambda>(W, value, needle, index). Suc (length value) - index)") auto

declare search_from.simps [simp del]

definition string_contains_insensitive :: "text_api \<Rightarrow> wstr option \<Rightarrow> wstr option \<Rightarrow> bool" where
  "string_contains_insensitive W value needle =
     (case (value, needle) of
        (Some v, Some s) \<Rightarrow>
          if length s = 0 then True
          else if length s > length v then False
          else search_from W v s 0
      | _ \<Rightarrow> False)"

definition string_equals_insensitive :: "text_api \<Rightarrow> wstr option \<Rightarrow> wstr option \<Rightarrow> bool" where
  "string_equals_insensitive W left right =
     (case (left, right) of
        (Some l, Some r) \<Rightarrow> CompareStringOrdinal W l r = CSTR_EQUAL
      | _ \<Rightarrow> False)"

lemma match_offset_bound: "k \<le> length s \<Longrightarrow> match_offset W v s i k \<le> length s"
  by (induction W v s i k rule: match_offset.induct) (subst match_offset.simps, auto)

lemma match_offset_full:
  "k \<le> length s \<Longrightarrow> match_offset W v s i k = length s \<longleftrightarrow>
     (\<forall>j. k \<le> j \<and> j < length s \<longrightarrow> towlower W (v ! (i + j)) = towlower W (s ! j))"
proof (induction W v s i k rule: match_offset.induct)
  case (1 W v s i k)
  show ?case
  proof (cases "k < length s \<and> towlower W (v ! (i + k)) = towlower W (s ! k)")
    case True
    have "(\<forall>j. k \<le> j \<and> j < length s \<longrightarrow> towlower W (v ! (i + j)) = towlower W (s ! j)) \<longleftrightarrow>
          (\<forall>j. k + 1 \<le> j \<and> j < length s \<longrightarrow> towlower W (v ! (i + j)) = towlower W (s ! j))"
      using True by (metis Suc_eq_plus1 Suc_leD le_antisym not_less_eq_eq)
    with True "1.IH" show ?thesis by (subst match_offset.simps) simp
  next
    case False
    then show ?thesis using "1.prems" by (subst match_offset.simps) auto
  qed
qed

text \<open>Position \<open>i\<close> matches exactly when the lower-cased needle is found there.\<close>

lemma match_at:
  assumes "i + length s \<le> length v"
  shows "match_offset W v s i 0 = length s \<longleftrightarrow>
     take (length s) (drop i (map (towlower W) v)) = map (towlower W) s"
  using assms by (auto simp: match_offset_full list_eq_iff_nth_eq)

lemma search_from_iff:
  "search_from W v s i \<longleftrightarrow>
     (\<exists>k \<ge> i. k + length s \<le> length v \<and>
        take (length s) (drop k (map (towlower W) v)) = map (towlower W) s)"
proof (induction W v s i rule: search_from.induct)
  case (1 W v s i)
  have split: "(\<exists>k \<ge> i. P k) \<longleftrightarrow> P i \<or> (\<exists>k \<ge> i + 1. P k)" for P :: "nat \<Rightarrow> bool"
    by (metis Suc_eq_plus1 Suc_leD le_antisym not_less_eq_eq order_refl)
  show ?case
  proof (cases "i + length s \<le> length v")
    case True
    with "1.IH" show ?thesis
      by (subst search_from.simps, subst split) (auto simp: match_at)
  qed (subst search_from.simps, auto)
qed

lemma sublist_take_drop:
  "sublist ys xs \<longleftrightarrow> (\<exists>k. k + length ys \<le> length xs \<and> take (length ys) (drop k xs) = ys)"
proof
  assume "sublist ys xs"
  then obtain ps ss where "xs = ps @ ys @ ss" by (auto simp: sublist_def)
  then show "\<exists>k. k + length ys \<le> length xs \<and> take (length ys) (drop k xs) = ys"
    by (intro exI [of _ "length ps"]) auto
next
  assume "\<exists>k. k + length ys \<le> length xs \<and> take (length ys) (drop k xs) = ys"
  then obtain k where "take (length ys) (drop k xs) = ys" by blast
  then have "xs = take k xs @ ys @ drop (length ys) (drop k xs)"
    by (metis append_take_drop_id)
  then show "sublist ys xs" by (metis sublist_def)
qed

text \<open>
  \<^bold>\<open>C11\<close>. The two nested loops of \<^verbatim>\<open>string_contains_insensitive\<close> decide exactly whether the
  needle occurs in the value once both are lower-cased; an empty needle always occurs, a NULL
  argument never does.
\<close>

theorem string_contains_insensitive_iff:
  "string_contains_insensitive W value needle \<longleftrightarrow>
     (\<exists>v s. value = Some v \<and> needle = Some s \<and>
        sublist (map (towlower W) s) (map (towlower W) v))"
proof (cases "value = None \<or> needle = None")
  case True
  then show ?thesis by (auto simp: string_contains_insensitive_def split: option.splits)
next
  case False
  then obtain v s where "value = Some v" "needle = Some s" by auto
  then show ?thesis
    by (cases "s = []")
      (auto simp: string_contains_insensitive_def search_from_iff sublist_take_drop)
qed

section \<open>Path basenames\<close>

definition W_BACKSLASH :: wchar where "W_BACKSLASH = 92"
definition W_SLASH :: wchar where "W_SLASH = 47"

definition path_basename :: "wstr option \<Rightarrow> wstr" where
  "path_basename path =
     (case path of
        None \<Rightarrow> []
      | Some p \<Rightarrow>
          (let last_separator = wcsrchr p W_BACKSLASH;
               alternate_separator = wcsrchr p W_SLASH;
               sep = (case alternate_separator of
                        Some a \<Rightarrow>
                          (case last_separator of
                             None \<Rightarrow> Some a
                           | Some l \<Rightarrow> if a > l then Some a else Some l)
                      | None \<Rightarrow> last_separator)
           in case sep of None \<Rightarrow> p | Some i \<Rightarrow> drop (i + 1) p))"

lemma drop_later_separator:
  "i \<le> j \<Longrightarrow> c \<notin> set (drop (Suc i) p) \<Longrightarrow> c \<notin> set (drop (Suc j) p)"
  using set_drop_subset_set_drop [of "Suc i" "Suc j" p] by auto

text \<open>
  \<^verbatim>\<open>path_basename\<close> returns the part of the path after its last separator of either kind:
  it holds no separator, and what is cut off is empty or ends in one.
\<close>

lemma path_basename_spec:
  "W_BACKSLASH \<notin> set (path_basename (Some p)) \<and> W_SLASH \<notin> set (path_basename (Some p)) \<and>
   (\<exists>dir. p = dir @ path_basename (Some p) \<and>
      (dir = [] \<or> last dir = W_BACKSLASH \<or> last dir = W_SLASH))"
proof -
  have cut: "\<exists>dir. p = dir @ drop (Suc i) p \<and>
      (dir = [] \<or> last dir = W_BACKSLASH \<or> last dir = W_SLASH)"
    if "i < length p" "p ! i = W_BACKSLASH \<or> p ! i = W_SLASH" for i
    using that id_take_nth_drop [of i p]
    by (intro exI [of _ "take (Suc i) p"]) (auto simp: take_Suc_conv_app_nth)
  have none: "wcsrchr p c = None \<Longrightarrow> c \<notin> set p" for c
    by (simp add: wcsrchr_None)
  show ?thesis
  proof (cases "wcsrchr p W_BACKSLASH"; cases "wcsrchr p W_SLASH")
    fix i assume "wcsrchr p W_BACKSLASH = None" "wcsrchr p W_SLASH = Some i"
    then show ?thesis using wcsrchr_Some [of p W_SLASH i] cut [of i] none [of W_BACKSLASH]
      by (auto simp: path_basename_def dest: in_set_dropD)
  next
    fix i assume "wcsrchr p W_BACKSLASH = Some i" "wcsrchr p W_SLASH = None"
    then show ?thesis using wcsrchr_Some [of p W_BACKSLASH i] cut [of i] none [of W_SLASH]
      by (auto simp: path_basename_def dest: in_set_dropD)
  next
    fix i j assume "wcsrchr p W_BACKSLASH = Some i" "wcsrchr p W_SLASH = Some j"
    then show ?thesis
      using wcsrchr_Some [of p W_BACKSLASH i] wcsrchr_Some [of p W_SLASH j] cut [of i] cut [of j]
        drop_later_separator [of i j W_BACKSLASH p] drop_later_separator [of j i W_SLASH p]
      by (auto simp: path_basename_def)
  qed (use none in \<open>auto simp: path_basename_def\<close>)
qed

section \<open>Windows error texts\<close>

text \<open>
  The loop that cuts trailing carriage returns and line feeds: \<open>result\<close> is the length the
  call reported, and each step stores a NUL over the last character.
\<close>

fun strip_line_end :: "wstr \<Rightarrow> nat \<Rightarrow> wstr" where
  "strip_line_end buffer 0 = take 0 buffer"
| "strip_line_end buffer (Suc r) =
     (if buffer ! r = 13 \<or> buffer ! r = 10 then strip_line_end buffer r else take (Suc r) buffer)"

definition format_windows_error :: "text_api \<Rightarrow> dword \<Rightarrow> nat \<Rightarrow> wstr" where
  "format_windows_error W error n =
     (if n = 0 then []
      else case FormatMessageW W error n of
        None \<Rightarrow> cch_printf W n ''Windows error %lu'' [FNum (unat error)]
      | Some msg \<Rightarrow> strip_line_end msg (length msg))"

lemma strip_line_end_prefix: "r \<le> length b \<Longrightarrow> prefix (strip_line_end b r) (take r b)"
proof (induction r)
  case (Suc r)
  then have "prefix (strip_line_end b r) (take r b)" by simp
  moreover have "prefix (take r b) (take (Suc r) b)"
    by (simp add: take_is_prefix take_Suc_conv_app_nth Suc.prems Suc_le_lessD)
  ultimately show ?case by (auto intro: prefix_order.trans)
qed simp

lemma strip_line_end_last:
  "r \<le> length b \<Longrightarrow> strip_line_end b r \<noteq> [] \<Longrightarrow> last (strip_line_end b r) \<notin> {13, 10}"
  by (induction r) (auto simp: take_Suc_conv_app_nth)

end
