(* ===== verification/TG_Events.thy ===== *)
theory TG_Events
  imports TG_Utils
begin

text \<open>
  \<^verbatim>\<open>include/events.h\<close> and \<^verbatim>\<open>src/events.c\<close>: the event record every component exchanges, its enums
  and their display names. A string field holds the string its \<^verbatim>\<open>WCHAR\<close> array contains;
  \<open>event_wf\<close> says that every string fits its array with a terminating NUL.
\<close>

section \<open>Array lengths\<close>

definition MAX_PATH :: nat where "MAX_PATH = 260"
definition TRACEGLASS_DETAIL_LENGTH :: nat where "TRACEGLASS_DETAIL_LENGTH = 1024"
definition TRACEGLASS_PROTOCOL_LENGTH :: nat where "TRACEGLASS_PROTOCOL_LENGTH = 16"
definition TRACEGLASS_ADDRESS_LENGTH :: nat where "TRACEGLASS_ADDRESS_LENGTH = 64"
definition TRACEGLASS_STATE_LENGTH :: nat where "TRACEGLASS_STATE_LENGTH = 32"
definition TRACEGLASS_RULE_LENGTH :: nat where "TRACEGLASS_RULE_LENGTH = 96"

lemmas array_lengths =
  MAX_PATH_def TRACEGLASS_DETAIL_LENGTH_def TRACEGLASS_PROTOCOL_LENGTH_def
  TRACEGLASS_ADDRESS_LENGTH_def TRACEGLASS_STATE_LENGTH_def TRACEGLASS_RULE_LENGTH_def

section \<open>Enums\<close>

text \<open>
  A C enum object can hold an integer outside its list; \<open>EVENT_UNLISTED\<close> stands for these, so
  that the \<^verbatim>\<open>default\<close> branches of the sources are branches of the model.
\<close>

datatype EventType =
    EVENT_PROCESS_START
  | EVENT_PROCESS_STOP
  | EVENT_NETWORK
  | EVENT_FILE
  | EVENT_REGISTRY
  | EVENT_ALERT
  | EVENT_UNLISTED int

datatype AlertSeverity = ALERT_NONE | ALERT_INFO | ALERT_LOW | ALERT_MEDIUM | ALERT_HIGH

text \<open>Severities are compared as the integers of the enum.\<close>

fun severity_code :: "AlertSeverity \<Rightarrow> nat" where
  "severity_code ALERT_NONE = 0"
| "severity_code ALERT_INFO = 1"
| "severity_code ALERT_LOW = 2"
| "severity_code ALERT_MEDIUM = 3"
| "severity_code ALERT_HIGH = 4"

lemma severity_code_inject [simp]: "severity_code a = severity_code b \<longleftrightarrow> a = b"
  by (cases a; cases b) simp_all

instantiation AlertSeverity :: linorder
begin

definition less_eq_AlertSeverity :: "AlertSeverity \<Rightarrow> AlertSeverity \<Rightarrow> bool" where
  "less_eq_AlertSeverity a b \<longleftrightarrow> severity_code a \<le> severity_code b"

definition less_AlertSeverity :: "AlertSeverity \<Rightarrow> AlertSeverity \<Rightarrow> bool" where
  "less_AlertSeverity a b \<longleftrightarrow> severity_code a < severity_code b"

instance
  by standard (auto simp: less_eq_AlertSeverity_def less_AlertSeverity_def)

end

section \<open>Records\<close>

record ProcessKey =
  pid :: dword
  creation_time :: u64

record TraceGlassEvent =
  ev_type :: EventType
  ev_severity :: AlertSeverity
  ev_sequence :: u64
  ev_process :: ProcessKey
  ev_parent :: ProcessKey
  ev_timestamp :: systemtime
  ev_process_name :: wstr
  ev_parent_name :: wstr
  ev_executable_path :: wstr
  ev_protocol :: wstr
  ev_local_address :: wstr
  ev_remote_address :: wstr
  ev_network_state :: wstr
  ev_rule_name :: wstr
  ev_local_port :: u16
  ev_remote_port :: u16
  ev_details :: wstr

definition zero_key :: ProcessKey where
  "zero_key = \<lparr>pid = 0, creation_time = 0\<rparr>"

definition zero_time :: systemtime where
  "zero_time = \<lparr>wYear = 0, wMonth = 0, wDayOfWeek = 0, wDay = 0,
     wHour = 0, wMinute = 0, wSecond = 0, wMilliseconds = 0\<rparr>"

text \<open>An event after \<^verbatim>\<open>ZeroMemory\<close>: the zero enum values, empty strings.\<close>

definition zero_event :: TraceGlassEvent where
  "zero_event =
     \<lparr>ev_type = EVENT_PROCESS_START, ev_severity = ALERT_NONE, ev_sequence = 0,
      ev_process = zero_key, ev_parent = zero_key, ev_timestamp = zero_time,
      ev_process_name = [], ev_parent_name = [], ev_executable_path = [],
      ev_protocol = [], ev_local_address = [], ev_remote_address = [],
      ev_network_state = [], ev_rule_name = [],
      ev_local_port = 0, ev_remote_port = 0, ev_details = []\<rparr>"

definition str_fits :: "nat \<Rightarrow> wstr \<Rightarrow> bool" where
  "str_fits n s \<longleftrightarrow> length s < n \<and> 0 \<notin> set s"

definition event_wf :: "TraceGlassEvent \<Rightarrow> bool" where
  "event_wf e \<longleftrightarrow>
     str_fits MAX_PATH (ev_process_name e) \<and>
     str_fits MAX_PATH (ev_parent_name e) \<and>
     str_fits MAX_PATH (ev_executable_path e) \<and>
     str_fits TRACEGLASS_PROTOCOL_LENGTH (ev_protocol e) \<and>
     str_fits TRACEGLASS_ADDRESS_LENGTH (ev_local_address e) \<and>
     str_fits TRACEGLASS_ADDRESS_LENGTH (ev_remote_address e) \<and>
     str_fits TRACEGLASS_STATE_LENGTH (ev_network_state e) \<and>
     str_fits TRACEGLASS_RULE_LENGTH (ev_rule_name e) \<and>
     str_fits TRACEGLASS_DETAIL_LENGTH (ev_details e)"

lemma str_fits_Nil [simp]: "0 < n \<Longrightarrow> str_fits n []"
  by (simp add: str_fits_def)

lemma str_fits_take [str_simps]: "0 < n \<Longrightarrow> 0 \<notin> set s \<Longrightarrow> str_fits n (take (n - 1) s)"
  by (auto simp: str_fits_def min_def dest: in_set_takeD)

lemma str_fits_wcopy [str_simps]: "0 < n \<Longrightarrow> 0 \<notin> set s \<Longrightarrow> str_fits n (wcopy n s)"
  using str_fits_take [of n s] by (simp add: wcopy_def)

lemma wcopy_ident: "str_fits n s \<Longrightarrow> wcopy n s = s"
  by (auto simp: str_fits_def wcopy_def)

lemma zero_event_wf [simp]: "event_wf zero_event"
  by (simp add: event_wf_def zero_event_def array_lengths)

section \<open>Display names\<close>

definition event_type_name :: "EventType \<Rightarrow> wstr" where
  "event_type_name t = wide (case t of
       EVENT_PROCESS_START \<Rightarrow> ''PROCESS START''
     | EVENT_PROCESS_STOP \<Rightarrow> ''PROCESS STOP''
     | EVENT_NETWORK \<Rightarrow> ''NETWORK''
     | EVENT_FILE \<Rightarrow> ''FILE''
     | EVENT_REGISTRY \<Rightarrow> ''REGISTRY''
     | EVENT_ALERT \<Rightarrow> ''ALERT''
     | EVENT_UNLISTED _ \<Rightarrow> ''UNKNOWN'')"

definition event_category_name :: "EventType \<Rightarrow> wstr" where
  "event_category_name t = wide (case t of
       EVENT_PROCESS_START \<Rightarrow> ''Process''
     | EVENT_PROCESS_STOP \<Rightarrow> ''Process''
     | EVENT_NETWORK \<Rightarrow> ''Network''
     | EVENT_FILE \<Rightarrow> ''File''
     | EVENT_REGISTRY \<Rightarrow> ''Registry''
     | EVENT_ALERT \<Rightarrow> ''Alert''
     | EVENT_UNLISTED _ \<Rightarrow> ''Unknown'')"

definition event_export_name :: "EventType \<Rightarrow> wstr" where
  "event_export_name t = wide (case t of
       EVENT_PROCESS_START \<Rightarrow> ''process_start''
     | EVENT_PROCESS_STOP \<Rightarrow> ''process_stop''
     | EVENT_NETWORK \<Rightarrow> ''network_connection''
     | EVENT_FILE \<Rightarrow> ''file''
     | EVENT_REGISTRY \<Rightarrow> ''registry''
     | EVENT_ALERT \<Rightarrow> ''alert''
     | EVENT_UNLISTED _ \<Rightarrow> ''unknown'')"

definition alert_severity_name :: "AlertSeverity \<Rightarrow> wstr" where
  "alert_severity_name s = wide (case s of
       ALERT_INFO \<Rightarrow> ''INFO''
     | ALERT_LOW \<Rightarrow> ''LOW''
     | ALERT_MEDIUM \<Rightarrow> ''MEDIUM''
     | ALERT_HIGH \<Rightarrow> ''HIGH''
     | ALERT_NONE \<Rightarrow> ''NONE'')"

lemma export_name_inject:
  assumes "event_export_name s = event_export_name t"
    and "\<forall>v. s \<noteq> EVENT_UNLISTED v" and "\<forall>v. t \<noteq> EVENT_UNLISTED v"
  shows "s = t"
proof -
  have "length (event_export_name s) = length (event_export_name t)"
    using assms(1) by simp
  then show ?thesis
    using assms(2,3) by (cases s; cases t) (auto simp: event_export_name_def)
qed

end
