(* ===== verification/TG_Queue.thy ===== *)
theory TG_Queue
  imports TG_Events
begin

text \<open>
  \<^verbatim>\<open>src/event_queue.c\<close>: the queue between the telemetry threads and the GUI thread, on a heap of
  linked nodes. A node's address is a natural number, the heap a partial map; following a pointer
  to a node that is not allocated is \<open>None\<close> (undefined behaviour), and so is freeing one.
  Each critical section is one atomic operation, so the lock itself has no state here.
\<close>

section \<open>Nodes, heap and queue\<close>

record EventNode =
  node_event :: TraceGlassEvent
  node_next :: "nat option"

type_synonym node_heap = "nat \<rightharpoonup> EventNode"

record EventQueue =
  q_head :: "nat option"
  q_tail :: "nat option"
  q_window :: "nat option"
  q_message :: dword
  q_pending :: bool
  q_initialized :: bool

definition event_queue_initialize :: "EventQueue option \<Rightarrow> nat option \<Rightarrow> dword \<Rightarrow> bool \<times> EventQueue option" where
  "event_queue_initialize queue window message =
     (case queue of
        None \<Rightarrow> (False, None)
      | Some _ \<Rightarrow>
          (True, Some \<lparr>q_head = None, q_tail = None, q_window = window, q_message = message,
                       q_pending = False, q_initialized = True\<rparr>))"

definition event_queue_set_window :: "EventQueue option \<Rightarrow> nat option \<Rightarrow> EventQueue option" where
  "event_queue_set_window queue window =
     (case queue of
        None \<Rightarrow> None
      | Some q \<Rightarrow> if \<not> q_initialized q then Some q else Some (q\<lparr>q_window := window\<rparr>))"

section \<open>push_event\<close>

text \<open>The critical section: link the node at the tail, claim the notification if none is pending.\<close>

definition push_locked :: "node_heap \<Rightarrow> EventQueue \<Rightarrow> nat \<Rightarrow> (node_heap \<times> EventQueue \<times> bool) option" where
  "push_locked h q node = do {
     (h', q') \<leftarrow>
       (case q_tail q of
          None \<Rightarrow> Some (h, q\<lparr>q_head := Some node, q_tail := Some node\<rparr>)
        | Some t \<Rightarrow>
            (case h t of
               None \<Rightarrow> None
             | Some tail_node \<Rightarrow>
                 Some (h(t \<mapsto> tail_node\<lparr>node_next := Some node\<rparr>), q\<lparr>q_tail := Some node\<rparr>)));
     Some (if \<not> q_pending q' then (h', q'\<lparr>q_pending := True\<rparr>, True) else (h', q', False))
   }"

text \<open>
  The whole call. \<open>allocated\<close> is what \<^verbatim>\<open>malloc\<close> returns. The result is the return value, the
  message posted to the window (if any), the heap and the queue.
\<close>

definition push_event ::
  "node_heap \<Rightarrow> EventQueue option \<Rightarrow> TraceGlassEvent option \<Rightarrow> nat option \<Rightarrow>
     (bool \<times> (nat \<times> dword) option \<times> node_heap \<times> EventQueue option) option" where
  "push_event h queue event allocated =
     (case (queue, event) of
        (Some q, Some e) \<Rightarrow>
          if \<not> q_initialized q then Some (False, None, h, Some q)
          else (case allocated of
            None \<Rightarrow> Some (False, None, h, Some q)
          | Some node \<Rightarrow> (do {
              (h', q', should_notify) \<leftarrow>
                push_locked (h(node \<mapsto> \<lparr>node_event = e, node_next = None\<rparr>)) q node;
              Some (True,
                    (if should_notify then map_option (\<lambda>w. (w, q_message q)) (q_window q) else None),
                    h', Some q') }))
      | _ \<Rightarrow> Some (False, None, h, queue))"

section \<open>pop_event\<close>

text \<open>The critical section: unlink the head, or give the notification back when there is none.\<close>

definition pop_locked :: "node_heap \<Rightarrow> EventQueue \<Rightarrow> (nat option \<times> EventQueue) option" where
  "pop_locked h q =
     (case q_head q of
        Some node \<Rightarrow>
          (case h node of
             None \<Rightarrow> None
           | Some nd \<Rightarrow>
               (let q' = q\<lparr>q_head := node_next nd\<rparr>
                in Some (Some node, if q_head q' = None then q'\<lparr>q_tail := None\<rparr> else q')))
      | None \<Rightarrow> Some (None, q\<lparr>q_pending := False\<rparr>))"

text \<open>
  The whole call: the event copied out (or \<open>None\<close> for the return value FALSE), the heap without
  the freed node, and the queue. \<open>out_ok\<close> says that the caller's event pointer is not NULL.
\<close>

definition pop_event ::
  "node_heap \<Rightarrow> EventQueue option \<Rightarrow> bool \<Rightarrow>
     (TraceGlassEvent option \<times> node_heap \<times> EventQueue option) option" where
  "pop_event h queue out_ok =
     (case queue of
        None \<Rightarrow> Some (None, h, None)
      | Some q \<Rightarrow>
          if \<not> out_ok \<or> \<not> q_initialized q then Some (None, h, Some q)
          else (do {
            (node, q') \<leftarrow> pop_locked h q;
            (case node of
               None \<Rightarrow> Some (None, h, Some q')
             | Some a \<Rightarrow>
                 (case h a of
                    None \<Rightarrow> None
                  | Some nd \<Rightarrow> Some (Some (node_event nd), h(a := None), Some q'))) }))"

section \<open>event_queue_destroy\<close>

partial_function (option) free_nodes :: "node_heap \<Rightarrow> nat option \<Rightarrow> node_heap option" where
  "free_nodes h node =
     (case node of
        None \<Rightarrow> Some h
      | Some a \<Rightarrow>
          (case h a of
             None \<Rightarrow> None
           | Some nd \<Rightarrow> free_nodes (h(a := None)) (node_next nd)))"

definition event_queue_destroy ::
  "node_heap \<Rightarrow> EventQueue option \<Rightarrow> (node_heap \<times> EventQueue option) option" where
  "event_queue_destroy h queue =
     (case queue of
        None \<Rightarrow> Some (h, None)
      | Some q \<Rightarrow>
          if \<not> q_initialized q then Some (h, Some q)
          else (do {
            h' \<leftarrow> free_nodes h (q_head q);
            Some (h', Some (q\<lparr>q_initialized := False, q_head := None, q_tail := None,
                              q_window := None\<rparr>)) }))"

section \<open>The list a queue represents\<close>

text \<open>The node addresses reached from a pointer, up to the NULL at the end.\<close>

fun chain :: "node_heap \<Rightarrow> nat option \<Rightarrow> nat list \<Rightarrow> bool" where
  "chain h p [] \<longleftrightarrow> p = None"
| "chain h p (a # as) \<longleftrightarrow>
     p = Some a \<and> (case h a of None \<Rightarrow> False | Some nd \<Rightarrow> chain h (node_next nd) as)"

definition chain_events :: "node_heap \<Rightarrow> nat list \<Rightarrow> TraceGlassEvent list" where
  "chain_events h as = map (\<lambda>a. node_event (the (h a))) as"

definition queue_rep :: "node_heap \<Rightarrow> EventQueue \<Rightarrow> nat list \<Rightarrow> bool" where
  "queue_rep h q as \<longleftrightarrow>
     chain h (q_head q) as \<and> distinct as \<and>
     q_tail q = (if as = [] then None else Some (last as))"

text \<open>
  \<open>holds s es\<close>: in the state \<open>s\<close> (heap and queue) the queue is usable and holds exactly the
  events \<open>es\<close>, oldest first, and every allocated node is one of its nodes.
\<close>

fun holds :: "node_heap \<times> EventQueue \<Rightarrow> TraceGlassEvent list \<Rightarrow> bool" where
  "holds (h, q) es \<longleftrightarrow>
     q_initialized q \<and> (\<exists>as. queue_rep h q as \<and> set as = dom h \<and> es = chain_events h as)"

lemma chain_allocated: "chain h p as \<Longrightarrow> set as \<subseteq> dom h"
  by (induction as arbitrary: p) (auto split: option.splits)

lemma chain_frame: "a \<notin> set as \<Longrightarrow> chain (h(a := v)) p as = chain h p as"
  by (induction as arbitrary: p) (auto split: option.splits)

lemma chain_snoc:
  assumes "chain h p as" and "distinct as" and "as \<noteq> []" and "n \<notin> dom h" and "h (last as) = Some t"
  shows "chain (h(n \<mapsto> \<lparr>node_event = e, node_next = None\<rparr>, last as \<mapsto> t\<lparr>node_next := Some n\<rparr>)) p (as @ [n])"
  using assms
proof (induction as arbitrary: p)
  case (Cons a as)
  show ?case
  proof (cases "as = []")
    case True
    with Cons.prems show ?thesis by auto
  next
    case False
    then have "last as \<in> set as" by simp
    with Cons.prems False have "a \<noteq> last as" "a \<noteq> n" by auto
    with Cons False show ?thesis by (auto split: option.splits)
  qed
qed simp

lemma chain_events_frame: "a \<notin> set as \<Longrightarrow> chain_events (h(a := v)) as = chain_events h as"
  by (auto simp: chain_events_def)

lemma chain_events_relink:
  "h t = Some nd \<Longrightarrow> chain_events (h(t \<mapsto> nd\<lparr>node_next := p\<rparr>)) as = chain_events h as"
  by (auto simp: chain_events_def)


section \<open>Each operation on the represented list\<close>

lemma holds_empty_iff: "holds (h, q) es \<Longrightarrow> q_head q = None \<longleftrightarrow> es = []"
  by (auto simp: queue_rep_def chain_events_def elim!: chain.elims)

lemma holds_Nil_dom: "holds s [] \<Longrightarrow> dom (fst s) = {}"
  by (cases s) (auto simp: chain_events_def)

lemma push_locked_holds:
  assumes "holds (h, q) es" and "n \<notin> dom h"
  shows "\<exists>h' q'. push_locked (h(n \<mapsto> \<lparr>node_event = e, node_next = None\<rparr>)) q n
           = Some (h', q', \<not> q_pending q) \<and> holds (h', q') (es @ [e]) \<and> q_pending q'
           \<and> q_window q' = q_window q \<and> q_message q' = q_message q \<and> dom h' = insert n (dom h)"
proof -
  let ?h = "h(n \<mapsto> \<lparr>node_event = e, node_next = None\<rparr>)"
  obtain as where as: "chain h (q_head q) as" "distinct as" "set as = dom h"
      "q_tail q = (if as = [] then None else Some (last as))" "es = chain_events h as"
      "q_initialized q"
    using assms(1) by (auto simp: queue_rep_def)
  have fresh: "n \<notin> set as" using as assms(2) by auto
  show ?thesis
  proof (cases "as = []")
    case True
    with as have "q_tail q = None" "dom h = {}" "es = []" by (auto simp: chain_events_def)
    then show ?thesis
      using as by (auto simp: push_locked_def queue_rep_def chain_events_def intro!: exI [of _ "[n]"])
  next
    case False
    then have "last as \<in> dom h" using as by (metis last_in_set)
    then obtain t where t: "h (last as) = Some t" by auto
    have ne: "last as \<noteq> n" using fresh False by auto
    let ?h' = "?h(last as \<mapsto> t\<lparr>node_next := Some n\<rparr>)"
    have "chain ?h' (q_head q) (as @ [n])"
      using chain_snoc [OF as(1,2) False assms(2) t] .
    moreover have "chain_events ?h' (as @ [n]) = es @ [e]"
    proof -
      have "chain_events ?h' as = chain_events h as"
        using chain_events_relink [of ?h "last as" t "Some n" as] chain_events_frame [OF fresh]
          t ne by simp
      then show ?thesis using ne as by (simp add: chain_events_def)
    qed
    moreover have "set (as @ [n]) = dom ?h'" "distinct (as @ [n])" "dom ?h' = insert n (dom h)"
      using as fresh t by auto
    ultimately have "holds (?h', q\<lparr>q_tail := Some n, q_pending := True\<rparr>) (es @ [e])"
      using as by (auto simp: queue_rep_def intro!: exI [of _ "as @ [n]"])
    moreover have "holds (?h', q\<lparr>q_tail := Some n\<rparr>) (es @ [e])"
      using \<open>chain ?h' (q_head q) (as @ [n])\<close> \<open>chain_events ?h' (as @ [n]) = es @ [e]\<close>
        \<open>set (as @ [n]) = dom ?h'\<close> \<open>distinct (as @ [n])\<close> as
      by (auto simp: queue_rep_def intro!: exI [of _ "as @ [n]"])
    ultimately show ?thesis
      using as False t ne \<open>dom ?h' = insert n (dom h)\<close> by (simp add: push_locked_def)
  qed
qed

lemma pop_locked_holds_Nil:
  "holds (h, q) [] \<Longrightarrow> pop_locked h q = Some (None, q\<lparr>q_pending := False\<rparr>)
     \<and> holds (h, q\<lparr>q_pending := False\<rparr>) []"
  using holds_empty_iff [of h q "[]"] by (auto simp: pop_locked_def queue_rep_def)

lemma pop_locked_holds_Cons:
  assumes "holds (h, q) (e # es)"
  shows "\<exists>a nd q'. pop_locked h q = Some (Some a, q') \<and> h a = Some nd \<and> node_event nd = e
           \<and> holds (h(a := None), q') es \<and> q_pending q' = q_pending q
           \<and> q_window q' = q_window q \<and> q_message q' = q_message q"
proof -
  obtain as where as: "chain h (q_head q) as" "distinct as" "set as = dom h"
      "q_tail q = (if as = [] then None else Some (last as))" "e # es = chain_events h as"
      "q_initialized q"
    using assms by (auto simp: queue_rep_def)
  then obtain a bs where ab: "as = a # bs" by (cases as) (auto simp: chain_events_def)
  with as obtain nd where nd: "q_head q = Some a" "h a = Some nd" "chain h (node_next nd) bs"
    by (auto split: option.splits)
  have fresh: "a \<notin> set bs" using as ab by simp
  have "node_next nd = None \<longleftrightarrow> bs = []"
    using nd(3) by (cases bs) auto
  moreover have "chain (h(a := None)) (node_next nd) bs" "chain_events (h(a := None)) bs = es"
    using nd fresh as ab by (auto simp: chain_frame chain_events_frame) (simp add: chain_events_def)
  moreover have "set bs = dom (h(a := None))" using as ab fresh by auto
  moreover have "node_event nd = e" using as ab nd by (simp add: chain_events_def)
  ultimately show ?thesis
    using as ab nd by (auto simp: pop_locked_def queue_rep_def Let_def)
qed

section \<open>The queue interface\<close>

text \<open>
  What the consumer relies on: a state \<open>s\<close> represents a list, pushing a fresh node appends,
  popping takes the oldest element or reports that there is none.
\<close>

locale fifo_queue =
  fixes rep :: "'s \<Rightarrow> 'e list \<Rightarrow> bool"
    and fresh :: "'a \<Rightarrow> 's \<Rightarrow> bool"
    and push :: "'a \<Rightarrow> 'e \<Rightarrow> 's \<Rightarrow> 's option"
    and pop :: "'s \<Rightarrow> ('e option \<times> 's) option"
  assumes push_appends: "rep s es \<Longrightarrow> fresh a s \<Longrightarrow> \<exists>s'. push a e s = Some s' \<and> rep s' (es @ [e])"
    and pop_oldest: "rep s (e # es) \<Longrightarrow> \<exists>s'. pop s = Some (Some e, s') \<and> rep s' es"
    and pop_none: "rep s [] \<Longrightarrow> \<exists>s'. pop s = Some (None, s') \<and> rep s' []"

text \<open>
  The consumer's loop \<^verbatim>\<open>while (pop_event(...)) body\<close>, over any pop. It returns \<open>None\<close> if a pop
  is undefined or if it never sees the queue empty.
\<close>

partial_function (option) drain_loop ::
  "('s \<Rightarrow> ('e option \<times> 's) option) \<Rightarrow> ('e \<Rightarrow> 'g \<Rightarrow> 'g) \<Rightarrow> 's \<Rightarrow> 'g \<Rightarrow> ('s \<times> 'g) option" where
  "drain_loop pop body s g =
     (case pop s of
        None \<Rightarrow> None
      | Some (None, s') \<Rightarrow> Some (s', g)
      | Some (Some e, s') \<Rightarrow> drain_loop pop body s' (body e g))"

context fifo_queue begin

lemma drain_all: "rep s es \<Longrightarrow> \<exists>s'. drain_loop pop body s g = Some (s', fold body es g) \<and> rep s' []"
proof (induction es arbitrary: s g)
  case Nil
  then obtain s' where "pop s = Some (None, s')" "rep s' []" using pop_none by blast
  then show ?case by (subst drain_loop.simps) simp
next
  case (Cons e es)
  then obtain s1 where s1: "pop s = Some (Some e, s1)" "rep s1 es" using pop_oldest by blast
  with Cons.IH [of s1 "body e g"] show ?case by (subst drain_loop.simps) simp
qed

lemma push_then_pop:
  assumes "rep s []" and "fresh a s"
  shows "\<exists>s1 s2. push a e s = Some s1 \<and> pop s1 = Some (Some e, s2) \<and> rep s2 []"
proof -
  obtain s1 where "push a e s = Some s1" "rep s1 [e]"
    using push_appends [OF assms, of e] by auto
  then show ?thesis using pop_oldest [of s1 e "[]"] by blast
qed

end

text \<open>The two calls with the queue's address and the event's address not NULL.\<close>

definition queue_push :: "nat \<Rightarrow> TraceGlassEvent \<Rightarrow> node_heap \<times> EventQueue \<Rightarrow> (node_heap \<times> EventQueue) option" where
  "queue_push node e s =
     (case push_event (fst s) (Some (snd s)) (Some e) (Some node) of
        Some (True, _, h', Some q') \<Rightarrow> Some (h', q')
      | _ \<Rightarrow> None)"

definition queue_pop :: "node_heap \<times> EventQueue \<Rightarrow> (TraceGlassEvent option \<times> node_heap \<times> EventQueue) option" where
  "queue_pop s =
     (case pop_event (fst s) (Some (snd s)) True of
        Some (r, h', Some q') \<Rightarrow> Some (r, h', q')
      | _ \<Rightarrow> None)"

lemma queue_pop_Nil: "holds s [] \<Longrightarrow> \<exists>s'. queue_pop s = Some (None, s') \<and> holds s' []"
  using pop_locked_holds_Nil [of "fst s" "snd s"]
  by (cases s) (auto simp: queue_pop_def pop_event_def)

lemma queue_pop_Cons: "holds s (e # es) \<Longrightarrow> \<exists>s'. queue_pop s = Some (Some e, s') \<and> holds s' es"
proof -
  assume a: "holds s (e # es)"
  obtain h q where s: "s = (h, q)" by (cases s)
  with a obtain n nd q' where "pop_locked h q = Some (Some n, q')" "h n = Some nd"
      "node_event nd = e" "holds (h(n := None), q') es"
    using pop_locked_holds_Cons [of h q e es] by metis
  moreover have "q_initialized q" using a s by simp
  ultimately show ?thesis using s by (simp add: queue_pop_def pop_event_def)
qed

lemma queue_push_holds:
  assumes "holds s es" and "n \<notin> dom (fst s)"
  shows "\<exists>s'. queue_push n e s = Some s' \<and> holds s' (es @ [e])"
proof -
  obtain h q where s: "s = (h, q)" by (cases s)
  obtain h' q' where "push_locked (h(n \<mapsto> \<lparr>node_event = e, node_next = None\<rparr>)) q n
      = Some (h', q', \<not> q_pending q)" "holds (h', q') (es @ [e])"
    using push_locked_holds [of h q es n e] assms s by auto
  moreover have "q_initialized q" using assms s by simp
  ultimately show ?thesis using s by (simp add: queue_push_def push_event_def del: holds.simps)
qed

interpretation event_fifo: fifo_queue holds "\<lambda>n s. n \<notin> dom (fst s)" queue_push queue_pop
  by unfold_locales (rule queue_push_holds queue_pop_Cons queue_pop_Nil; assumption)+

declare holds.simps [simp del]

lemma free_nodes_chain:
  "chain h p as \<Longrightarrow> distinct as \<Longrightarrow> free_nodes h p = Some (h |` (- set as))"
proof (induction as arbitrary: h p)
  case Nil
  then show ?case by (subst free_nodes.simps) (simp add: restrict_map_def)
next
  case (Cons a as)
  then obtain nd where nd: "p = Some a" "h a = Some nd" "chain h (node_next nd) as"
    by (auto split: option.splits)
  with Cons.prems have "chain (h(a := None)) (node_next nd) as" "distinct as"
    by (auto simp: chain_frame)
  then have "free_nodes (h(a := None)) (node_next nd) = Some ((h(a := None)) |` (- set as))"
    by (rule Cons.IH)
  moreover have "(h(a := None)) |` (- set as) = h |` (- set (a # as))"
    by (auto simp: restrict_map_def)
  ultimately show ?case using nd by (subst free_nodes.simps) simp
qed

section \<open>Properties\<close>

text \<open>
  \<^verbatim>\<open>push_event\<close> on a usable queue with a freshly allocated node succeeds without undefined
  behaviour and appends the event; it posts a message exactly when no notification was pending
  and a window is set, and leaves one pending.
\<close>

lemma push_event_appends:
  assumes "holds (h, q) es" and "n \<notin> dom h"
  shows "\<exists>h' q'. push_event h (Some q) (Some e) (Some n)
           = Some (True, (if q_pending q then None else map_option (\<lambda>w. (w, q_message q)) (q_window q)),
                   h', Some q')
         \<and> holds (h', q') (es @ [e]) \<and> q_pending q'"
proof -
  obtain h' q' where "push_locked (h(n \<mapsto> \<lparr>node_event = e, node_next = None\<rparr>)) q n
      = Some (h', q', \<not> q_pending q)" "holds (h', q') (es @ [e])" "q_pending q'"
    using push_locked_holds [of h q es n e] assms by auto
  moreover have "q_initialized q" using assms by (simp add: holds.simps)
  ultimately show ?thesis by (simp add: push_event_def)
qed

definition fresh_queue :: EventQueue where
  "fresh_queue = \<lparr>q_head = None, q_tail = None, q_window = Some 7, q_message = 32769,
     q_pending = False, q_initialized = True\<rparr>"

lemma fresh_queue_initialize:
  "event_queue_initialize (Some q) (Some 7) 32769 = (True, Some fresh_queue)"
  by (simp add: event_queue_initialize_def fresh_queue_def)

lemma fresh_queue_holds: "holds (Map.empty, fresh_queue) []"
  by (auto simp: holds.simps fresh_queue_def queue_rep_def chain_events_def)

text \<open>
  \<^bold>\<open>C2\<close>. Draining the queue with \<^verbatim>\<open>while (pop_event(...)) body\<close> terminates, runs the body on exactly
  the queued events in the order they were pushed, and leaves the queue empty and every node freed.
\<close>

theorem drain_delivers_in_order:
  assumes "holds s es"
  shows "\<exists>s'. drain_loop queue_pop body s g = Some (s', fold body es g) \<and> holds s' []
           \<and> dom (fst s') = {}"
proof -
  obtain s' where s': "drain_loop queue_pop body s g = Some (s', fold body es g)" "holds s' []"
    using event_fifo.drain_all [OF assms, of body g] by auto
  then show ?thesis using holds_Nil_dom [OF s'(2)] by (intro exI [of _ s'] conjI)
qed

text \<open>A queue of two events, the nodes at addresses 3 and 8.\<close>

definition stop_event :: TraceGlassEvent where
  "stop_event = zero_event\<lparr>ev_type := EVENT_PROCESS_STOP\<rparr>"

definition two_heap :: node_heap where
  "two_heap = [3 \<mapsto> \<lparr>node_event = zero_event, node_next = Some 8\<rparr>,
               8 \<mapsto> \<lparr>node_event = stop_event, node_next = None\<rparr>]"

definition two_queue :: EventQueue where
  "two_queue = fresh_queue\<lparr>q_head := Some 3, q_tail := Some 8, q_pending := True\<rparr>"

lemma two_holds: "holds (two_heap, two_queue) [zero_event, stop_event]"
  by (auto simp: holds.simps two_heap_def two_queue_def fresh_queue_def queue_rep_def chain_events_def
      intro!: exI [of _ "[3, 8]"])

theorem drain_delivers_in_order_witness:
  "\<exists>s'. drain_loop queue_pop (\<lambda>e log. log @ [e]) (two_heap, two_queue) []
      = Some (s', [zero_event, stop_event]) \<and> holds s' []"
  using drain_delivers_in_order [OF two_holds, of "\<lambda>e log. log @ [e]" "[]"] by auto

lemma destroy_empties:
  assumes "holds (h, q) es"
  shows "\<exists>q'. event_queue_destroy h (Some q) = Some (Map.empty, Some q') \<and>
           push_event Map.empty (Some q') (Some e) (Some n) = Some (False, None, Map.empty, Some q') \<and>
           pop_event Map.empty (Some q') True = Some (None, Map.empty, Some q')"
proof -
  obtain as where as: "chain h (q_head q) as" "distinct as" "set as = dom h" "q_initialized q"
    using assms by (auto simp: holds.simps queue_rep_def)
  have "h |` (- dom h) = Map.empty"
    by (auto simp: restrict_map_def domIff fun_eq_iff)
  then have "free_nodes h (q_head q) = Some Map.empty"
    using free_nodes_chain [OF as(1,2)] as(3) by simp
  then show ?thesis
    using as by (simp add: event_queue_destroy_def push_event_def pop_event_def)
qed

text \<open>
  \<^bold>\<open>C9\<close>. \<^verbatim>\<open>event_queue_destroy\<close> terminates, frees every node once whatever is still queued, and
  leaves a queue that refuses further pushes and pops.
\<close>

theorem destroy_frees_all:
  assumes "holds (h, q) es"
  shows "\<exists>q'. event_queue_destroy h (Some q) = Some (Map.empty, Some q') \<and>
           push_event Map.empty (Some q') (Some e) (Some n) = Some (False, None, Map.empty, Some q') \<and>
           pop_event Map.empty (Some q') True = Some (None, Map.empty, Some q')"
  using assms by (rule destroy_empties)

theorem destroy_frees_all_witness:
  "\<exists>q'. event_queue_destroy two_heap (Some two_queue) = Some (Map.empty, Some q') \<and>
     push_event Map.empty (Some q') (Some zero_event) (Some 1) = Some (False, None, Map.empty, Some q')"
  using destroy_frees_all [OF two_holds, of zero_event 1] by auto

end
