(* ===== verification/TG_Notify.thy ===== *)
theory TG_Notify
  imports TG_Queue
begin

text \<open>
  The notification protocol between the producers (\<^verbatim>\<open>push_event\<close> on the telemetry threads) and the
  GUI thread (\<^verbatim>\<open>drain_events\<close> run for one \<^verbatim>\<open>TRACEGLASS_WM_EVENTS_READY\<close> message), as a step
  relation. A step is one critical section of \<^verbatim>\<open>src/event_queue.c\<close> or one message operation, so
  a run is any interleaving of the threads: a producer that claimed the notification has left the
  critical section but has not posted yet while it is counted in \<open>posting\<close>.
\<close>

record notify_state =
  n_heap :: node_heap
  n_queue :: EventQueue
  n_posting :: nat
  n_inbox :: nat
  n_draining :: bool
  n_delivered :: "TraceGlassEvent list"

datatype notify_label =
    Produce nat TraceGlassEvent
  | Post
  | PostFails
  | Wake
  | PopOne
  | PopLast

inductive notify_step :: "notify_state \<Rightarrow> notify_label \<Rightarrow> notify_state \<Rightarrow> bool" where
  produce: "n_heap s n = None \<Longrightarrow>
     push_locked ((n_heap s)(n \<mapsto> \<lparr>node_event = e, node_next = None\<rparr>)) (n_queue s) n = Some (h, q, claim) \<Longrightarrow>
     notify_step s (Produce n e)
       (s\<lparr>n_heap := h, n_queue := q, n_posting := n_posting s + (if claim then 1 else 0)\<rparr>)"
| post: "0 < n_posting s \<Longrightarrow>
     notify_step s Post (s\<lparr>n_posting := n_posting s - 1, n_inbox := n_inbox s + 1\<rparr>)"
| post_fails: "0 < n_posting s \<Longrightarrow>
     notify_step s PostFails (s\<lparr>n_posting := n_posting s - 1\<rparr>)"
| wake: "0 < n_inbox s \<Longrightarrow> \<not> n_draining s \<Longrightarrow>
     notify_step s Wake (s\<lparr>n_inbox := n_inbox s - 1, n_draining := True\<rparr>)"
| pop_one: "n_draining s \<Longrightarrow> pop_locked (n_heap s) (n_queue s) = Some (Some a, q) \<Longrightarrow>
     n_heap s a = Some nd \<Longrightarrow>
     notify_step s PopOne
       (s\<lparr>n_heap := (n_heap s)(a := None), n_queue := q, n_delivered := n_delivered s @ [node_event nd]\<rparr>)"
| pop_last: "n_draining s \<Longrightarrow> pop_locked (n_heap s) (n_queue s) = Some (None, q) \<Longrightarrow>
     notify_step s PopLast (s\<lparr>n_queue := q, n_draining := False\<rparr>)"

inductive notify_run :: "notify_state \<Rightarrow> notify_label list \<Rightarrow> notify_state \<Rightarrow> bool" where
  run_done: "notify_run s [] s"
| run_more: "notify_step s l t \<Longrightarrow> notify_run t ls u \<Longrightarrow> notify_run s (l # ls) u"

inductive_cases produceE: "notify_step s (Produce n e) t"
inductive_cases postE: "notify_step s Post t"
inductive_cases post_failsE: "notify_step s PostFails t"
inductive_cases wakeE: "notify_step s Wake t"
inductive_cases pop_oneE: "notify_step s PopOne t"
inductive_cases pop_lastE: "notify_step s PopLast t"
inductive_simps notify_run_Nil [simp]: "notify_run s [] t"
inductive_simps notify_run_Cons: "notify_run s (l # ls) t"

definition notify_start :: notify_state where
  "notify_start = \<lparr>n_heap = Map.empty, n_queue = fresh_queue, n_posting = 0, n_inbox = 0,
     n_draining = False, n_delivered = []\<rparr>"

fun produced :: "notify_label list \<Rightarrow> TraceGlassEvent list" where
  "produced [] = []"
| "produced (Produce n e # ls) = e # produced ls"
| "produced (_ # ls) = produced ls"

text \<open>
  Notifications under way: claimed and not yet posted, posted and not yet received, or received
  by the consumer that is still draining. The protocol keeps their number at one while a
  notification is pending and at zero otherwise, and never leaves events queued without one.
\<close>

definition tokens :: "notify_state \<Rightarrow> nat" where
  "tokens s = n_posting s + n_inbox s + (if n_draining s then 1 else 0)"

definition notify_inv :: "notify_state \<Rightarrow> TraceGlassEvent list \<Rightarrow> bool" where
  "notify_inv s es \<longleftrightarrow>
     holds (n_heap s, n_queue s) es \<and> (es \<noteq> [] \<longrightarrow> q_pending (n_queue s)) \<and>
     tokens s = (if q_pending (n_queue s) then 1 else 0)"

lemma notify_start_inv: "notify_inv notify_start []"
  by (simp add: notify_inv_def notify_start_def tokens_def fresh_queue_holds)
    (simp add: fresh_queue_def)

text \<open>One step: how the queued and the delivered events change, and the invariant.\<close>

lemma notify_step_inv:
  assumes "notify_step s l t" and "notify_inv s es" and "l \<noteq> PostFails"
  shows "\<exists>es'. notify_inv t es' \<and> n_delivered t @ es' = n_delivered s @ es @ produced [l]"
  using assms
proof (cases rule: notify_step.cases)
  case (produce n e h q claim)
  obtain h' q' where "push_locked ((n_heap s)(n \<mapsto> \<lparr>node_event = e, node_next = None\<rparr>)) (n_queue s) n
      = Some (h', q', \<not> q_pending (n_queue s))" "holds (h', q') (es @ [e])" "q_pending q'"
    using push_locked_holds [of "n_heap s" "n_queue s" es n e] assms(2) produce
    by (auto simp: notify_inv_def)
  with produce have eq: "h' = h" "q' = q" "claim = (\<not> q_pending (n_queue s))"
    and rest: "holds (h, q) (es @ [e])" "q_pending q" by auto
  then show ?thesis
    using assms(2) produce
    by (intro exI [of _ "es @ [e]"]) (auto simp: notify_inv_def tokens_def split: if_splits)
next
  case post
  then show ?thesis
    using assms(2) by (intro exI [of _ es]) (auto simp: notify_inv_def tokens_def)
next
  case wake
  then show ?thesis
    using assms(2) by (intro exI [of _ es]) (auto simp: notify_inv_def tokens_def split: if_splits)
next
  case (pop_one a q nd)
  then have "es \<noteq> []"
    using assms(2) pop_locked_holds_Nil [of "n_heap s" "n_queue s"] by (auto simp: notify_inv_def)
  then obtain e es' where es: "es = e # es'" by (cases es) auto
  with assms(2) pop_one have "holds ((n_heap s)(a := None), q) es'" "node_event nd = e"
      "q_pending q = q_pending (n_queue s)"
    using pop_locked_holds_Cons [of "n_heap s" "n_queue s" e es'] by (auto simp: notify_inv_def)
  then show ?thesis
    using assms(2) pop_one es
    by (intro exI [of _ es']) (auto simp: notify_inv_def tokens_def split: if_splits)
next
  case (pop_last q)
  then have "es = []"
    using assms(2) pop_locked_holds_Cons [of "n_heap s" "n_queue s" "hd es" "tl es"]
    by (cases es) (auto simp: notify_inv_def)
  then show ?thesis
    using assms(2) pop_last pop_locked_holds_Nil [of "n_heap s" "n_queue s"]
    by (intro exI [of _ "[]"]) (auto simp: notify_inv_def tokens_def split: if_splits)
qed simp

lemma produced_Cons: "produced (l # ls) = produced [l] @ produced ls"
  by (cases l) simp_all

lemma notify_run_inv:
  assumes "notify_run s ls t" and "notify_inv s es" and "PostFails \<notin> set ls"
  shows "\<exists>es'. notify_inv t es' \<and> n_delivered t @ es' = n_delivered s @ es @ produced ls"
  using assms
proof (induction arbitrary: es rule: notify_run.induct)
  case (run_more s l t ls u)
  then obtain es1 where es1: "notify_inv t es1"
      "n_delivered t @ es1 = n_delivered s @ es @ produced [l]"
    using notify_step_inv [OF run_more.hyps(1)] by auto
  with run_more obtain es2 where "notify_inv u es2"
      "n_delivered u @ es2 = n_delivered t @ es1 @ produced ls" by auto
  with es1 show ?case by (metis append.assoc produced_Cons)
qed auto

text \<open>A consumer that has been woken can always drain and finish.\<close>

lemma drain_run:
  assumes "notify_inv s es" and "n_draining s"
  shows "\<exists>ls t. notify_run s ls t \<and> set ls \<subseteq> {PopOne, PopLast} \<and> notify_inv t []
           \<and> n_delivered t = n_delivered s @ es \<and> \<not> q_pending (n_queue t)"
  using assms
proof (induction es arbitrary: s)
  case Nil
  let ?q = "(n_queue s)\<lparr>q_pending := False\<rparr>"
  have "pop_locked (n_heap s) (n_queue s) = Some (None, ?q)" "holds (n_heap s, ?q) []"
    using pop_locked_holds_Nil [of "n_heap s" "n_queue s"] Nil by (auto simp: notify_inv_def)
  then have step: "notify_step s PopLast (s\<lparr>n_queue := ?q, n_draining := False\<rparr>)"
    using Nil notify_step.pop_last by blast
  moreover have "notify_inv (s\<lparr>n_queue := ?q, n_draining := False\<rparr>) []"
    using Nil \<open>holds (n_heap s, ?q) []\<close> by (auto simp: notify_inv_def tokens_def split: if_splits)
  ultimately show ?case
    by (intro exI [of _ "[PopLast]"] exI) (auto simp: notify_run_Cons)
next
  case (Cons e es)
  obtain a nd q where p: "pop_locked (n_heap s) (n_queue s) = Some (Some a, q)"
      "n_heap s a = Some nd" "node_event nd = e" "holds ((n_heap s)(a := None), q) es"
      "q_pending q = q_pending (n_queue s)"
    using pop_locked_holds_Cons [of "n_heap s" "n_queue s" e es] Cons.prems
    by (auto simp: notify_inv_def)
  let ?t = "s\<lparr>n_heap := (n_heap s)(a := None), n_queue := q, n_delivered := n_delivered s @ [e]\<rparr>"
  have step: "notify_step s PopOne ?t"
    using notify_step.pop_one [OF Cons.prems(2) p(1,2)] p(3) by simp
  have "notify_inv ?t es" "n_draining ?t"
    using Cons.prems p by (auto simp: notify_inv_def tokens_def split: if_splits)
  then obtain ls u where "notify_run ?t ls u" "set ls \<subseteq> {PopOne, PopLast}" "notify_inv u []"
      "n_delivered u = n_delivered ?t @ es" "\<not> q_pending (n_queue u)"
    using Cons.IH by blast
  with step show ?case
    by (intro exI [of _ "PopOne # ls"] exI [of _ u]) (auto simp: notify_run_Cons)
qed

section \<open>Properties\<close>

text \<open>
  \<^bold>\<open>C3\<close>. In every interleaving of producers and consumer in which posting succeeds, the consumer has
  received exactly a prefix of what was produced, in order, and the rest is what is queued: no
  event is lost, duplicated or reordered. The pending flag has exactly one owner while it is set
  (a producer about to post, the posted message, or the draining consumer) and none while it is
  clear, and it is set whenever an event is queued (no lost wake-up). The runs in which a post
  fails are the subject of the last property of this theory.
\<close>

theorem notification_protocol:
  assumes "notify_run notify_start ls s" and "PostFails \<notin> set ls"
  shows "\<exists>es. holds (n_heap s, n_queue s) es \<and> produced ls = n_delivered s @ es \<and>
           n_posting s + n_inbox s + (if n_draining s then 1 else 0) = (if q_pending (n_queue s) then 1 else 0) \<and>
           (es \<noteq> [] \<longrightarrow> q_pending (n_queue s))"
proof -
  obtain es where "notify_inv s es" "n_delivered s @ es = produced ls"
    using notify_run_inv [OF assms(1) notify_start_inv assms(2)]
    by (auto simp: notify_start_def)
  then show ?thesis
    by (intro exI [of _ es]) (simp add: notify_inv_def tokens_def)
qed

text \<open>A run: one event pushed, the message posted and received, the queue not yet drained.\<close>

definition one_node :: EventNode where
  "one_node = \<lparr>node_event = zero_event, node_next = None\<rparr>"

definition one_queue :: EventQueue where
  "one_queue = fresh_queue\<lparr>q_head := Some 3, q_tail := Some 3, q_pending := True\<rparr>"

definition pushed_state :: notify_state where
  "pushed_state = notify_start\<lparr>n_heap := [3 \<mapsto> one_node], n_queue := one_queue, n_posting := 1\<rparr>"

definition posted_state :: notify_state where
  "posted_state = pushed_state\<lparr>n_posting := 0, n_inbox := 1\<rparr>"

lemma push_step: "notify_step notify_start (Produce 3 zero_event) pushed_state"
proof -
  have "push_locked [3 \<mapsto> one_node] fresh_queue 3 = Some ([3 \<mapsto> one_node], one_queue, True)"
    by (simp add: push_locked_def fresh_queue_def one_queue_def)
  then show ?thesis
    using notify_step.produce [of notify_start 3 zero_event "[3 \<mapsto> one_node]" one_queue True]
    by (simp add: notify_start_def pushed_state_def one_node_def)
qed

lemma posted_run: "notify_run notify_start [Produce 3 zero_event, Post] posted_state"
proof -
  have "notify_step pushed_state Post posted_state"
    using notify_step.post [of pushed_state] by (simp add: pushed_state_def posted_state_def notify_start_def)
  with push_step show ?thesis by (auto simp: notify_run_Cons)
qed

theorem notification_protocol_witness:
  "holds (n_heap posted_state, n_queue posted_state) [zero_event] \<and> q_pending (n_queue posted_state) \<and>
     n_posting posted_state + n_inbox posted_state = 1"
  using notification_protocol [OF posted_run]
  by (auto simp: posted_state_def pushed_state_def notify_start_def one_queue_def)

text \<open>
  \<^bold>\<open>C4\<close>. As long as no post has failed: from every reachable state the consumer and the pending
  post alone, with no further push, reach a state in which everything produced so far has been
  delivered and no notification is pending.
\<close>

theorem queued_events_get_delivered:
  assumes "notify_run notify_start ls s" and "PostFails \<notin> set ls"
  shows "\<exists>ks t. notify_run s ks t \<and> set ks \<subseteq> {Post, Wake, PopOne, PopLast}
           \<and> n_delivered t = produced ls \<and> \<not> q_pending (n_queue t)"
proof -
  obtain es where inv: "notify_inv s es" and deliv: "n_delivered s @ es = produced ls"
    using notify_run_inv [OF assms(1) notify_start_inv assms(2)] by (auto simp: notify_start_def)
  have drain: "\<exists>ks t. notify_run s' ks t \<and> set ks \<subseteq> {PopOne, PopLast}
      \<and> n_delivered t = produced ls \<and> \<not> q_pending (n_queue t)"
    if "notify_inv s' es" "n_draining s'" "n_delivered s' = n_delivered s" for s'
    using drain_run [OF that(1,2)] that(3) deliv by auto
  have awake: "\<exists>ks t. notify_run s' ks t \<and> set ks \<subseteq> {Wake, PopOne, PopLast}
      \<and> n_delivered t = produced ls \<and> \<not> q_pending (n_queue t)"
    if "notify_inv s' es" "0 < n_inbox s'" "n_delivered s' = n_delivered s" for s'
  proof -
    let ?u = "s'\<lparr>n_inbox := n_inbox s' - 1, n_draining := True\<rparr>"
    have nd: "\<not> n_draining s'" using that by (auto simp: notify_inv_def tokens_def split: if_splits)
    then have "notify_step s' Wake ?u" using that(2) by (rule notify_step.wake [rotated])
    moreover have "notify_inv ?u es"
      using that nd by (auto simp: notify_inv_def tokens_def split: if_splits)
    ultimately show ?thesis
      using drain [of ?u] that(3) by (fastforce simp: notify_run_Cons intro: notify_run.run_more)
  qed
  consider "n_draining s" | "0 < n_inbox s" | "0 < n_posting s" | "\<not> q_pending (n_queue s)"
    using inv by (cases "n_inbox s = 0") (auto simp: notify_inv_def tokens_def split: if_splits)
  then show ?thesis
  proof cases
    case 1 with drain [OF inv] show ?thesis by blast
  next
    case 2 with awake [OF inv] show ?thesis by blast
  next
    case 3
    let ?u = "s\<lparr>n_posting := n_posting s - 1, n_inbox := n_inbox s + 1\<rparr>"
    have step: "notify_step s Post ?u" using 3 by (rule notify_step.post)
    have "notify_inv ?u es" using 3 inv by (auto simp: notify_inv_def tokens_def split: if_splits)
    then obtain ks t where "notify_run ?u ks t" "set ks \<subseteq> {Wake, PopOne, PopLast}"
        "n_delivered t = produced ls" "\<not> q_pending (n_queue t)"
      using awake [of ?u] by auto
    with step have "notify_run s (Post # ks) t \<and> set (Post # ks) \<subseteq> {Post, Wake, PopOne, PopLast}"
      by (auto intro: notify_run.run_more)
    with \<open>n_delivered t = produced ls\<close> \<open>\<not> q_pending (n_queue t)\<close> show ?thesis by blast
  next
    case 4
    then have "es = []" using inv by (auto simp: notify_inv_def)
    then show ?thesis using 4 deliv by (intro exI [of _ "[]"] exI [of _ s]) auto
  qed
qed

theorem queued_events_get_delivered_witness:
  "\<exists>ks t. notify_run posted_state ks t \<and> n_delivered t = [zero_event] \<and> \<not> q_pending (n_queue t)"
  using queued_events_get_delivered [OF posted_run] by auto

text \<open>
  The result of \<^verbatim>\<open>PostMessageW\<close> is not checked. If the one post fails, the notification stays
  pending with nobody to deliver it, and no later push posts another.
\<close>

definition stalled :: "notify_state \<Rightarrow> bool" where
  "stalled s \<longleftrightarrow> q_pending (n_queue s) \<and> tokens s = 0"

lemma push_locked_pending:
  "push_locked h q n = Some (h', q', claim) \<Longrightarrow> q_pending q \<Longrightarrow> q_pending q' \<and> \<not> claim"
  by (auto simp: push_locked_def split: option.splits)

lemma stalled_step: "notify_step s l t \<Longrightarrow> stalled s \<Longrightarrow> stalled t \<and> n_delivered t = n_delivered s"
  by (induction rule: notify_step.induct)
    (auto simp: stalled_def tokens_def dest: push_locked_pending split: if_splits)

text \<open>
  \<^bold>\<open>C12\<close>. Once the post of a claimed notification fails while no other is under way, nothing that
  is queued then or pushed later is ever delivered.
\<close>

theorem failed_post_stalls_the_queue:
  assumes "notify_run notify_start ls s" and "PostFails \<notin> set ls"
    and "notify_step s PostFails t" and "notify_run t ks u"
  shows "n_delivered u = n_delivered s"
proof -
  obtain es where "notify_inv s es"
    using notify_run_inv [OF assms(1) notify_start_inv assms(2)] by auto
  with assms(3) have t: "stalled t \<and> n_delivered t = n_delivered s"
    by (auto elim!: post_failsE simp: stalled_def notify_inv_def tokens_def split: if_splits)
  from assms(4) t show ?thesis
  proof (induction rule: notify_run.induct)
    case (run_more s' l t' ls' u')
    then show ?case using stalled_step [of s' l t'] by simp
  qed simp
qed

lemma failed_run: "notify_step pushed_state PostFails (pushed_state\<lparr>n_posting := 0\<rparr>)"
  using notify_step.post_fails [of pushed_state] by (simp add: pushed_state_def)

lemma push_after_failure:
  "\<exists>u. notify_run (pushed_state\<lparr>n_posting := 0\<rparr>) [Produce 5 stop_event] u \<and> n_posting u = 0"
proof -
  let ?h = "[3 \<mapsto> one_node\<lparr>node_next := Some 5\<rparr>, 5 \<mapsto> \<lparr>node_event = stop_event, node_next = None\<rparr>]"
  have "push_locked ([3 \<mapsto> one_node](5 \<mapsto> \<lparr>node_event = stop_event, node_next = None\<rparr>)) one_queue 5
      = Some (?h, one_queue\<lparr>q_tail := Some 5\<rparr>, False)"
    by (simp add: push_locked_def one_queue_def fresh_queue_def fun_upd_twist)
  then show ?thesis
    using notify_step.produce [of "pushed_state\<lparr>n_posting := 0\<rparr>" 5 stop_event ?h "one_queue\<lparr>q_tail := Some 5\<rparr>" False]
    by (auto simp: notify_run_Cons pushed_state_def)
qed

theorem failed_post_stalls_the_queue_witness:
  "\<exists>u. notify_run (pushed_state\<lparr>n_posting := 0\<rparr>) [Produce 5 stop_event] u \<and> n_delivered u = []"
proof -
  have "notify_run notify_start [Produce 3 zero_event] pushed_state"
    using push_step by (auto simp: notify_run_Cons)
  moreover obtain u where "notify_run (pushed_state\<lparr>n_posting := 0\<rparr>) [Produce 5 stop_event] u"
    using push_after_failure by blast
  ultimately show ?thesis
    using failed_post_stalls_the_queue [OF _ _ failed_run]
    by (fastforce simp: pushed_state_def notify_start_def)
qed

end
