(* ===== verification/TG_Store.thy ===== *)
theory TG_Store
  imports TG_Events
begin

text \<open>
  \<^verbatim>\<open>src/event_store.c\<close>: the session's event log and process records, owned by the GUI thread.
  A dynamic array is its initialised prefix (a list) with the count and capacity the code keeps
  beside it as \<^verbatim>\<open>size_t\<close> words; a record pointer is an index into the list. An outer \<open>None\<close> is
  a call that does not return, which is shown never to happen.
\<close>

section \<open>State\<close>

record ProcessRecord =
  pr_key :: ProcessKey
  pr_parent :: ProcessKey
  pr_active :: bool
  pr_name :: wstr
  pr_parent_name :: wstr
  pr_path :: wstr
  pr_start_time :: systemtime
  pr_stop_time :: systemtime

record EventStore =
  st_events :: "TraceGlassEvent list"
  st_event_count :: u64
  st_event_capacity :: u64
  st_processes :: "ProcessRecord list"
  st_process_count :: u64
  st_process_capacity :: u64
  st_active_process_count :: u64
  st_network_count :: u64
  st_alert_count :: u64
  st_next_sequence :: u64

text \<open>Which reallocations succeed, by the number of bytes asked for.\<close>

record store_alloc =
  realloc_events_ok :: "u64 \<Rightarrow> bool"
  realloc_processes_ok :: "u64 \<Rightarrow> bool"

definition SIZE_MAX :: u64 where "SIZE_MAX = 0xFFFFFFFFFFFFFFFF"

text \<open>The x64 sizes of the two structures.\<close>

definition sizeof_event :: u64 where "sizeof_event = 4224"
definition sizeof_record :: u64 where "sizeof_record = 1632"

definition zero_record :: ProcessRecord where
  "zero_record = \<lparr>pr_key = zero_key, pr_parent = zero_key, pr_active = False, pr_name = [],
     pr_parent_name = [], pr_path = [], pr_start_time = zero_time, pr_stop_time = zero_time\<rparr>"

definition zero_store :: EventStore where
  "zero_store = \<lparr>st_events = [], st_event_count = 0, st_event_capacity = 0,
     st_processes = [], st_process_count = 0, st_process_capacity = 0,
     st_active_process_count = 0, st_network_count = 0, st_alert_count = 0, st_next_sequence = 0\<rparr>"

definition event_store_initialize :: "EventStore option \<Rightarrow> bool \<times> EventStore option" where
  "event_store_initialize store =
     (case store of
        None \<Rightarrow> (False, None)
      | Some _ \<Rightarrow> (True, Some (zero_store\<lparr>st_next_sequence := 1\<rparr>)))"

definition event_store_destroy :: "EventStore option \<Rightarrow> EventStore option" where
  "event_store_destroy store = map_option (\<lambda>_. zero_store) store"

section \<open>Growing the arrays\<close>

text \<open>
  The loop \<^verbatim>\<open>while (capacity < required)\<close>. The inner \<open>None\<close> is the early \<^verbatim>\<open>return FALSE\<close>; from a
  zero capacity the loop would not end.
\<close>

partial_function (option) double_until :: "u64 \<Rightarrow> u64 \<Rightarrow> u64 option option" where
  "double_until capacity required =
     (if capacity < required then
        (if capacity > SIZE_MAX div 2 then Some None else double_until (capacity * 2) required)
      else Some (Some capacity))"

text \<open>The capacity the loop starts from: the first allocation's, or twice the current one.\<close>

definition first_capacity :: "u64 \<Rightarrow> u64 \<Rightarrow> u64 option" where
  "first_capacity initial capacity =
     (if capacity = 0 then Some initial
      else if capacity > SIZE_MAX div 2 then None
      else Some (capacity * 2))"

definition reserve_events :: "store_alloc \<Rightarrow> EventStore \<Rightarrow> u64 \<Rightarrow> (bool \<times> EventStore) option" where
  "reserve_events A s required =
     (if required \<le> st_event_capacity s then Some (True, s)
      else case first_capacity 256 (st_event_capacity s) of
        None \<Rightarrow> Some (False, s)
      | Some c0 \<Rightarrow> (do {
          grown \<leftarrow> double_until c0 required;
          (case grown of
             None \<Rightarrow> Some (False, s)
           | Some capacity \<Rightarrow>
               if capacity > SIZE_MAX div sizeof_event then Some (False, s)
               else if \<not> realloc_events_ok A (capacity * sizeof_event) then Some (False, s)
               else Some (True, s\<lparr>st_event_capacity := capacity\<rparr>)) }))"

definition reserve_processes :: "store_alloc \<Rightarrow> EventStore \<Rightarrow> u64 \<Rightarrow> (bool \<times> EventStore) option" where
  "reserve_processes A s required =
     (if required \<le> st_process_capacity s then Some (True, s)
      else case first_capacity 128 (st_process_capacity s) of
        None \<Rightarrow> Some (False, s)
      | Some c0 \<Rightarrow> (do {
          grown \<leftarrow> double_until c0 required;
          (case grown of
             None \<Rightarrow> Some (False, s)
           | Some capacity \<Rightarrow>
               if capacity > SIZE_MAX div sizeof_record then Some (False, s)
               else if \<not> realloc_processes_ok A (capacity * sizeof_record) then Some (False, s)
               else Some (True, s\<lparr>st_process_capacity := capacity\<rparr>)) }))"

section \<open>Process records\<close>

definition process_keys_match :: "ProcessKey \<Rightarrow> ProcessKey \<Rightarrow> bool" where
  "process_keys_match left right =
     (if pid left \<noteq> pid right then False
      else creation_time left = creation_time right \<or> creation_time left = 0 \<or> creation_time right = 0)"

text \<open>The scan from the newest record down; \<open>active_match\<close> is the newest active match so far.\<close>

fun find_process_loop :: "ProcessRecord list \<Rightarrow> ProcessKey \<Rightarrow> nat \<Rightarrow> nat option \<Rightarrow> nat option" where
  "find_process_loop ps key 0 active_match = active_match"
| "find_process_loop ps key (Suc index) active_match =
     (let r = ps ! index in
      if process_keys_match (pr_key r) key then
        if creation_time (pr_key r) = creation_time key \<and> creation_time key \<noteq> 0 then Some index
        else if pr_active r \<and> active_match = None then find_process_loop ps key index (Some index)
        else find_process_loop ps key index active_match
      else find_process_loop ps key index active_match)"

definition event_store_find_process :: "EventStore option \<Rightarrow> ProcessKey \<Rightarrow> nat option" where
  "event_store_find_process store key =
     (case store of
        None \<Rightarrow> None
      | Some s \<Rightarrow>
          if pid key = 0 then None
          else find_process_loop (st_processes s) key (unat (st_process_count s)) None)"

definition update_record_from_event :: "ProcessRecord \<Rightarrow> TraceGlassEvent \<Rightarrow> ProcessRecord" where
  "update_record_from_event r e =
     (let r1 = (if creation_time (ev_process e) \<noteq> 0
                then r\<lparr>pr_key := (pr_key r)\<lparr>creation_time := creation_time (ev_process e)\<rparr>\<rparr> else r);
          r2 = (if pid (ev_parent e) \<noteq> 0 then r1\<lparr>pr_parent := ev_parent e\<rparr> else r1);
          r3 = (if ev_process_name e \<noteq> [] then r2\<lparr>pr_name := wcopy MAX_PATH (ev_process_name e)\<rparr> else r2);
          r4 = (if ev_parent_name e \<noteq> [] then r3\<lparr>pr_parent_name := wcopy MAX_PATH (ev_parent_name e)\<rparr> else r3);
          r5 = (if ev_executable_path e \<noteq> [] then r4\<lparr>pr_path := wcopy MAX_PATH (ev_executable_path e)\<rparr> else r4)
      in r5)"

text \<open>A cleared record at the end of the array, with the event's identity and names.\<close>

definition new_record :: "TraceGlassEvent \<Rightarrow> ProcessRecord" where
  "new_record e = update_record_from_event (zero_record\<lparr>pr_key := ev_process e, pr_parent := ev_parent e\<rparr>) e"

section \<open>event_store_add\<close>

text \<open>
  The end of the function: append the event to the log under the next sequence number. The
  result is the return value, the value of \<^verbatim>\<open>*accepted\<close>, the store and the caller's event.
\<close>

type_synonym add_result = "bool \<times> bool \<times> EventStore \<times> TraceGlassEvent"

definition append_event :: "store_alloc \<Rightarrow> EventStore \<Rightarrow> TraceGlassEvent \<Rightarrow> add_result option" where
  "append_event A s e = do {
     (ok, s1) \<leftarrow> reserve_events A s (st_event_count s + 1);
     (if \<not> ok then Some (False, False, s1, e)
      else (let e' = e\<lparr>ev_sequence := st_next_sequence s1\<rparr>
            in Some (True, True,
                 s1\<lparr>st_next_sequence := st_next_sequence s1 + 1,
                    st_events := st_events s1 @ [e'],
                    st_event_count := st_event_count s1 + 1\<rparr>, e')))
   }"

definition add_start :: "store_alloc \<Rightarrow> EventStore \<Rightarrow> TraceGlassEvent \<Rightarrow> add_result option" where
  "add_start A s e =
     (case event_store_find_process (Some s) (ev_process e) of
        Some i \<Rightarrow>
          Some (True, False,
            s\<lparr>st_processes := (st_processes s)[i := update_record_from_event (st_processes s ! i) e]\<rparr>, e)
      | None \<Rightarrow> (do {
          (ok, s1) \<leftarrow> reserve_processes A s (st_process_count s + 1);
          (if \<not> ok then Some (False, False, s1, e)
           else append_event A
             (s1\<lparr>st_processes := st_processes s1 @
                   [(new_record e)\<lparr>pr_active := True, pr_start_time := ev_timestamp e\<rparr>],
                 st_process_count := st_process_count s1 + 1,
                 st_active_process_count := st_active_process_count s1 + 1\<rparr>) e) }))"

text \<open>The last steps of a stop: the count, the active flag and the stop time of record \<open>i\<close>.\<close>

definition finish_stop :: "EventStore \<Rightarrow> nat \<Rightarrow> TraceGlassEvent \<Rightarrow> EventStore" where
  "finish_stop s i e =
     (let r = st_processes s ! i;
          s1 = (if pr_active r \<and> st_active_process_count s > 0
                then s\<lparr>st_active_process_count := st_active_process_count s - 1\<rparr> else s)
      in s1\<lparr>st_processes := (st_processes s1)[i := r\<lparr>pr_active := False, pr_stop_time := ev_timestamp e\<rparr>]\<rparr>)"

definition add_stop :: "store_alloc \<Rightarrow> EventStore \<Rightarrow> TraceGlassEvent \<Rightarrow> add_result option" where
  "add_stop A s e =
     (case event_store_find_process (Some s) (ev_process e) of
        Some i \<Rightarrow>
          if \<not> pr_active (st_processes s ! i) then Some (True, False, s, e)
          else append_event A
            (finish_stop
              (s\<lparr>st_processes := (st_processes s)[i := update_record_from_event (st_processes s ! i) e]\<rparr>) i e) e
      | None \<Rightarrow> (do {
          (ok, s1) \<leftarrow> reserve_processes A s (st_process_count s + 1);
          (if \<not> ok then Some (False, False, s1, e)
           else append_event A
             (finish_stop
               (s1\<lparr>st_processes := st_processes s1 @ [new_record e],
                   st_process_count := st_process_count s1 + 1\<rparr>) (length (st_processes s1)) e) e) }))"

definition store_add :: "store_alloc \<Rightarrow> EventStore \<Rightarrow> TraceGlassEvent \<Rightarrow> add_result option" where
  "store_add A s e =
     (case ev_type e of
        EVENT_PROCESS_START \<Rightarrow> add_start A s e
      | EVENT_PROCESS_STOP \<Rightarrow> add_stop A s e
      | EVENT_NETWORK \<Rightarrow> append_event A (s\<lparr>st_network_count := st_network_count s + 1\<rparr>) e
      | EVENT_ALERT \<Rightarrow> append_event A (s\<lparr>st_alert_count := st_alert_count s + 1\<rparr>) e
      | _ \<Rightarrow> append_event A s e)"

text \<open>The whole call, with its NULL checks.\<close>

definition event_store_add ::
  "store_alloc \<Rightarrow> EventStore option \<Rightarrow> TraceGlassEvent option \<Rightarrow>
     (bool \<times> bool \<times> EventStore option \<times> TraceGlassEvent option) option" where
  "event_store_add A store event =
     (case (store, event) of
        (Some s, Some e) \<Rightarrow> (do {
          (ok, accepted, s', e') \<leftarrow> store_add A s e;
          Some (ok, accepted, Some s', Some e') })
      | _ \<Rightarrow> Some (False, False, store, event))"

section \<open>Growth: termination and bounds\<close>

lemma half_size_max: "unat (SIZE_MAX div 2) = 2 ^ 63 - 1"
  by (simp add: SIZE_MAX_def unat_div)

lemma unat_double: "c \<le> SIZE_MAX div 2 \<Longrightarrow> unat (c * 2) = unat c * 2"
proof -
  assume "c \<le> SIZE_MAX div 2"
  then have "unat c \<le> 2 ^ 63 - 1"
    using half_size_max by (simp add: word_le_nat_alt)
  then show ?thesis by (simp add: unat_word_ariths)
qed

lemma double_until_returns:
  "0 < c \<Longrightarrow> \<exists>r. double_until c n = Some r \<and> (\<forall>d. r = Some d \<longrightarrow> n \<le> d \<and> c \<le> d)"
proof (induction "2 ^ 64 - unat c" arbitrary: c rule: less_induct)
  case less
  show ?case
  proof (cases "c < n \<and> c \<le> SIZE_MAX div 2")
    case True
    then have u: "unat (c * 2) = unat c * 2" by (simp add: unat_double)
    have pos: "0 < unat c" using less.prems by (simp add: unat_gt_0 word_gt_0)
    have "unat (c * 2) < 2 ^ 64" using unsigned_less [of "c * 2"] by simp
    then have "2 ^ 64 - unat (c * 2) < 2 ^ 64 - unat c" using u pos by linarith
    moreover have "0 < c * 2" using u pos by (simp add: word_less_nat_alt)
    ultimately obtain r where r: "double_until (c * 2) n = Some r"
        "\<forall>d. r = Some d \<longrightarrow> n \<le> d \<and> c * 2 \<le> d"
      using less.hyps by blast
    have "c \<le> c * 2" using u by (simp add: word_le_nat_alt)
    then show ?thesis using r True
      by (subst double_until.simps) (auto intro: order_trans simp: not_less)
  next
    case False
    then show ?thesis by (subst double_until.simps) (auto simp: not_less not_le)
  qed
qed

lemma first_capacity_pos: "first_capacity i c = Some d \<Longrightarrow> 0 < i \<Longrightarrow> 0 < d \<and> c \<le> d"
proof -
  assume a: "first_capacity i c = Some d" "0 < i"
  show ?thesis
  proof (cases "c = 0")
    case False
    with a have "c \<le> SIZE_MAX div 2" "d = c * 2"
      by (auto simp: first_capacity_def not_less split: if_splits)
    with unat_double [of c] False show ?thesis
      by (auto simp: word_le_nat_alt word_less_nat_alt unat_gt_0 word_gt_0 unat_eq_zero)
  qed (use a in \<open>auto simp: first_capacity_def\<close>)
qed

lemma quotient_bound:
  fixes c k :: u64
  assumes "c \<le> SIZE_MAX div k" and "0 < k"
  shows "unat c * unat k < 2 ^ 64" and "unat (c * k) = unat c * unat k"
proof -
  have "unat c \<le> unat SIZE_MAX div unat k"
    using assms(1) by (simp add: word_le_nat_alt unat_div)
  then have "unat c * unat k \<le> unat SIZE_MAX"
    by (metis div_times_less_eq_dividend le_trans mult_le_mono1)
  then show b: "unat c * unat k < 2 ^ 64"
    by (simp add: SIZE_MAX_def)
  then show "unat (c * k) = unat c * unat k"
    by (simp add: unat_word_ariths)
qed

text \<open>The three ways a growth can go: no first capacity, an overflowing doubling, or a capacity.\<close>

lemma growth_cases:
  assumes "0 < initial"
  obtains (too_big) "first_capacity initial cap = None"
    | (overflow) c0 where "first_capacity initial cap = Some c0" "double_until c0 n = Some None"
    | (grown) c0 c where "first_capacity initial cap = Some c0" "double_until c0 n = Some (Some c)"
        "n \<le> c" "cap \<le> c"
proof (cases "first_capacity initial cap")
  case (Some c0)
  then have c0: "0 < c0" "cap \<le> c0" using first_capacity_pos [OF Some assms] by auto
  obtain r where r: "double_until c0 n = Some r" "\<forall>d. r = Some d \<longrightarrow> n \<le> d \<and> c0 \<le> d"
    using double_until_returns [OF c0(1)] by blast
  then show thesis
    using Some c0 overflow grown by (cases r) (auto intro: order_trans)
qed (rule too_big)

lemma reserve_events_returns:
  obtains ok c where "reserve_events A s n = Some (ok, s\<lparr>st_event_capacity := c\<rparr>)"
    and "st_event_capacity s \<le> c" and "ok \<longrightarrow> n \<le> c"
    and "c = st_event_capacity s \<or> unat c * unat sizeof_event < 2 ^ 64"
proof (cases "n \<le> st_event_capacity s")
  case True
  then show thesis
    by (intro that [of True "st_event_capacity s"]) (simp_all add: reserve_events_def)
next
  case False
  have pos: "0 < (256 :: u64)" "0 < sizeof_event" by (simp_all add: sizeof_event_def)
  from pos(1) show thesis
  proof (cases rule: growth_cases [where cap = "st_event_capacity s" and n = n])
    case (grown c0 c)
    have r: "reserve_events A s n = Some (ok, s\<lparr>st_event_capacity := if ok then c else st_event_capacity s\<rparr>)"
      if "ok = (c \<le> SIZE_MAX div sizeof_event \<and> realloc_events_ok A (c * sizeof_event))" for ok
      using False grown that by (auto simp: reserve_events_def)
    show thesis
      using grown quotient_bound(1) [of c sizeof_event] pos
      by (intro that [OF r [OF refl]]) (auto simp: not_le)
  qed (use False in \<open>auto simp: reserve_events_def intro: that [of False "st_event_capacity s"]\<close>)
qed

lemma reserve_processes_returns:
  obtains ok c where "reserve_processes A s n = Some (ok, s\<lparr>st_process_capacity := c\<rparr>)"
    and "st_process_capacity s \<le> c" and "ok \<longrightarrow> n \<le> c"
    and "c = st_process_capacity s \<or> unat c * unat sizeof_record < 2 ^ 64"
proof (cases "n \<le> st_process_capacity s")
  case True
  then show thesis
    by (intro that [of True "st_process_capacity s"]) (simp_all add: reserve_processes_def)
next
  case False
  have pos: "0 < (128 :: u64)" "0 < sizeof_record" by (simp_all add: sizeof_record_def)
  from pos(1) show thesis
  proof (cases rule: growth_cases [where cap = "st_process_capacity s" and n = n])
    case (grown c0 c)
    have r: "reserve_processes A s n = Some (ok, s\<lparr>st_process_capacity := if ok then c else st_process_capacity s\<rparr>)"
      if "ok = (c \<le> SIZE_MAX div sizeof_record \<and> realloc_processes_ok A (c * sizeof_record))" for ok
      using False grown that by (auto simp: reserve_processes_def)
    show thesis
      using grown quotient_bound(1) [of c sizeof_record] pos
      by (intro that [OF r [OF refl]]) (auto simp: not_le)
  qed (use False in \<open>auto simp: reserve_processes_def intro: that [of False "st_process_capacity s"]\<close>)
qed

section \<open>What the scan finds\<close>

definition exact_at :: "ProcessRecord list \<Rightarrow> ProcessKey \<Rightarrow> nat \<Rightarrow> bool" where
  "exact_at ps key i \<longleftrightarrow> pid (pr_key (ps ! i)) = pid key \<and>
     creation_time (pr_key (ps ! i)) = creation_time key \<and> creation_time key \<noteq> 0"

definition active_at :: "ProcessRecord list \<Rightarrow> ProcessKey \<Rightarrow> nat \<Rightarrow> bool" where
  "active_at ps key i \<longleftrightarrow> process_keys_match (pr_key (ps ! i)) key \<and> pr_active (ps ! i)"

text \<open>\<open>i\<close> is the largest index below \<open>n\<close> with \<open>P\<close>.\<close>

definition newest :: "(nat \<Rightarrow> bool) \<Rightarrow> nat \<Rightarrow> nat \<Rightarrow> bool" where
  "newest P n i \<longleftrightarrow> i < n \<and> P i \<and> (\<forall>j. i < j \<and> j < n \<longrightarrow> \<not> P j)"

lemma newest_Suc: "newest P (Suc n) i \<longleftrightarrow> (if P n then i = n else newest P n i)"
  by (auto simp: newest_def less_Suc_eq)

lemma newest_unique: "newest P n i \<Longrightarrow> newest P n j \<Longrightarrow> i = j"
  by (metis linorder_neqE_nat newest_def)

lemma newest_exists: "(\<exists>i. newest P n i) \<longleftrightarrow> (\<exists>i<n. P i)"
proof (induction n)
  case (Suc n)
  then show ?case by (cases "P n") (auto simp: newest_Suc less_Suc_eq)
qed (simp add: newest_def)

lemma exact_matches: "exact_at ps key i \<Longrightarrow> process_keys_match (pr_key (ps ! i)) key"
  by (simp add: exact_at_def process_keys_match_def)

lemma find_process_loop_iff:
  "find_process_loop ps key n am = Some i \<longleftrightarrow>
     newest (exact_at ps key) n i \<or>
     (\<forall>j<n. \<not> exact_at ps key j) \<and>
       (case am of Some a \<Rightarrow> i = a | None \<Rightarrow> newest (active_at ps key) n i)"
proof (induction n arbitrary: am)
  case 0
  then show ?case by (auto simp: newest_def split: option.splits)
next
  case (Suc n)
  have exact: "exact_at ps key n \<longleftrightarrow> process_keys_match (pr_key (ps ! n)) key \<and>
      creation_time (pr_key (ps ! n)) = creation_time key \<and> creation_time key \<noteq> 0"
    by (auto simp: exact_at_def process_keys_match_def)
  have all: "(\<forall>j<Suc n. \<not> exact_at ps key j) \<longleftrightarrow> \<not> exact_at ps key n \<and> (\<forall>j<n. \<not> exact_at ps key j)"
    by (auto simp: less_Suc_eq)
  show ?case
    by (cases am; cases "exact_at ps key n"; cases "active_at ps key n")
      (simp_all add: Let_def Suc.IH newest_Suc all exact [symmetric] active_at_def exact_matches,
       (auto simp: exact active_at_def)+)
qed

lemma find_process_loop_bound:
  "find_process_loop ps key n None = Some i \<Longrightarrow> i < n"
  by (auto simp: find_process_loop_iff newest_def)

lemma find_process_loop_matches:
  "find_process_loop ps key n None = Some i \<Longrightarrow> process_keys_match (pr_key (ps ! i)) key"
  by (auto simp: find_process_loop_iff newest_def active_at_def dest: exact_matches)

lemma find_process_loop_none:
  "find_process_loop ps key n None = None \<longleftrightarrow> (\<forall>i<n. \<not> exact_at ps key i \<and> \<not> active_at ps key i)"
proof -
  have "find_process_loop ps key n None = None \<longleftrightarrow> (\<nexists>i. find_process_loop ps key n None = Some i)"
    by (cases "find_process_loop ps key n None") auto
  also have "\<dots> \<longleftrightarrow> (\<forall>i<n. \<not> exact_at ps key i \<and> \<not> active_at ps key i)"
    using newest_exists [of "exact_at ps key" n] newest_exists [of "active_at ps key" n]
    by (auto simp: find_process_loop_iff)
  finally show ?thesis .
qed

lemma update_record_simps [simp]:
  "pr_active (update_record_from_event r e) = pr_active r"
  "pr_start_time (update_record_from_event r e) = pr_start_time r"
  "pr_stop_time (update_record_from_event r e) = pr_stop_time r"
  "pid (pr_key (update_record_from_event r e)) = pid (pr_key r)"
  "creation_time (pr_key (update_record_from_event r e)) =
     (if creation_time (ev_process e) \<noteq> 0 then creation_time (ev_process e) else creation_time (pr_key r))"
  by (simp_all add: update_record_from_event_def Let_def)

lemma new_record_simps [simp]:
  "pr_active (new_record e) = False"
  "pid (pr_key (new_record e)) = pid (ev_process e)"
  "creation_time (pr_key (new_record e)) = creation_time (ev_process e)"
  by (simp_all add: new_record_def zero_record_def)

lemma new_record_key: "pr_key (new_record e) = ev_process e"
  by (simp add: new_record_def zero_record_def update_record_from_event_def Let_def)

lemma keys_match_pid: "process_keys_match k l \<Longrightarrow> pid k = pid l"
  by (cases "pid k = pid l") (simp_all add: process_keys_match_def)

section \<open>The invariant\<close>

text \<open>
  Counts and capacities agree with the arrays, every allocation's size in bytes fits
  \<^verbatim>\<open>size_t\<close>, the active count is the number of active records, and the log is numbered
  consecutively from 1.
\<close>

definition store_wf :: "EventStore \<Rightarrow> bool" where
  "store_wf s \<longleftrightarrow>
     unat (st_event_count s) = length (st_events s) \<and>
     st_event_count s \<le> st_event_capacity s \<and>
     unat (st_event_capacity s) * unat sizeof_event < 2 ^ 64 \<and>
     unat (st_process_count s) = length (st_processes s) \<and>
     st_process_count s \<le> st_process_capacity s \<and>
     unat (st_process_capacity s) * unat sizeof_record < 2 ^ 64 \<and>
     unat (st_active_process_count s) = length (filter pr_active (st_processes s)) \<and>
     unat (st_next_sequence s) = length (st_events s) + 1 \<and>
     map (\<lambda>e. unat (ev_sequence e)) (st_events s) = [1..<length (st_events s) + 1]"

lemma store_wf_initial: "event_store_initialize (Some s) = (True, Some t) \<Longrightarrow> store_wf t"
  by (auto simp: event_store_initialize_def store_wf_def zero_store_def)

lemma length_filter_update:
  "i < length xs \<Longrightarrow>
   length (filter P (xs[i := x])) + (if P (xs ! i) then 1 else 0) =
   length (filter P xs) + (if P x then 1 else 0)"
proof (induction xs arbitrary: i)
  case (Cons y ys)
  then show ?case by (cases i) auto
qed simp

lemma unat_plus_one: "unat (x :: u64) + 1 < 2 ^ 64 \<Longrightarrow> unat (x + 1) = unat x + 1"
  by (simp add: unat_word_ariths)

lemma unat_minus_one: "0 < (x :: u64) \<Longrightarrow> unat (x - 1) = unat x - 1"
  by (simp add: unat_minus_one word_gt_0)

lemma store_wf_bounds:
  assumes "store_wf s"
  shows "unat (st_event_count s) + 2 < 2 ^ 64" and "unat (st_process_count s) + 2 < 2 ^ 64"
    and "unat (st_active_process_count s) + 1 < 2 ^ 64"
proof -
  have "unat (st_event_count s) \<le> unat (st_event_capacity s)"
    and "unat (st_process_count s) \<le> unat (st_process_capacity s)"
    using assms by (auto simp: store_wf_def word_le_nat_alt)
  moreover have "unat (st_event_capacity s) * 4224 < 2 ^ 64"
    and "unat (st_process_capacity s) * 1632 < 2 ^ 64"
    using assms by (auto simp: store_wf_def sizeof_event_def sizeof_record_def)
  ultimately show "unat (st_event_count s) + 2 < 2 ^ 64" and "unat (st_process_count s) + 2 < 2 ^ 64"
    by simp_all
  then have p: "unat (st_process_count s) + 2 < 2 ^ 64" by simp
  have "unat (st_active_process_count s) \<le> unat (st_process_count s)"
    using assms by (simp add: store_wf_def)
  then show "unat (st_active_process_count s) + 1 < 2 ^ 64"
    using p by linarith
qed

text \<open>Appending keeps the invariant whatever the counters of the other event kinds are.\<close>

lemma append_event_shape:
  obtains (appended) c where "append_event A s e = Some (True, True,
        s\<lparr>st_event_capacity := c, st_next_sequence := st_next_sequence s + 1,
          st_events := st_events s @ [e\<lparr>ev_sequence := st_next_sequence s\<rparr>],
          st_event_count := st_event_count s + 1\<rparr>, e\<lparr>ev_sequence := st_next_sequence s\<rparr>)"
      "st_event_count s + 1 \<le> c"
      "c = st_event_capacity s \<or> unat c * unat sizeof_event < 2 ^ 64"
    | (dropped) c where "append_event A s e = Some (False, False, s\<lparr>st_event_capacity := c\<rparr>, e)"
      "st_event_capacity s \<le> c" "c = st_event_capacity s \<or> unat c * unat sizeof_event < 2 ^ 64"
proof -
  obtain ok c where r: "reserve_events A s (st_event_count s + 1) = Some (ok, s\<lparr>st_event_capacity := c\<rparr>)"
      "st_event_capacity s \<le> c" "ok \<longrightarrow> st_event_count s + 1 \<le> c"
      "c = st_event_capacity s \<or> unat c * unat sizeof_event < 2 ^ 64"
    by (rule reserve_events_returns [where A = A and s = s and n = "st_event_count s + 1"])
  show thesis
  proof (cases ok)
    case True
    with r show thesis by (intro appended [of c]) (simp_all add: append_event_def Let_def)
  next
    case False
    with r show thesis by (intro dropped [of c]) (simp_all add: append_event_def)
  qed
qed

lemma append_event_wf:
  assumes "store_wf s" and "append_event A s e = Some (ok, acc, s', e')"
  shows "store_wf s'"
proof (cases rule: append_event_shape [of A s e])
  case (appended c)
  have "unat c * unat sizeof_event < 2 ^ 64"
    using appended(3) assms(1) by (auto simp: store_wf_def)
  moreover have "unat (st_event_count s) + 1 < 2 ^ 64" "unat (st_next_sequence s) + 1 < 2 ^ 64"
    using store_wf_bounds [OF assms(1)] assms(1) by (auto simp: store_wf_def)
  then have "unat (st_event_count s + 1) = unat (st_event_count s) + 1"
    "unat (st_next_sequence s + 1) = unat (st_next_sequence s) + 1"
    by (simp_all only: unat_plus_one)
  ultimately show ?thesis
    using appended assms by (auto simp: store_wf_def)
next
  case (dropped c)
  then show ?thesis
    using assms by (auto simp: store_wf_def intro: order_trans)
qed

lemma find_in_store:
  assumes "store_wf s" and "event_store_find_process (Some s) key = Some i"
  shows "i < length (st_processes s)" and "pid key \<noteq> 0"
    and "process_keys_match (pr_key (st_processes s ! i)) key"
  using assms find_process_loop_bound [of "st_processes s" key "unat (st_process_count s)" i]
    find_process_loop_matches [of "st_processes s" key "unat (st_process_count s)" i]
  by (auto simp: event_store_find_process_def store_wf_def split: if_splits)

lemma update_wf:
  assumes "store_wf s" and "i < length (st_processes s)"
  shows "store_wf (s\<lparr>st_processes :=
           (st_processes s)[i := update_record_from_event (st_processes s ! i) e]\<rparr>)"
  using assms length_filter_update [OF assms(2), of pr_active "update_record_from_event (st_processes s ! i) e"]
  by (auto simp: store_wf_def split: if_splits)

lemma reserve_processes_wf:
  assumes "store_wf s" and "reserve_processes A s n = Some (ok, s')"
  shows "store_wf s'" and "ok \<Longrightarrow> n \<le> st_process_capacity s'"
    and "st_processes s' = st_processes s" and "st_process_count s' = st_process_count s"
    and "st_events s' = st_events s" and "st_active_process_count s' = st_active_process_count s"
proof -
  obtain ok' c' where "reserve_processes A s n = Some (ok', s\<lparr>st_process_capacity := c'\<rparr>)"
      "st_process_capacity s \<le> c'" "ok' \<longrightarrow> n \<le> c'"
      "c' = st_process_capacity s \<or> unat c' * unat sizeof_record < 2 ^ 64"
    by (rule reserve_processes_returns [where A = A and s = s and n = n])
  then obtain c where c: "s' = s\<lparr>st_process_capacity := c\<rparr>" "st_process_capacity s \<le> c" "ok \<longrightarrow> n \<le> c"
      "c = st_process_capacity s \<or> unat c * unat sizeof_record < 2 ^ 64"
    using assms(2) by auto
  then show "store_wf s'" using assms(1) by (auto simp: store_wf_def intro: order_trans)
  show "ok \<Longrightarrow> n \<le> st_process_capacity s'" "st_processes s' = st_processes s"
    "st_process_count s' = st_process_count s" "st_events s' = st_events s"
    "st_active_process_count s' = st_active_process_count s"
    using c by auto
qed

lemma reserve_processes_shape:
  "reserve_processes A s n = Some (ok, s') \<Longrightarrow> \<exists>c. s' = s\<lparr>st_process_capacity := c\<rparr>"
  by (rule reserve_processes_returns [where A = A and s = s and n = n]) auto

text \<open>A new record, active (a start) or not (a stop of an unknown process).\<close>

lemma push_record_wf:
  assumes "store_wf s" and "st_process_count s + 1 \<le> st_process_capacity s"
  shows "store_wf (s\<lparr>st_processes := st_processes s @ [r],
           st_process_count := st_process_count s + 1,
           st_active_process_count := st_active_process_count s + (if pr_active r then 1 else 0)\<rparr>)"
  using assms store_wf_bounds [OF assms(1)]
    unat_plus_one [of "st_process_count s"] unat_plus_one [of "st_active_process_count s"]
  by (auto simp: store_wf_def)

lemma finish_stop_wf:
  assumes "store_wf s" and i: "i < length (st_processes s)"
  shows "store_wf (finish_stop s i e)"
proof -
  let ?r = "st_processes s ! i"
  have count: "length (filter pr_active ((st_processes s)[i := ?r\<lparr>pr_active := False, pr_stop_time := t\<rparr>]))
      + (if pr_active ?r then 1 else 0) = length (filter pr_active (st_processes s))" for t
    using length_filter_update [OF i, of pr_active "?r\<lparr>pr_active := False, pr_stop_time := t\<rparr>"]
    by simp
  have pos: "0 < st_active_process_count s" if "pr_active ?r"
  proof -
    have "?r \<in> set (filter pr_active (st_processes s))" using that i by simp
    then have "0 < length (filter pr_active (st_processes s))" by (metis length_pos_if_in_set)
    then show ?thesis using assms(1) by (auto simp: store_wf_def word_less_nat_alt)
  qed
  show ?thesis
    using assms count [of "ev_timestamp e"] pos unat_minus_one [of "st_active_process_count s"]
    by (cases "pr_active ?r") (auto simp: store_wf_def finish_stop_def Let_def)
qed

section \<open>event_store_add\<close>

text \<open>
  The outcome of adding a start or a stop, by what the scan found. These case rules carry the
  proofs about \<open>store_add\<close>.
\<close>

lemma add_start_cases:
  assumes "add_start A s e = Some (ok, acc, s', e')"
  obtains (known) i where "event_store_find_process (Some s) (ev_process e) = Some i"
      "ok" "\<not> acc" "e' = e"
      "s' = s\<lparr>st_processes := (st_processes s)[i := update_record_from_event (st_processes s ! i) e]\<rparr>"
    | (full) c where "event_store_find_process (Some s) (ev_process e) = None"
      "\<not> ok" "\<not> acc" "e' = e" "s' = s\<lparr>st_process_capacity := c\<rparr>"
      "reserve_processes A s (st_process_count s + 1) = Some (False, s')"
    | (added) s1 where "event_store_find_process (Some s) (ev_process e) = None"
      "reserve_processes A s (st_process_count s + 1) = Some (True, s1)"
      "append_event A (s1\<lparr>st_processes := st_processes s @
             [(new_record e)\<lparr>pr_active := True, pr_start_time := ev_timestamp e\<rparr>],
           st_process_count := st_process_count s + 1,
           st_active_process_count := st_active_process_count s + 1\<rparr>) e = Some (ok, acc, s', e')"
proof (cases "event_store_find_process (Some s) (ev_process e)")
  case (Some i)
  with assms show thesis by (intro known [of i]) (auto simp: add_start_def)
next
  case None
  obtain ok1 c where r: "reserve_processes A s (st_process_count s + 1) = Some (ok1, s\<lparr>st_process_capacity := c\<rparr>)"
    by (rule reserve_processes_returns [where A = A and s = s and n = "st_process_count s + 1"])
  show thesis
  proof (cases ok1)
    case True
    with assms None r show thesis
      by (intro added [of "s\<lparr>st_process_capacity := c\<rparr>"]) (simp_all add: add_start_def)
  next
    case False
    with assms None r show thesis by (intro full [of c]) (auto simp: add_start_def)
  qed
qed

lemma add_stop_cases:
  assumes "add_stop A s e = Some (ok, acc, s', e')"
  obtains (ignored) i where "event_store_find_process (Some s) (ev_process e) = Some i"
      "\<not> pr_active (st_processes s ! i)" "ok" "\<not> acc" "e' = e" "s' = s"
    | (stopped) i where "event_store_find_process (Some s) (ev_process e) = Some i"
      "pr_active (st_processes s ! i)"
      "append_event A (finish_stop (s\<lparr>st_processes :=
           (st_processes s)[i := update_record_from_event (st_processes s ! i) e]\<rparr>) i e) e
         = Some (ok, acc, s', e')"
    | (full) c where "event_store_find_process (Some s) (ev_process e) = None"
      "\<not> ok" "\<not> acc" "e' = e" "s' = s\<lparr>st_process_capacity := c\<rparr>"
      "reserve_processes A s (st_process_count s + 1) = Some (False, s')"
    | (unknown) s1 where "event_store_find_process (Some s) (ev_process e) = None"
      "reserve_processes A s (st_process_count s + 1) = Some (True, s1)"
      "append_event A (finish_stop (s1\<lparr>st_processes := st_processes s @ [new_record e],
           st_process_count := st_process_count s + 1\<rparr>) (length (st_processes s)) e) e
         = Some (ok, acc, s', e')"
proof (cases "event_store_find_process (Some s) (ev_process e)")
  case (Some i)
  with assms show thesis
    by (cases "pr_active (st_processes s ! i)")
      (auto simp: add_stop_def intro: ignored [of i] stopped [of i])
next
  case None
  obtain ok1 c where r: "reserve_processes A s (st_process_count s + 1) = Some (ok1, s\<lparr>st_process_capacity := c\<rparr>)"
    by (rule reserve_processes_returns [where A = A and s = s and n = "st_process_count s + 1"])
  show thesis
  proof (cases ok1)
    case True
    with assms None r show thesis
      by (intro unknown [of "s\<lparr>st_process_capacity := c\<rparr>"]) (simp_all add: add_stop_def)
  next
    case False
    with assms None r show thesis by (intro full [of c]) (auto simp: add_stop_def)
  qed
qed

text \<open>Every other event only moves its counter before it is appended.\<close>

lemma store_add_cases:
  assumes "store_add A s e = Some r"
  obtains (start) "ev_type e = EVENT_PROCESS_START" "add_start A s e = Some r"
    | (stop) "ev_type e = EVENT_PROCESS_STOP" "add_stop A s e = Some r"
    | (other) n m where "ev_type e \<noteq> EVENT_PROCESS_START" "ev_type e \<noteq> EVENT_PROCESS_STOP"
        "append_event A (s\<lparr>st_network_count := n, st_alert_count := m\<rparr>) e = Some r"
proof -
  have id: "s\<lparr>st_network_count := n, st_alert_count := st_alert_count s\<rparr> = s\<lparr>st_network_count := n\<rparr>"
    "s\<lparr>st_network_count := st_network_count s, st_alert_count := m\<rparr> = s\<lparr>st_alert_count := m\<rparr>" for n m
    by simp_all
  show thesis
    using assms start stop other [where n = "st_network_count s + 1" and m = "st_alert_count s"]
      other [where n = "st_network_count s" and m = "st_alert_count s + 1"]
      other [where n = "st_network_count s" and m = "st_alert_count s"]
    by (cases "ev_type e") (simp_all add: store_add_def id)
qed

lemma append_event_returns: "\<exists>r. append_event A s e = Some r"
  by (cases rule: append_event_shape [of A s e]) auto

lemma store_add_returns: "\<exists>ok acc s' e'. store_add A s e = Some (ok, acc, s', e')"
proof -
  obtain ok c where r: "reserve_processes A s (st_process_count s + 1) = Some (ok, s\<lparr>st_process_capacity := c\<rparr>)"
    by (rule reserve_processes_returns [where A = A and s = s and n = "st_process_count s + 1"])
  have "\<exists>r. store_add A s e = Some r"
    using append_event_returns r
    by (cases ok) (auto simp: store_add_def add_start_def add_stop_def split: EventType.splits option.splits)
  then show ?thesis by auto
qed

lemma add_start_wf:
  assumes wf: "store_wf s" and "add_start A s e = Some (ok, acc, s', e')"
  shows "store_wf s'"
  using assms(2)
proof (cases rule: add_start_cases)
  case (known i)
  then show ?thesis using find_in_store(1) [OF wf] update_wf [OF wf] by blast
next
  case (full c)
  then show ?thesis using reserve_processes_wf(1) [OF wf] by blast
next
  case (added s1)
  note r = reserve_processes_wf [OF wf added(2)]
  show ?thesis
    using append_event_wf [OF _ added(3)] r
      push_record_wf [of s1 "(new_record e)\<lparr>pr_active := True, pr_start_time := ev_timestamp e\<rparr>"]
    by simp
qed

lemma add_stop_wf:
  assumes wf: "store_wf s" and "add_stop A s e = Some (ok, acc, s', e')"
  shows "store_wf s'"
  using assms(2)
proof (cases rule: add_stop_cases)
  case (stopped i)
  note i = find_in_store(1) [OF wf stopped(1)]
  show ?thesis
    using append_event_wf [OF _ stopped(3)] finish_stop_wf [OF update_wf [OF wf i]] i by simp
next
  case (full c)
  then show ?thesis using reserve_processes_wf(1) [OF wf] by blast
next
  case (unknown s1)
  note r = reserve_processes_wf [OF wf unknown(2)]
  have "store_wf (s1\<lparr>st_processes := st_processes s @ [new_record e],
      st_process_count := st_process_count s + 1\<rparr>)"
    using push_record_wf [of s1 "new_record e"] r by (simp add: store_wf_def)
  then show ?thesis
    using append_event_wf [OF _ unknown(3)] finish_stop_wf by simp
qed (use wf in simp)

lemma append_event_log:
  "append_event A s e = Some (ok, acc, s', e') \<Longrightarrow> ok = acc \<and> st_processes s' = st_processes s \<and>
     st_process_count s' = st_process_count s \<and>
     st_active_process_count s' = st_active_process_count s \<and>
     st_network_count s' = st_network_count s \<and> st_alert_count s' = st_alert_count s \<and>
     st_next_sequence s' = st_next_sequence s + (if acc then 1 else 0) \<and>
     (if acc then e' = e\<lparr>ev_sequence := st_next_sequence s\<rparr> \<and> st_events s' = st_events s @ [e']
      else e' = e \<and> st_events s' = st_events s)"
  by (cases rule: append_event_shape [of A s e]) auto

text \<open>A store after one start event, for the witnesses.\<close>

definition empty_store :: EventStore where
  "empty_store = zero_store\<lparr>st_next_sequence := 1\<rparr>"

definition ample_memory :: store_alloc where
  "ample_memory = \<lparr>realloc_events_ok = (\<lambda>_. True), realloc_processes_ok = (\<lambda>_. True)\<rparr>"

definition start_event :: TraceGlassEvent where
  "start_event = zero_event\<lparr>ev_process := \<lparr>pid = 4, creation_time = 9\<rparr>\<rparr>"

definition started_store :: EventStore where
  "started_store = empty_store\<lparr>
     st_processes := [zero_record\<lparr>pr_key := \<lparr>pid = 4, creation_time = 9\<rparr>, pr_active := True\<rparr>],
     st_process_count := 1, st_process_capacity := 128, st_active_process_count := 1,
     st_events := [start_event\<lparr>ev_sequence := 1\<rparr>], st_event_count := 1, st_event_capacity := 256,
     st_next_sequence := 2\<rparr>"

lemmas example_simps =
  started_store_def empty_store_def start_event_def zero_event_def zero_record_def zero_store_def
  zero_key_def ample_memory_def

lemma empty_store_wf: "store_wf empty_store"
  by (rule store_wf_initial [of zero_store]) (simp add: event_store_initialize_def empty_store_def)

lemma started_store_wf: "store_wf started_store"
  by (simp add: store_wf_def example_simps sizeof_event_def sizeof_record_def)

lemma add_start_event:
  "store_add ample_memory empty_store start_event
     = Some (True, True, started_store, start_event\<lparr>ev_sequence := 1\<rparr>)"
proof -
  have grow: "double_until 256 1 = Some (Some 256)" "double_until 128 1 = Some (Some 128)"
    by (subst double_until.simps, simp)+
  show ?thesis
    by (simp add: store_add_def add_start_def event_store_find_process_def reserve_processes_def
        append_event_def reserve_events_def first_capacity_def grow example_simps SIZE_MAX_def
        sizeof_event_def sizeof_record_def new_record_def update_record_from_event_def Let_def)
qed

text \<open>
  \<^bold>\<open>C1\<close>. \<^verbatim>\<open>event_store_add\<close> always returns, whatever the event and whichever allocations fail, and
  keeps the store's invariant.
\<close>

theorem store_add_keeps_invariant:
  assumes "store_wf s"
  shows "\<exists>ok acc s' e'. store_add A s e = Some (ok, acc, s', e') \<and> store_wf s'"
proof -
  obtain ok acc s' e' where r: "store_add A s e = Some (ok, acc, s', e')"
    using store_add_returns by blast
  from r have "store_wf s'"
  proof (cases rule: store_add_cases)
    case (other n m)
    have "store_wf (s\<lparr>st_network_count := n, st_alert_count := m\<rparr>)"
      using assms by (simp add: store_wf_def)
    then show ?thesis using other(3) by (rule append_event_wf)
  qed (use assms add_start_wf add_stop_wf in blast)+
  with r show ?thesis by (intro exI conjI)
qed

theorem store_add_keeps_invariant_witness:
  "\<exists>ok acc s' e'. store_add ample_memory empty_store zero_event = Some (ok, acc, s', e') \<and> store_wf s'"
  by (rule store_add_keeps_invariant [OF empty_store_wf])

text \<open>
  \<^verbatim>\<open>event_store_find_process\<close> prefers identity over liveness: it returns the newest record with
  the same PID and the same known creation time, whether active or stopped; without one, the
  newest active record whose identity is compatible; and NULL if there is neither or the PID is 0.
\<close>

lemma find_process_spec:
  assumes "store_wf s"
  shows "event_store_find_process (Some s) key = Some i \<longleftrightarrow>
      pid key \<noteq> 0 \<and>
      (newest (exact_at (st_processes s) key) (length (st_processes s)) i \<or>
       (\<forall>j<length (st_processes s). \<not> exact_at (st_processes s) key j) \<and>
       newest (active_at (st_processes s) key) (length (st_processes s)) i)"
  using assms by (simp add: event_store_find_process_def find_process_loop_iff store_wf_def)

lemma log_and_sequence_of_add:
  assumes "store_add A s e = Some (ok, acc, s', e')"
  shows "(if acc then ok \<and> e' = e\<lparr>ev_sequence := st_next_sequence s\<rparr> \<and> st_events s' = st_events s @ [e']
         else e' = e \<and> st_events s' = st_events s) \<and>
         st_next_sequence s' = st_next_sequence s + (if acc then 1 else 0)"
proof -
  have start: ?thesis if "add_start A s e = Some (ok, acc, s', e')"
    using that
  proof (cases rule: add_start_cases)
    case (added s1)
    obtain c where "s1 = s\<lparr>st_process_capacity := c\<rparr>"
      using reserve_processes_shape [OF added(2)] by blast
    with append_event_log [OF added(3)] show ?thesis by simp
  qed simp_all
  have stop: ?thesis if "add_stop A s e = Some (ok, acc, s', e')"
    using that
  proof (cases rule: add_stop_cases)
    case (stopped i)
    with append_event_log [OF stopped(3)] show ?thesis by (simp add: finish_stop_def Let_def)
  next
    case (unknown s1)
    obtain c where "s1 = s\<lparr>st_process_capacity := c\<rparr>"
      using reserve_processes_shape [OF unknown(2)] by blast
    with append_event_log [OF unknown(3)] show ?thesis by (simp add: finish_stop_def Let_def)
  qed simp_all
  from assms show ?thesis
  proof (cases rule: store_add_cases)
    case (other n m)
    then show ?thesis using append_event_log [OF other(3)] by simp
  qed (use start stop in simp_all)
qed

lemmas log_of_add = log_and_sequence_of_add [THEN conjunct1]

text \<open>
  \<^bold>\<open>C5\<close>. The log is append-only: an accepted event is appended with the next sequence number, which
  then advances by one; a refused or coalesced one changes neither a logged event nor that
  number, and accepting is always reported as success.
\<close>

theorem store_log_append_only:
  assumes "store_add A s e = Some (ok, acc, s', e')"
  shows "(if acc then ok \<and> e' = e\<lparr>ev_sequence := st_next_sequence s\<rparr> \<and> st_events s' = st_events s @ [e']
         else e' = e \<and> st_events s' = st_events s) \<and>
         st_next_sequence s' = st_next_sequence s + (if acc then 1 else 0)"
  using assms by (rule log_and_sequence_of_add)

theorem store_log_append_only_witness:
  "st_events started_store = st_events empty_store @ [start_event\<lparr>ev_sequence := 1\<rparr>] \<and>
   st_next_sequence started_store = st_next_sequence empty_store + 1"
  using store_log_append_only [OF add_start_event] by simp

section \<open>Identities\<close>

text \<open>No two records share a PID (other than 0) and a known creation time.\<close>

definition identities_distinct :: "EventStore \<Rightarrow> bool" where
  "identities_distinct s \<longleftrightarrow>
     (\<forall>i < length (st_processes s). \<forall>j < length (st_processes s).
        pid (pr_key (st_processes s ! i)) \<noteq> 0 \<longrightarrow> creation_time (pr_key (st_processes s ! i)) \<noteq> 0 \<longrightarrow>
        pr_key (st_processes s ! i) = pr_key (st_processes s ! j) \<longrightarrow> i = j)"

lemma key_eq_iff: "(k :: ProcessKey) = l \<longleftrightarrow> pid k = pid l \<and> creation_time k = creation_time l"
  by (cases k; cases l) simp

lemma find_none_no_exact:
  assumes "store_wf s" and "event_store_find_process (Some s) key = None"
  shows "\<forall>i < length (st_processes s). pid key \<noteq> 0 \<longrightarrow> creation_time key \<noteq> 0 \<longrightarrow>
           pr_key (st_processes s ! i) \<noteq> key"
  using assms
  by (auto simp: event_store_find_process_def find_process_loop_none store_wf_def exact_at_def)

lemma identities_add:
  assumes "store_wf s" and "identities_distinct s"
    and "event_store_find_process (Some s) (ev_process e) = None"
    and "pr_key r = ev_process e" and "st_processes t = st_processes s @ [r]"
  shows "identities_distinct t"
  using assms find_none_no_exact [OF assms(1,3)]
  by (auto simp: identities_distinct_def nth_append less_Suc_eq)

lemma identities_update:
  assumes wf: "store_wf s" and d: "identities_distinct s"
    and f: "event_store_find_process (Some s) (ev_process e) = Some i"
    and k: "pid (pr_key r) = pid (pr_key (st_processes s ! i))"
      "creation_time (pr_key r) = (if creation_time (ev_process e) \<noteq> 0
         then creation_time (ev_process e) else creation_time (pr_key (st_processes s ! i)))"
    and t: "st_processes t = (st_processes s)[i := r]"
  shows "identities_distinct t"
proof -
  note i = find_in_store [OF wf f]
  have same_pid: "pid (pr_key (st_processes s ! i)) = pid (ev_process e)"
    using i(3) by (auto simp: process_keys_match_def split: if_splits)
  show ?thesis
  proof (cases "pr_key r = pr_key (st_processes s ! i)")
    case True
    then have "map pr_key (st_processes t) = map pr_key (st_processes s)"
      using t i by (metis list_update_id map_update)
    then have "length (st_processes t) = length (st_processes s)"
      "\<And>j. j < length (st_processes s) \<Longrightarrow> pr_key (st_processes t ! j) = pr_key (st_processes s ! j)"
      using t by (simp, metis length_list_update nth_map t)
    then show ?thesis using d by (simp add: identities_distinct_def)
  next
    case False
    then have c: "creation_time (ev_process e) \<noteq> 0" "pr_key r = ev_process e"
      using k same_pid by (auto simp: key_eq_iff split: if_splits)
    have "\<not> newest (exact_at (st_processes s) (ev_process e)) (length (st_processes s)) i"
      using False c same_pid by (auto simp: newest_def exact_at_def key_eq_iff)
    then have "\<forall>j<length (st_processes s). \<not> exact_at (st_processes s) (ev_process e) j"
      using f wf by (auto simp: event_store_find_process_def find_process_loop_iff store_wf_def split: if_splits)
    then have "\<forall>j<length (st_processes s). pr_key (st_processes s ! j) \<noteq> ev_process e"
      using c by (auto simp: exact_at_def)
    then show ?thesis
      using d t c i by (auto simp: identities_distinct_def nth_list_update)
  qed
qed

lemma append_event_identities:
  "append_event A s e = Some (ok, acc, s', e') \<Longrightarrow> identities_distinct s \<Longrightarrow> identities_distinct s'"
  using append_event_log [of A s e ok acc s' e'] by (simp add: identities_distinct_def)

lemma finish_stop_processes:
  "st_processes (finish_stop s i e) =
     (st_processes s)[i := (st_processes s ! i)\<lparr>pr_active := False, pr_stop_time := ev_timestamp e\<rparr>]"
  by (simp add: finish_stop_def Let_def)

lemma add_keeps_identities:
  assumes "store_wf s" and "identities_distinct s" and "store_add A s e = Some (ok, acc, s', e')"
  shows "identities_distinct s'"
proof -
  have start: ?thesis if "add_start A s e = Some (ok, acc, s', e')"
    using that
  proof (cases rule: add_start_cases)
    case (known i)
    show ?thesis
      by (rule identities_update [OF assms(1,2) known(1)]) (simp_all add: known)
  next
    case (full c)
    then show ?thesis using assms(2) by (simp add: identities_distinct_def)
  next
    case (added s1)
    show ?thesis
      by (rule append_event_identities [OF added(3)], rule identities_add [OF assms(1,2) added(1)])
        (simp_all add: key_eq_iff)
  qed
  have stop: ?thesis if "add_stop A s e = Some (ok, acc, s', e')"
    using that
  proof (cases rule: add_stop_cases)
    case (ignored i)
    then show ?thesis using assms(2) by simp
  next
    case (stopped i)
    note i = find_in_store(1) [OF assms(1) stopped(1)]
    show ?thesis
      by (rule append_event_identities [OF stopped(3)], rule identities_update [OF assms(1,2) stopped(1)])
        (simp_all add: finish_stop_processes i)
  next
    case (full c)
    then show ?thesis using assms(2) by (simp add: identities_distinct_def)
  next
    case (unknown s1)
    show ?thesis
      by (rule append_event_identities [OF unknown(3)], rule identities_add [OF assms(1,2) unknown(1)])
        (simp_all add: key_eq_iff finish_stop_processes list_update_append)
  qed
  from assms(3) show ?thesis
  proof (cases rule: store_add_cases)
    case (other n m)
    then show ?thesis
      using append_event_identities [OF other(3)] assms(2) by (simp add: identities_distinct_def)
  qed (use start stop in simp_all)
qed

text \<open>
  \<^bold>\<open>C6\<close>. Adding any event keeps process identities unique: a PID (other than 0) together with a known
  creation time names at most one record, even when a record learns its creation time from a later event.
\<close>

theorem store_add_keeps_identities_distinct:
  assumes "store_wf s" and "identities_distinct s" and "store_add A s e = Some (ok, acc, s', e')"
  shows "identities_distinct s'"
  by (rule add_keeps_identities [OF assms])

theorem store_add_keeps_identities_distinct_witness: "identities_distinct started_store"
  by (rule store_add_keeps_identities_distinct [OF empty_store_wf _ add_start_event])
    (simp add: identities_distinct_def example_simps)

section \<open>Coalescing starts and stops\<close>

lemma accepted_start:
  assumes "store_add A s e = Some (ok, True, s', e')" and "ev_type e = EVENT_PROCESS_START"
  shows "st_processes s' = st_processes s @
           [(new_record e)\<lparr>pr_active := True, pr_start_time := ev_timestamp e\<rparr>]"
proof -
  from assms have "add_start A s e = Some (ok, True, s', e')" by (simp add: store_add_def)
  then show ?thesis
  proof (cases rule: add_start_cases)
    case (added s1)
    then show ?thesis using append_event_log [OF added(3)] by simp
  qed simp_all
qed

lemma store_add_wf: "store_wf s \<Longrightarrow> store_add A s e = Some (ok, acc, s', e') \<Longrightarrow> store_wf s'"
proof -
  assume wf: "store_wf s" and r: "store_add A s e = Some (ok, acc, s', e')"
  from r show ?thesis
  proof (cases rule: store_add_cases)
    case (other n m)
    have "store_wf (s\<lparr>st_network_count := n, st_alert_count := m\<rparr>)"
      using wf by (simp add: store_wf_def)
    then show ?thesis using other(3) by (rule append_event_wf)
  qed (use wf add_start_wf add_stop_wf in blast)+
qed

lemma known_start_is_coalesced:
  assumes "store_wf s" and "ev_type e = EVENT_PROCESS_START"
    and "i < length (st_processes s)" and "pid (ev_process e) \<noteq> 0"
    and "exact_at (st_processes s) (ev_process e) i \<or> active_at (st_processes s) (ev_process e) i"
  shows "\<exists>s'. store_add A s e = Some (True, False, s', e) \<and> st_events s' = st_events s \<and>
           length (st_processes s') = length (st_processes s) \<and>
           map pr_active (st_processes s') = map pr_active (st_processes s) \<and>
           st_active_process_count s' = st_active_process_count s"
proof -
  have "event_store_find_process (Some s) (ev_process e) \<noteq> None"
    using assms by (auto simp: event_store_find_process_def find_process_loop_none store_wf_def)
  then obtain k where k: "event_store_find_process (Some s) (ev_process e) = Some k" by auto
  have "k < length (st_processes s)" using find_in_store(1) [OF assms(1) k] .
  then have "(map pr_active (st_processes s))[k := pr_active (st_processes s ! k)]
      = map pr_active (st_processes s)"
    by (metis list_update_id nth_map)
  then show ?thesis using k assms(2)
    by (simp add: store_add_def add_start_def map_update)
qed

text \<open>
  ETW and the snapshot poller may both report a start. Once one report was accepted, another
  start with a compatible identity (the same PID, and creation times equal or one unknown) is
  coalesced: the call succeeds, nothing is logged, no record is added and no count changes.
\<close>

lemma duplicate_start_is_coalesced:
  assumes "store_wf s" and "ev_type e1 = EVENT_PROCESS_START"
    and "store_add A s e1 = Some (ok, True, s1, e1')"
    and "ev_type e2 = EVENT_PROCESS_START" and "pid (ev_process e1) \<noteq> 0"
    and "process_keys_match (ev_process e1) (ev_process e2)"
  shows "\<exists>s2. store_add B s1 e2 = Some (True, False, s2, e2) \<and> st_events s2 = st_events s1 \<and>
           length (st_processes s2) = length (st_processes s1) \<and>
           map pr_active (st_processes s2) = map pr_active (st_processes s1) \<and>
           st_active_process_count s2 = st_active_process_count s1"
proof -
  note p = accepted_start [OF assms(3,2)]
  have "active_at (st_processes s1) (ev_process e2) (length (st_processes s))"
    using assms(6) keys_match_pid [OF assms(6)] by (simp add: p active_at_def new_record_key)
  moreover have "pid (ev_process e2) \<noteq> 0"
    using assms(5) keys_match_pid [OF assms(6)] by simp
  ultimately show ?thesis
    using known_start_is_coalesced [OF store_add_wf [OF assms(1,3)] assms(4),
        of "length (st_processes s)"] p by simp
qed

text \<open>A stop that is accepted under a known identity leaves a stopped record of that identity.\<close>

definition stopped_record :: "ProcessKey \<Rightarrow> ProcessRecord list \<Rightarrow> bool" where
  "stopped_record k ps \<longleftrightarrow> (\<exists>r \<in> set ps. pr_key r = k \<and> \<not> pr_active r)"

lemma accepted_stop:
  assumes "store_wf s" and "store_add A s e = Some (ok, True, s', e')"
    and "ev_type e = EVENT_PROCESS_STOP" and "pid (ev_process e) \<noteq> 0"
    and c: "creation_time (ev_process e) \<noteq> 0"
  shows "stopped_record (ev_process e) (st_processes s')"
proof -
  from assms have "add_stop A s e = Some (ok, True, s', e')" by (simp add: store_add_def)
  then obtain ps i where ps: "st_processes s' = ps[i := (ps ! i)\<lparr>pr_active := False, pr_stop_time := ev_timestamp e\<rparr>]"
      "i < length ps" "pr_key (ps ! i) = ev_process e"
  proof (cases rule: add_stop_cases)
    case (stopped i)
    note i = find_in_store [OF assms(1) stopped(1)]
    let ?ps = "(st_processes s)[i := update_record_from_event (st_processes s ! i) e]"
    have "pr_key (?ps ! i) = ev_process e"
      using i c by (auto simp: key_eq_iff process_keys_match_def split: if_splits)
    then show thesis
      using that [of ?ps i] append_event_log [OF stopped(3)] i(1) by (simp add: finish_stop_processes)
  next
    case (unknown s1)
    show thesis
      by (rule that [of "st_processes s @ [new_record e]" "length (st_processes s)"])
        (use append_event_log [OF unknown(3)] in \<open>simp_all add: finish_stop_processes key_eq_iff\<close>)
  qed simp_all
  have "(ps ! i)\<lparr>pr_active := False, pr_stop_time := ev_timestamp e\<rparr> \<in> set (st_processes s')"
    using ps by (simp add: set_update_memI)
  then show ?thesis unfolding stopped_record_def by (rule rev_bexI) (simp add: ps(3))
qed

text \<open>No later event changes such a record's identity or makes it active again.\<close>

lemma stopped_record_update:
  assumes "stopped_record k ps" and "i < length ps"
    and "pr_key (ps ! i) = k \<and> \<not> pr_active (ps ! i) \<Longrightarrow> pr_key r = k \<and> \<not> pr_active r"
  shows "stopped_record k (ps[i := r])"
proof -
  obtain j where j: "j < length ps" "pr_key (ps ! j) = k" "\<not> pr_active (ps ! j)"
    using assms(1) by (auto simp: stopped_record_def in_set_conv_nth)
  then have "pr_key (ps[i := r] ! j) = k \<and> \<not> pr_active (ps[i := r] ! j)"
    using assms(2,3) by (cases "i = j") auto
  then show ?thesis using j(1) unfolding stopped_record_def
    by (metis length_list_update nth_mem)
qed

lemma stopped_record_append: "stopped_record k ps \<Longrightarrow> stopped_record k (ps @ qs)"
  by (auto simp: stopped_record_def)

lemma update_keeps_known_key:
  assumes "process_keys_match (pr_key r) (ev_process e)" and "creation_time (pr_key r) \<noteq> 0"
  shows "pr_key (update_record_from_event r e) = pr_key r"
  using assms by (auto simp: key_eq_iff process_keys_match_def split: if_splits)

lemma add_keeps_stopped_record:
  assumes wf: "store_wf s" and k: "creation_time k \<noteq> 0" and st: "stopped_record k (st_processes s)"
    and "store_add A s e = Some (ok, acc, s', e')"
  shows "stopped_record k (st_processes s')"
proof -
  have upd: "stopped_record k ((st_processes s)[i := update_record_from_event (st_processes s ! i) e])"
    if f: "event_store_find_process (Some s) (ev_process e) = Some i" for i
  proof (rule stopped_record_update [OF st find_in_store(1) [OF wf f]])
    assume "pr_key (st_processes s ! i) = k \<and> \<not> pr_active (st_processes s ! i)"
    then show "pr_key (update_record_from_event (st_processes s ! i) e) = k \<and>
        \<not> pr_active (update_record_from_event (st_processes s ! i) e)"
      using update_keeps_known_key [OF find_in_store(3) [OF wf f]] k by simp
  qed
  have fin: "stopped_record k (st_processes (finish_stop t i e))"
    if "stopped_record k (st_processes t)" "i < length (st_processes t)" for t i
    using stopped_record_update [OF that] by (simp add: finish_stop_processes)
  from assms(4) show ?thesis
  proof (cases rule: store_add_cases)
    case start
    from start(2) show ?thesis
    proof (cases rule: add_start_cases)
      case (added s1)
      then show ?thesis using append_event_log [OF added(3)] stopped_record_append [OF st] by simp
    qed (use upd st in simp_all)
  next
    case stop
    from stop(2) show ?thesis
    proof (cases rule: add_stop_cases)
      case (stopped i)
      then show ?thesis
        using append_event_log [OF stopped(3)] upd [OF stopped(1)] find_in_store(1) [OF wf stopped(1)]
          fin [of "s\<lparr>st_processes := (st_processes s)[i := update_record_from_event (st_processes s ! i) e]\<rparr>" i]
        by simp
    next
      case (unknown s1)
      then show ?thesis
        using append_event_log [OF unknown(3)] stopped_record_append [OF st, of "[new_record e]"]
          fin [of "s1\<lparr>st_processes := st_processes s @ [new_record e], st_process_count := st_process_count s + 1\<rparr>"
            "length (st_processes s)"]
        by simp
    qed (use st in simp_all)
  next
    case (other n m)
    then show ?thesis using append_event_log [OF other(3)] st by simp
  qed
qed

text \<open>Events one after the other, each under its own allocation failures, accepted or not.\<close>

fun add_all :: "(store_alloc \<times> TraceGlassEvent) list \<Rightarrow> EventStore \<Rightarrow> EventStore option" where
  "add_all [] s = Some s"
| "add_all ((A, e) # rest) s = do { (ok, accepted, s', e') \<leftarrow> store_add A s e; add_all rest s' }"

definition stopped_in :: "ProcessKey \<Rightarrow> EventStore \<Rightarrow> bool" where
  "stopped_in k s \<longleftrightarrow> store_wf s \<and> identities_distinct s \<and> stopped_record k (st_processes s)"

lemma add_all_stopped:
  assumes "creation_time k \<noteq> 0" and "stopped_in k s"
  shows "\<exists>s'. add_all reports s = Some s' \<and> stopped_in k s'"
  using assms(2)
proof (induction reports arbitrary: s)
  case (Cons x reports)
  obtain A e where x: "x = (A, e)" by (cases x)
  obtain ok acc s1 e1 where r: "store_add A s e = Some (ok, acc, s1, e1)"
    using store_add_returns by blast
  then have "stopped_in k s1"
    using Cons.prems store_add_wf [OF _ r] add_keeps_identities [OF _ _ r]
      add_keeps_stopped_record [OF _ assms(1) _ r] by (simp add: stopped_in_def)
  then show ?case using Cons.IH r x by simp
qed simp

text \<open>A start or stop of a stopped identity finds its one record and changes nothing that is shown.\<close>

lemma stopped_in_inactive:
  assumes "stopped_in k s" and "pid k \<noteq> 0" and "creation_time k \<noteq> 0" and "r \<in> set (st_processes s)" and "pr_key r = k"
  shows "\<not> pr_active r"
proof -
  obtain i where i: "i < length (st_processes s)" "r = st_processes s ! i"
    using assms(4) by (auto simp: in_set_conv_nth)
  obtain j where j: "j < length (st_processes s)" "pr_key (st_processes s ! j) = k" "\<not> pr_active (st_processes s ! j)"
    using assms(1) by (auto simp: stopped_in_def stopped_record_def in_set_conv_nth)
  have "identities_distinct s" using assms(1) by (simp add: stopped_in_def)
  then have "i = j" using i j assms(2,3,5) by (simp add: identities_distinct_def)
  then show ?thesis using i j by simp
qed

lemma stopped_in_found:
  assumes "stopped_in k s" and "pid k \<noteq> 0" and "creation_time k \<noteq> 0"
  shows "\<exists>i. event_store_find_process (Some s) k = Some i \<and> i < length (st_processes s) \<and> \<not> pr_active (st_processes s ! i)"
proof -
  obtain j where j: "j < length (st_processes s)" "pr_key (st_processes s ! j) = k"
    using assms(1) by (auto simp: stopped_in_def stopped_record_def in_set_conv_nth)
  then have ex: "exact_at (st_processes s) k j" using assms(3) by (simp add: exact_at_def)
  have wf: "store_wf s" using assms(1) by (simp add: stopped_in_def)
  have "event_store_find_process (Some s) k \<noteq> None"
    using wf ex j assms(2) by (auto simp: event_store_find_process_def find_process_loop_none store_wf_def)
  then obtain i where i: "event_store_find_process (Some s) k = Some i" by auto
  then have "exact_at (st_processes s) k i"
    using wf ex j find_process_spec [OF wf, of k i] by (auto simp: newest_def)
  then have "pr_key (st_processes s ! i) = k" by (simp add: exact_at_def key_eq_iff)
  then show ?thesis
    using i find_in_store(1) [OF wf i] stopped_in_inactive [OF assms] by auto
qed

lemma stopped_in_ignores:
  assumes "stopped_in (ev_process e) s" and "pid (ev_process e) \<noteq> 0" and "creation_time (ev_process e) \<noteq> 0"
    and "ev_type e = EVENT_PROCESS_START \<or> ev_type e = EVENT_PROCESS_STOP"
  shows "\<exists>s'. store_add B s e = Some (True, False, s', e) \<and> st_events s' = st_events s \<and>
           map pr_active (st_processes s') = map pr_active (st_processes s) \<and>
           st_active_process_count s' = st_active_process_count s"
proof -
  obtain i where i: "event_store_find_process (Some s) (ev_process e) = Some i" "i < length (st_processes s)"
      "\<not> pr_active (st_processes s ! i)"
    using stopped_in_found [OF assms(1-3)] by blast
  then have "(map pr_active (st_processes s))[i := pr_active (st_processes s ! i)] = map pr_active (st_processes s)"
    by (metis list_update_id nth_map)
  then show ?thesis
    using assms(4) i by (auto simp: store_add_def add_start_def add_stop_def map_update)
qed

text \<open>
  \<^bold>\<open>C7\<close>. A process whose stop was accepted under a known identity (a PID other than 0 and a creation
  time) stays stopped, whatever is reported in between: after any later events, of whatever kind
  and with whatever allocation failures, no record of that identity is active, and a start or stop
  report with it, from whichever source, logs nothing and revives nothing.
\<close>

theorem stopped_process_stays_stopped:
  assumes "store_wf s" and "identities_distinct s" and "ev_type e1 = EVENT_PROCESS_STOP"
    and "store_add A s e1 = Some (ok, True, s1, e1')"
    and "pid (ev_process e1) \<noteq> 0" and "creation_time (ev_process e1) \<noteq> 0"
  shows "\<exists>s2. add_all reports s1 = Some s2 \<and>
           (\<forall>r \<in> set (st_processes s2). pr_key r = ev_process e1 \<longrightarrow> \<not> pr_active r) \<and>
           (\<forall>B e2. ev_process e2 = ev_process e1 \<and> (ev_type e2 = EVENT_PROCESS_START \<or> ev_type e2 = EVENT_PROCESS_STOP) \<longrightarrow>
             (\<exists>s3. store_add B s2 e2 = Some (True, False, s3, e2) \<and> st_events s3 = st_events s2 \<and>
               map pr_active (st_processes s3) = map pr_active (st_processes s2) \<and>
               st_active_process_count s3 = st_active_process_count s2))"
proof -
  have "stopped_in (ev_process e1) s1"
    using store_add_wf [OF assms(1,4)] add_keeps_identities [OF assms(1,2,4)]
      accepted_stop [OF assms(1,4,3,5,6)] by (simp add: stopped_in_def)
  then obtain s2 where "add_all reports s1 = Some s2" and s2: "stopped_in (ev_process e1) s2"
    using add_all_stopped [OF assms(6)] by blast
  then show ?thesis
    using stopped_in_inactive [OF s2 assms(5,6)] stopped_in_ignores s2 assms(5,6)
    by (intro exI [of _ s2]) metis
qed

definition stop_report :: TraceGlassEvent where
  "stop_report = start_event\<lparr>ev_type := EVENT_PROCESS_STOP\<rparr>"

definition stopped_store :: EventStore where
  "stopped_store = started_store\<lparr>
     st_processes := [zero_record\<lparr>pr_key := \<lparr>pid = 4, creation_time = 9\<rparr>\<rparr>],
     st_active_process_count := 0,
     st_events := [start_event\<lparr>ev_sequence := 1\<rparr>, stop_report\<lparr>ev_sequence := 2\<rparr>],
     st_event_count := 2, st_next_sequence := 3\<rparr>"

lemma add_stop_report:
  "store_add ample_memory started_store stop_report
     = Some (True, True, stopped_store, stop_report\<lparr>ev_sequence := 2\<rparr>)"
  by (simp add: store_add_def add_stop_def event_store_find_process_def append_event_def
      reserve_events_def example_simps process_keys_match_def finish_stop_def
      update_record_from_event_def stop_report_def stopped_store_def Let_def)

theorem stopped_process_stays_stopped_witness:
  "\<exists>s2 s3. add_all [(ample_memory, zero_event\<lparr>ev_type := EVENT_NETWORK\<rparr>)] stopped_store = Some s2 \<and>
     store_add ample_memory s2 start_event = Some (True, False, s3, start_event) \<and> st_events s3 = st_events s2"
proof -
  have "identities_distinct started_store" by (simp add: identities_distinct_def example_simps)
  moreover have kinds: "ev_type stop_report = EVENT_PROCESS_STOP" "ev_type start_event = EVENT_PROCESS_START"
      "ev_process start_event = ev_process stop_report"
      "pid (ev_process stop_report) \<noteq> 0" "creation_time (ev_process stop_report) \<noteq> 0"
    by (simp_all add: stop_report_def start_event_def zero_event_def)
  ultimately obtain s2 where s2: "add_all [(ample_memory, zero_event\<lparr>ev_type := EVENT_NETWORK\<rparr>)] stopped_store = Some s2"
      "\<forall>B e2. ev_process e2 = ev_process stop_report \<and> (ev_type e2 = EVENT_PROCESS_START \<or> ev_type e2 = EVENT_PROCESS_STOP) \<longrightarrow>
        (\<exists>s3. store_add B s2 e2 = Some (True, False, s3, e2) \<and> st_events s3 = st_events s2 \<and>
          map pr_active (st_processes s3) = map pr_active (st_processes s2) \<and>
          st_active_process_count s3 = st_active_process_count s2)"
    using stopped_process_stays_stopped [OF started_store_wf _ _ add_stop_report] by blast
  then show ?thesis using kinds by blast
qed

section \<open>Counters\<close>

text \<open>The counters of network and alert events against the log, as long as no call has failed.\<close>

definition counters_exact :: "EventStore \<Rightarrow> bool" where
  "counters_exact s \<longleftrightarrow>
     st_network_count s = of_nat (length (filter (\<lambda>e. ev_type e = EVENT_NETWORK) (st_events s))) \<and>
     st_alert_count s = of_nat (length (filter (\<lambda>e. ev_type e = EVENT_ALERT) (st_events s)))"

lemma process_event_counters:
  assumes "add_start A s e = Some (ok, acc, s', e') \<or> add_stop A s e = Some (ok, acc, s', e')"
  shows "st_network_count s' = st_network_count s \<and> st_alert_count s' = st_alert_count s"
  using assms
proof
  assume "add_start A s e = Some (ok, acc, s', e')"
  then show ?thesis
  proof (cases rule: add_start_cases)
    case (added s1)
    then show ?thesis
      using append_event_log [OF added(3)] reserve_processes_shape [OF added(2)] by auto
  qed simp_all
next
  assume "add_stop A s e = Some (ok, acc, s', e')"
  then show ?thesis
  proof (cases rule: add_stop_cases)
    case (stopped i)
    then show ?thesis
      using append_event_log [OF stopped(3)] by (simp add: finish_stop_def Let_def)
  next
    case (unknown s1)
    then show ?thesis
      using append_event_log [OF unknown(3)] reserve_processes_shape [OF unknown(2)]
      by (auto simp: finish_stop_def Let_def)
  qed simp_all
qed

lemma counters_add:
  assumes "counters_exact s" and "store_add A s e = Some (True, acc, s', e')"
  shows "counters_exact s'"
proof (cases "ev_type e = EVENT_PROCESS_START \<or> ev_type e = EVENT_PROCESS_STOP")
  case True
  then have "add_start A s e = Some (True, acc, s', e') \<or> add_stop A s e = Some (True, acc, s', e')"
    using assms(2) by (auto simp: store_add_def)
  then have "st_network_count s' = st_network_count s" "st_alert_count s' = st_alert_count s"
    using process_event_counters by blast+
  moreover have "st_events s' = st_events s \<or> st_events s' = st_events s @ [e\<lparr>ev_sequence := st_next_sequence s\<rparr>]"
    using log_of_add [OF assms(2)] by (cases acc) auto
  ultimately show ?thesis using assms(1) True by (auto simp: counters_exact_def)
next
  case False
  let ?t = "s\<lparr>st_network_count := st_network_count s + (if ev_type e = EVENT_NETWORK then 1 else 0),
             st_alert_count := st_alert_count s + (if ev_type e = EVENT_ALERT then 1 else 0)\<rparr>"
  have "append_event A ?t e = Some (True, acc, s', e')"
    using assms(2) False by (cases "ev_type e") (simp_all add: store_add_def)
  from append_event_log [OF this] show ?thesis
    using assms(1) by (auto simp: counters_exact_def)
qed

text \<open>
  \<^bold>\<open>C8\<close>. While calls succeed, the network and alert counters shown in the overview are the numbers
  of network and alert events in the log.
\<close>

theorem store_add_keeps_counters_exact:
  assumes "counters_exact s" and "store_add A s e = Some (True, acc, s', e')"
  shows "counters_exact s'"
  using assms by (rule counters_add)

theorem store_add_keeps_counters_exact_witness: "counters_exact stopped_store"
proof (rule store_add_keeps_counters_exact [OF _ add_stop_report])
  show "counters_exact started_store"
    by (simp add: counters_exact_def example_simps)
qed

end
