(* ===== verification/TG_Detection.thy ===== *)
theory TG_Detection
  imports TG_Events
begin

text \<open>
  \<^verbatim>\<open>src/detection.c\<close>: the three detection rules. The alerts go into an array of the caller, which
  the model indexes with bounds checks (the outer \<open>None\<close> is a write outside it); \<open>rule_alerts\<close> is
  the list of alerts an event deserves, and the routine is shown to store its first
  \<open>alert_capacity\<close> members.
\<close>

section \<open>The routine\<close>

definition TRACEGLASS_MAX_ALERTS_PER_EVENT :: nat where
  "TRACEGLASS_MAX_ALERTS_PER_EVENT = 3"

definition office_names :: "wstr list" where
  "office_names = map wide [''WINWORD.EXE'', ''EXCEL.EXE'', ''OUTLOOK.EXE'', ''POWERPNT.EXE'', ''MSACCESS.EXE'']"

definition interpreter_names :: "wstr list" where
  "interpreter_names = map wide [''powershell.exe'', ''pwsh.exe'', ''wscript.exe'', ''cscript.exe'', ''mshta.exe'']"

definition is_office_process :: "text_api \<Rightarrow> wstr \<Rightarrow> bool" where
  "is_office_process W name =
     list_ex (\<lambda>n. string_equals_insensitive W (Some name) (Some n)) office_names"

definition is_script_interpreter :: "text_api \<Rightarrow> wstr \<Rightarrow> bool" where
  "is_script_interpreter W name =
     list_ex (\<lambda>n. string_equals_insensitive W (Some name) (Some n)) interpreter_names"

definition initialize_alert :: "TraceGlassEvent \<Rightarrow> TraceGlassEvent" where
  "initialize_alert source = source\<lparr>ev_type := EVENT_ALERT, ev_severity := ALERT_INFO, ev_rule_name := []\<rparr>"

text \<open>The directories of the second rule; the separators are backslashes.\<close>

definition temp_directories :: "wstr \<times> wstr" where
  "temp_directories =
     (W_BACKSLASH # wide ''AppData'' @ W_BACKSLASH # wide ''Local'' @ W_BACKSLASH # wide ''Temp'' @ [W_BACKSLASH],
      W_BACKSLASH # wide ''Windows'' @ W_BACKSLASH # wide ''Temp'' @ [W_BACKSLASH])"

text \<open>The condition and the alert of each rule.\<close>

definition office_rule :: "text_api \<Rightarrow> TraceGlassEvent \<Rightarrow> bool" where
  "office_rule W e \<longleftrightarrow>
     ev_type e = EVENT_PROCESS_START \<and> is_office_process W (ev_parent_name e) \<and>
     is_script_interpreter W (ev_process_name e)"

definition office_alert :: "text_api \<Rightarrow> TraceGlassEvent \<Rightarrow> TraceGlassEvent" where
  "office_alert W e = (initialize_alert e)\<lparr>
     ev_severity := ALERT_MEDIUM,
     ev_rule_name := wcopy TRACEGLASS_RULE_LENGTH (wide ''Office spawned script interpreter''),
     ev_details := cch_printf W TRACEGLASS_DETAIL_LENGTH
       ''Office application spawned a script interpreter: %s -> %s''
       [FStr (ev_parent_name e), FStr (ev_process_name e)]\<rparr>"

definition temp_rule :: "text_api \<Rightarrow> TraceGlassEvent \<Rightarrow> bool" where
  "temp_rule W e \<longleftrightarrow>
     ev_type e = EVENT_PROCESS_START \<and>
     (string_contains_insensitive W (Some (ev_executable_path e)) (Some (fst temp_directories)) \<or>
      string_contains_insensitive W (Some (ev_executable_path e)) (Some (snd temp_directories)))"

definition temp_alert :: "text_api \<Rightarrow> TraceGlassEvent \<Rightarrow> TraceGlassEvent" where
  "temp_alert W e = (initialize_alert e)\<lparr>
     ev_severity := ALERT_MEDIUM,
     ev_rule_name := wcopy TRACEGLASS_RULE_LENGTH (wide ''Executable in temporary directory''),
     ev_details := cch_printf W TRACEGLASS_DETAIL_LENGTH
       ''Executable is running from a temporary directory: %s'' [FStr (ev_executable_path e)]\<rparr>"

definition network_rule :: "text_api \<Rightarrow> TraceGlassEvent \<Rightarrow> bool" where
  "network_rule W e \<longleftrightarrow> ev_type e = EVENT_NETWORK \<and> is_script_interpreter W (ev_process_name e)"

definition network_alert :: "text_api \<Rightarrow> TraceGlassEvent \<Rightarrow> TraceGlassEvent" where
  "network_alert W e = (initialize_alert e)\<lparr>
     ev_severity := ALERT_INFO,
     ev_rule_name := wcopy TRACEGLASS_RULE_LENGTH (wide ''Script interpreter owns TCP connection''),
     ev_details := cch_printf W TRACEGLASS_DETAIL_LENGTH
       ''Script interpreter owns an established TCP connection; remote endpoint %s:%u''
       [FStr (ev_remote_address e), FNum (unat (ev_remote_port e))]\<rparr>"

text \<open>One rule's block: while there is room, store the alert at \<open>count\<close> and advance it.\<close>

definition apply_rule ::
  "bool \<Rightarrow> TraceGlassEvent \<Rightarrow> nat \<Rightarrow> nat \<times> TraceGlassEvent list \<Rightarrow> (nat \<times> TraceGlassEvent list) option" where
  "apply_rule condition alert alert_capacity st =
     (let (count, alerts) = st in
      if condition \<and> count < alert_capacity then do {
        alerts' \<leftarrow> buf_put alerts count alert;
        Some (count + 1, alerts')
      } else Some (count, alerts))"

definition detection_evaluate ::
  "text_api \<Rightarrow> TraceGlassEvent option \<Rightarrow> TraceGlassEvent list option \<Rightarrow> nat \<Rightarrow>
     (nat \<times> TraceGlassEvent list option) option" where
  "detection_evaluate W event alerts alert_capacity =
     (case (event, alerts) of
        (Some e, Some arr) \<Rightarrow>
          if alert_capacity = 0 \<or> ev_type e = EVENT_ALERT then Some (0, Some arr)
          else (do {
            st1 \<leftarrow> apply_rule (office_rule W e) (office_alert W e) alert_capacity (0, arr);
            st2 \<leftarrow> apply_rule (temp_rule W e) (temp_alert W e) alert_capacity st1;
            (count, arr') \<leftarrow> apply_rule (network_rule W e) (network_alert W e) alert_capacity st2;
            Some (count, Some arr') })
      | _ \<Rightarrow> Some (0, alerts))"

section \<open>The specification\<close>

definition rule_alerts :: "text_api \<Rightarrow> TraceGlassEvent \<Rightarrow> TraceGlassEvent list" where
  "rule_alerts W e =
     (if office_rule W e then [office_alert W e] else []) @
     (if temp_rule W e then [temp_alert W e] else []) @
     (if network_rule W e then [network_alert W e] else [])"

text \<open>The state of the routine between two rules: the alerts so far fill the front of the array.\<close>

definition alerts_stored :: "TraceGlassEvent list \<Rightarrow> nat \<Rightarrow> TraceGlassEvent list \<Rightarrow> nat \<times> TraceGlassEvent list \<Rightarrow> bool" where
  "alerts_stored arr cap as st \<longleftrightarrow>
     fst st = min cap (length as) \<and> snd st = take cap as @ drop (fst st) arr"

lemma apply_rule_stores:
  assumes "alerts_stored arr cap as st" and "cap \<le> length arr"
  shows "\<exists>st'. apply_rule b a cap st = Some st' \<and> alerts_stored arr cap (as @ (if b then [a] else [])) st'"
proof (cases "b \<and> fst st < cap")
  case True
  then have n: "fst st = length as" "length as < cap"
    using assms(1) by (auto simp: alerts_stored_def)
  then have "snd st = as @ drop (length as) arr" using assms(1) by (simp add: alerts_stored_def)
  moreover have "(as @ drop (length as) arr)[length as := a] = as @ a # drop (Suc (length as)) arr"
    using n assms(2) by (simp add: list_update_append Cons_nth_drop_Suc [symmetric])
  ultimately show ?thesis
    using True n assms(2)
    by (cases st) (auto simp: apply_rule_def alerts_stored_def buf_simps take_Cons')
next
  case False
  then show ?thesis
    using assms by (cases st) (auto simp: apply_rule_def alerts_stored_def)
qed

lemma rules_exclusive: "\<not> (network_rule W e \<and> (office_rule W e \<or> temp_rule W e))"
  by (auto simp: network_rule_def office_rule_def temp_rule_def)

lemma rule_alerts_length: "length (rule_alerts W e) \<le> 2"
  using rules_exclusive [of W e] by (auto simp: rule_alerts_def)

lemma alert_gets_none: "ev_type e = EVENT_ALERT \<Longrightarrow> rule_alerts W e = []"
  by (simp add: rule_alerts_def office_rule_def temp_rule_def network_rule_def)

lemma detection_stores:
  assumes "alert_capacity \<le> length arr"
  shows "\<exists>n. detection_evaluate W (Some e) (Some arr) alert_capacity
             = Some (n, Some (take alert_capacity (rule_alerts W e) @ drop n arr))
           \<and> n = min alert_capacity (length (rule_alerts W e))"
proof (cases "alert_capacity = 0 \<or> ev_type e = EVENT_ALERT")
  case True
  then show ?thesis by (auto simp: detection_evaluate_def alert_gets_none)
next
  case False
  have "alerts_stored arr alert_capacity [] (0, arr)" by (simp add: alerts_stored_def)
  then obtain st1 where 1: "apply_rule (office_rule W e) (office_alert W e) alert_capacity (0, arr) = Some st1"
      "alerts_stored arr alert_capacity ([] @ (if office_rule W e then [office_alert W e] else [])) st1"
    using apply_rule_stores assms by blast
  then obtain st2 where 2: "apply_rule (temp_rule W e) (temp_alert W e) alert_capacity st1 = Some st2"
      "alerts_stored arr alert_capacity (([] @ (if office_rule W e then [office_alert W e] else [])) @
         (if temp_rule W e then [temp_alert W e] else [])) st2"
    using apply_rule_stores assms by blast
  then obtain st3 where 3: "apply_rule (network_rule W e) (network_alert W e) alert_capacity st2 = Some st3"
      "alerts_stored arr alert_capacity (rule_alerts W e) st3"
    using apply_rule_stores [OF 2(2) assms, of "network_rule W e" "network_alert W e"]
    by (auto simp: rule_alerts_def)
  then show ?thesis
    using False 1 2 by (cases st3) (auto simp: detection_evaluate_def alerts_stored_def)
qed

text \<open>
  \<^bold>\<open>C13\<close>. \<^verbatim>\<open>detection_evaluate\<close> never writes outside an array of \<open>alert_capacity\<close> events: it stores
  the alerts of the matching rules in rule order, as many as fit, returns their number, and leaves
  the rest of the array alone. An alert is never evaluated into further alerts.
\<close>

theorem detection_evaluate_spec:
  assumes "alert_capacity \<le> length arr"
  shows "\<exists>n. detection_evaluate W (Some e) (Some arr) alert_capacity
             = Some (n, Some (take alert_capacity (rule_alerts W e) @ drop n arr))
           \<and> n = min alert_capacity (length (rule_alerts W e))"
  using assms by (rule detection_stores)

text \<open>A process started from a temporary directory by Word, for the witnesses.\<close>

definition macro_event :: TraceGlassEvent where
  "macro_event = zero_event\<lparr>
     ev_process := \<lparr>pid = 8, creation_time = 5\<rparr>, ev_parent := \<lparr>pid = 4, creation_time = 3\<rparr>,
     ev_process_name := wide ''PowerShell.exe'', ev_parent_name := wide ''winword.exe''\<rparr>"

lemma macro_event_rules:
  "office_rule ascii_text macro_event" "\<not> temp_rule ascii_text macro_event"
  "\<not> network_rule ascii_text macro_event"
  by (simp_all add: office_rule_def temp_rule_def network_rule_def macro_event_def zero_event_def
      is_office_process_def is_script_interpreter_def office_names_def interpreter_names_def
      string_equals_insensitive_def string_contains_insensitive_def temp_directories_def CSTR_EQUAL_def
      wide_def wide_char_def ascii_lower_def)

theorem detection_evaluate_spec_witness:
  "detection_evaluate ascii_text (Some macro_event) (Some (replicate 3 zero_event)) 3
     = Some (1, Some [office_alert ascii_text macro_event, zero_event, zero_event])"
  using detection_evaluate_spec [of 3 "replicate 3 zero_event" ascii_text macro_event]
  by (simp add: rule_alerts_def macro_event_rules eval_nat_numeral)

section \<open>What an alert carries\<close>

lemma office_details:
  assumes "strsafe_ok W" and "event_wf e"
  shows "ev_details (office_alert W e) =
    wide ''Office application spawned a script interpreter: '' @ ev_parent_name e @ wide '' -> '' @ ev_process_name e"
proof -
  have "length (ev_parent_name e) < 260" "length (ev_process_name e) < 260"
    using assms(2) by (simp_all add: event_wf_def str_fits_def array_lengths)
  then show ?thesis
    using assms(1) by (simp add: office_alert_def plat_simps array_lengths conversion_spec_def wide_def)
qed

lemma temp_details:
  assumes "strsafe_ok W" and "event_wf e"
  shows "ev_details (temp_alert W e) =
    wide ''Executable is running from a temporary directory: '' @ ev_executable_path e"
proof -
  have "length (ev_executable_path e) < 260"
    using assms(2) by (simp add: event_wf_def str_fits_def array_lengths)
  then show ?thesis
    using assms(1) by (simp add: temp_alert_def plat_simps array_lengths conversion_spec_def wide_def)
qed

lemma network_details:
  assumes "strsafe_ok W" and "event_wf e"
  shows "ev_details (network_alert W e) =
    wide ''Script interpreter owns an established TCP connection; remote endpoint '' @
    ev_remote_address e @ wide '':'' @ dec (unat (ev_remote_port e))"
proof -
  have "length (ev_remote_address e) < 64"
    using assms(2) by (simp add: event_wf_def str_fits_def array_lengths)
  then show ?thesis
    using assms(1) port_length [of "ev_remote_port e"]
    by (simp add: network_alert_def plat_simps array_lengths conversion_spec_def wide_def zero_pad_def)
qed

lemmas alert_details = office_details temp_details network_details

lemma rule_alert_cases:
  assumes "a \<in> set (rule_alerts W e)"
  obtains "office_rule W e" "a = office_alert W e"
  | "temp_rule W e" "a = temp_alert W e"
  | "network_rule W e" "a = network_alert W e"
  using assms by (auto simp: rule_alerts_def split: if_splits)

lemma alert_event_wf:
  assumes "strsafe_ok W" and "event_wf e" and "a \<in> set (rule_alerts W e)"
  shows "event_wf a"
proof -
  have no_nul: "0 \<notin> set (ev_parent_name e)" "0 \<notin> set (ev_process_name e)"
      "0 \<notin> set (ev_executable_path e)" "0 \<notin> set (ev_remote_address e)"
    using assms(2) by (simp_all add: event_wf_def str_fits_def)
  have fits: "str_fits TRACEGLASS_DETAIL_LENGTH (cch_printf W TRACEGLASS_DETAIL_LENGTH f args)"
    if "0 \<notin> set (vformat f args)" for f args
    using that assms(1) str_fits_take [of TRACEGLASS_DETAIL_LENGTH "vformat f args"]
    by (simp add: plat_simps array_lengths)
  have name: "str_fits TRACEGLASS_RULE_LENGTH (wcopy TRACEGLASS_RULE_LENGTH (wide s))"
    if "CHR 0x00 \<notin> set s" for s
    by (rule str_fits_wcopy) (use that wide_no_nul in \<open>auto simp: array_lengths\<close>)
  from assms(3) show ?thesis
  proof (cases rule: rule_alert_cases)
    case 1
    then show ?thesis using assms(2) no_nul
      by (simp add: event_wf_def office_alert_def initialize_alert_def fits name vformat_no_nul
          del: vformat.simps)
  next
    case 2
    then show ?thesis using assms(2) no_nul
      by (simp add: event_wf_def temp_alert_def initialize_alert_def fits name vformat_no_nul
          del: vformat.simps)
  next
    case 3
    then show ?thesis using assms(2) no_nul
      by (simp add: event_wf_def network_alert_def initialize_alert_def fits name vformat_no_nul
          del: vformat.simps)
  qed
qed

text \<open>
  \<^bold>\<open>C14\<close>. Every alert is a well-formed event of type \<^verbatim>\<open>EVENT_ALERT\<close> with a severity and a rule
  name, about the same process, parent and moment as the event that raised it, whose details name
  the evidence in full (the text is never cut), and no event raises more alerts than the array
  the callers pass can hold.
\<close>

theorem alerts_carry_evidence:
  assumes "strsafe_ok W" and "event_wf e" and "a \<in> set (rule_alerts W e)"
  shows "event_wf a \<and> ev_type a = EVENT_ALERT \<and> ALERT_NONE < ev_severity a \<and> ev_rule_name a \<noteq> []
     \<and> ev_process a = ev_process e \<and> ev_parent a = ev_parent e \<and> ev_timestamp a = ev_timestamp e
     \<and> (if ev_type e = EVENT_NETWORK then suffix (ev_remote_address e @ wide '':'' @ dec (unat (ev_remote_port e))) (ev_details a)
        else suffix (ev_parent_name e @ wide '' -> '' @ ev_process_name e) (ev_details a)
           \<or> suffix (ev_executable_path e) (ev_details a))
     \<and> length (rule_alerts W e) < TRACEGLASS_MAX_ALERTS_PER_EVENT"
  using assms(3)
proof (cases rule: rule_alert_cases)
  case 1
  then show ?thesis
    using alert_event_wf [OF assms] rule_alerts_length [of W e] office_details [OF assms(1,2)]
    by (simp add: office_rule_def TRACEGLASS_MAX_ALERTS_PER_EVENT_def)
       (simp add: office_alert_def initialize_alert_def less_AlertSeverity_def
          wcopy_eq_Nil array_lengths wide_def suffix_def)
next
  case 2
  then show ?thesis
    using alert_event_wf [OF assms] rule_alerts_length [of W e] temp_details [OF assms(1,2)]
    by (simp add: temp_rule_def TRACEGLASS_MAX_ALERTS_PER_EVENT_def)
       (simp add: temp_alert_def initialize_alert_def less_AlertSeverity_def
          wcopy_eq_Nil array_lengths wide_def suffix_def)
next
  case 3
  then show ?thesis
    using alert_event_wf [OF assms] rule_alerts_length [of W e] network_details [OF assms(1,2)]
    by (simp add: network_rule_def TRACEGLASS_MAX_ALERTS_PER_EVENT_def)
       (simp add: network_alert_def initialize_alert_def less_AlertSeverity_def
          wcopy_eq_Nil array_lengths wide_def suffix_def)
qed

theorem alerts_carry_evidence_witness:
  "event_wf (office_alert ascii_text macro_event) \<and> ev_process (office_alert ascii_text macro_event) = \<lparr>pid = 8, creation_time = 5\<rparr>"
proof -
  have "event_wf macro_event"
    by (simp add: event_wf_def macro_event_def zero_event_def array_lengths str_fits_def wide_no_nul)
  moreover have "office_alert ascii_text macro_event \<in> set (rule_alerts ascii_text macro_event)"
    by (simp add: rule_alerts_def macro_event_rules)
  ultimately show ?thesis
    using alerts_carry_evidence [of ascii_text macro_event "office_alert ascii_text macro_event"]
    by (simp add: macro_event_def)
qed

end
