(* ===== verification/TG_Session.thy ===== *)
theory TG_Session
  imports TG_Store TG_Detection
begin

text \<open>
  What a session means, without capacities, counters and machine words: a log of numbered events
  and a table of process records. \<^verbatim>\<open>event_store_add\<close> is shown to implement it, and the detection
  rules are added on top: one event taken from the queue becomes the logged event followed by the
  alerts of the rules it matches.
\<close>

section \<open>The abstract session\<close>

record session =
  ss_log :: "TraceGlassEvent list"
  ss_processes :: "ProcessRecord list"

text \<open>The index of the last element with a property.\<close>

fun last_index :: "('a \<Rightarrow> bool) \<Rightarrow> 'a list \<Rightarrow> nat option" where
  "last_index P [] = None"
| "last_index P (x # xs) =
     (case last_index P xs of Some i \<Rightarrow> Some (Suc i) | None \<Rightarrow> if P x then Some 0 else None)"

definition spec_lookup :: "ProcessRecord list \<Rightarrow> ProcessKey \<Rightarrow> nat option" where
  "spec_lookup ps key =
     (if pid key = 0 then None
      else case last_index (\<lambda>r. pr_key r = key \<and> creation_time key \<noteq> 0) ps of
        Some i \<Rightarrow> Some i
      | None \<Rightarrow> last_index (\<lambda>r. process_keys_match (pr_key r) key \<and> pr_active r) ps)"

text \<open>The session afterwards, and the event as it was logged.\<close>

definition log_event :: "session \<Rightarrow> TraceGlassEvent \<Rightarrow> session \<times> TraceGlassEvent option" where
  "log_event ss e =
     (let e' = e\<lparr>ev_sequence := of_nat (length (ss_log ss) + 1)\<rparr>
      in (ss\<lparr>ss_log := ss_log ss @ [e']\<rparr>, Some e'))"

definition stopped_record :: "ProcessRecord \<Rightarrow> TraceGlassEvent \<Rightarrow> ProcessRecord" where
  "stopped_record r e = r\<lparr>pr_active := False, pr_stop_time := ev_timestamp e\<rparr>"

text \<open>
  A start of a known process only completes its record; a stop of a stopped one is a repetition;
  everything else is logged.
\<close>

definition spec_report :: "session \<Rightarrow> TraceGlassEvent \<Rightarrow> session \<times> TraceGlassEvent option" where
  "spec_report ss e =
     (let ps = ss_processes ss in
      case (ev_type e, spec_lookup ps (ev_process e)) of
        (EVENT_PROCESS_START, Some i) \<Rightarrow>
          (ss\<lparr>ss_processes := ps[i := update_record_from_event (ps ! i) e]\<rparr>, None)
      | (EVENT_PROCESS_START, None) \<Rightarrow>
          log_event (ss\<lparr>ss_processes :=
            ps @ [(new_record e)\<lparr>pr_active := True, pr_start_time := ev_timestamp e\<rparr>]\<rparr>) e
      | (EVENT_PROCESS_STOP, Some i) \<Rightarrow>
          (if \<not> pr_active (ps ! i) then (ss, None)
           else log_event (ss\<lparr>ss_processes :=
             ps[i := stopped_record (update_record_from_event (ps ! i) e) e]\<rparr>) e)
      | (EVENT_PROCESS_STOP, None) \<Rightarrow>
          log_event (ss\<lparr>ss_processes := ps @ [stopped_record (new_record e) e]\<rparr>) e
      | _ \<Rightarrow> log_event ss e)"

text \<open>One event from the queue: logged, then evaluated as logged, its alerts logged after it.\<close>

definition spec_ingest :: "text_api \<Rightarrow> TraceGlassEvent \<Rightarrow> session \<Rightarrow> session" where
  "spec_ingest W e ss =
     (case spec_report ss e of
        (ss', None) \<Rightarrow> ss'
      | (ss', Some e') \<Rightarrow> fold (\<lambda>a s. fst (spec_report s a)) (rule_alerts W e') ss')"

section \<open>The session a store holds\<close>

definition session_of :: "EventStore \<Rightarrow> session" where
  "session_of s = \<lparr>ss_log = st_events s, ss_processes = st_processes s\<rparr>"

definition store_ok :: "EventStore \<Rightarrow> bool" where
  "store_ok s \<longleftrightarrow> store_wf s \<and> counters_exact s"

text \<open>
  A machine that never refuses memory, and a store that is far from exhausting \<^verbatim>\<open>size_t\<close>: with
  both, growing succeeds.
\<close>

definition unlimited :: "store_alloc \<Rightarrow> bool" where
  "unlimited A \<longleftrightarrow> (\<forall>n. realloc_events_ok A n \<and> realloc_processes_ok A n)"

definition room :: "nat \<Rightarrow> session \<Rightarrow> bool" where
  "room k ss \<longleftrightarrow> length (ss_log ss) + k < 2 ^ 50 \<and> length (ss_processes ss) + k < 2 ^ 50"

lemma last_index_newest: "last_index P xs = Some i \<longleftrightarrow> newest (\<lambda>j. P (xs ! j)) (length xs) i"
proof (induction xs arbitrary: i)
  case Nil
  then show ?case by (simp add: newest_def)
next
  case (Cons x xs)
  have shift: "newest (\<lambda>j. P ((x # xs) ! j)) (length (x # xs)) i \<longleftrightarrow>
      (case i of Suc k \<Rightarrow> newest (\<lambda>j. P (xs ! j)) (length xs) k
       | 0 \<Rightarrow> P x \<and> (\<forall>k < length xs. \<not> P (xs ! k)))"
    by (cases i) (auto simp: newest_def nth_Cons split: nat.splits)
  have none: "last_index P xs = None \<longleftrightarrow> (\<forall>k < length xs. \<not> P (xs ! k))"
    using Cons.IH newest_exists [of "\<lambda>j. P (xs ! j)" "length xs"] by (metis not_Some_eq)
  show ?case
    unfolding shift using Cons.IH none by (cases i) (auto split: option.splits dest: newest_unique)
qed

lemma last_index_None: "last_index P xs = None \<longleftrightarrow> (\<forall>j < length xs. \<not> P (xs ! j))"
  using newest_exists [of "\<lambda>j. P (xs ! j)" "length xs"] by (metis last_index_newest not_Some_eq)

lemma spec_lookup_eq:
  assumes "store_wf s"
  shows "event_store_find_process (Some s) key = spec_lookup (st_processes s) key"
proof -
  let ?ps = "st_processes s"
  let ?exact = "last_index (\<lambda>r. pr_key r = key \<and> creation_time key \<noteq> 0) ?ps"
  let ?active = "last_index (\<lambda>r. process_keys_match (pr_key r) key \<and> pr_active r) ?ps"
  have "exact_at ?ps key = (\<lambda>j. pr_key (?ps ! j) = key \<and> creation_time key \<noteq> 0)"
    by (auto simp: exact_at_def key_eq_iff fun_eq_iff)
  then have exact: "?exact = Some i \<longleftrightarrow> newest (exact_at ?ps key) (length ?ps) i"
      "?exact = None \<longleftrightarrow> (\<forall>j < length ?ps. \<not> exact_at ?ps key j)" for i
    unfolding last_index_newest last_index_None by simp_all
  have active: "?active = Some i \<longleftrightarrow> newest (active_at ?ps key) (length ?ps) i" for i
    unfolding last_index_newest active_at_def by simp
  have "event_store_find_process (Some s) key = Some i \<longleftrightarrow>
      pid key \<noteq> 0 \<and> (?exact = Some i \<or> ?exact = None \<and> ?active = Some i)" for i
    using assms unfolding exact active
    by (simp add: event_store_find_process_def find_process_loop_iff store_wf_def)
  then have "event_store_find_process (Some s) key = Some i \<longleftrightarrow> spec_lookup ?ps key = Some i" for i
    by (simp add: spec_lookup_def split: option.split)
  then show ?thesis by (metis not_Some_eq)
qed

section \<open>Growing succeeds\<close>

lemma double_until_bound:
  "0 < c \<Longrightarrow> unat n < 2 ^ 50 \<Longrightarrow> \<exists>d. double_until c n = Some (Some d) \<and> unat d \<le> max (unat c) (2 * unat n)"
proof (induction "2 ^ 64 - unat c" arbitrary: c rule: less_induct)
  case less
  show ?case
  proof (cases "c < n")
    case True
    then have c: "unat c < unat n" by (simp add: word_less_nat_alt)
    then have "c \<le> SIZE_MAX div 2" using less.prems(2) by (simp add: word_le_nat_alt half_size_max)
    then have u: "unat (c * 2) = unat c * 2" and step: "double_until c n = double_until (c * 2) n"
      using True by (simp_all add: unat_double) (subst double_until.simps, simp add: leD)
    have "0 < unat c" using less.prems(1) by (simp add: unat_gt_0 word_gt_0)
    moreover have "unat (c * 2) < 2 ^ 64" using unsigned_less [of "c * 2"] by simp
    ultimately have "2 ^ 64 - unat (c * 2) < 2 ^ 64 - unat c" "0 < c * 2"
      using u by (linarith, simp add: word_less_nat_alt)
    then obtain d where "double_until (c * 2) n = Some (Some d)" "unat d \<le> max (unat (c * 2)) (2 * unat n)"
      using less.hyps less.prems(2) by blast
    then show ?thesis using step u c by auto
  next
    case False
    then show ?thesis by (subst double_until.simps) auto
  qed
qed

lemma grown_capacity:
  assumes "cap < n" and "unat n < 2 ^ 50" and "0 < initial" and "unat initial < 2 ^ 50" and "unat sz \<le> 5000" and "0 < sz"
  shows "\<exists>c0 c. first_capacity initial cap = Some c0 \<and> double_until c0 n = Some (Some c) \<and> c \<le> SIZE_MAX div sz"
proof -
  have cap: "unat cap < unat n" using assms(1) by (simp add: word_less_nat_alt)
  then have half: "cap \<le> SIZE_MAX div 2" using assms(2) by (simp add: word_le_nat_alt half_size_max)
  obtain c0 where c0: "first_capacity initial cap = Some c0" "unat c0 < 2 ^ 51"
    using half assms(2,4) cap by (cases "cap = 0") (auto simp: first_capacity_def unat_double leD)
  then obtain c where c: "double_until c0 n = Some (Some c)" "unat c \<le> max (unat c0) (2 * unat n)"
    using double_until_bound [of c0 n] first_capacity_pos [OF c0(1) assms(3)] assms(2) by blast
  have "(2 :: nat) ^ 51 \<le> (2 ^ 64 - 1) div 5000" by simp
  also have "\<dots> \<le> (2 ^ 64 - 1) div unat sz"
    using assms(5,6) by (intro div_le_mono2) (simp_all add: unat_gt_0 word_gt_0)
  finally have "unat c \<le> unat (SIZE_MAX div sz)"
    using c(2) c0(2) assms(2) by (simp add: unat_div SIZE_MAX_def)
  then show ?thesis using c0 c by (auto simp: word_le_nat_alt)
qed

lemma reserve_succeeds:
  assumes "unlimited A" and "unat n < 2 ^ 50"
  shows "\<exists>c. reserve_events A s n = Some (True, s\<lparr>st_event_capacity := c\<rparr>)"
    and "\<exists>c. reserve_processes A s n = Some (True, s\<lparr>st_process_capacity := c\<rparr>)"
proof -
  have "\<exists>c. n \<le> st_event_capacity s \<and> reserve_events A s n = Some (True, s) \<or>
      reserve_events A s n = Some (True, s\<lparr>st_event_capacity := c\<rparr>)"
    using grown_capacity [of "st_event_capacity s" n 256 sizeof_event] assms
    by (cases "n \<le> st_event_capacity s")
      (auto simp: reserve_events_def unlimited_def not_le sizeof_event_def not_less)
  moreover have "s = s\<lparr>st_event_capacity := st_event_capacity s\<rparr>" by simp
  ultimately show "\<exists>c. reserve_events A s n = Some (True, s\<lparr>st_event_capacity := c\<rparr>)" by metis
  have "\<exists>c. n \<le> st_process_capacity s \<and> reserve_processes A s n = Some (True, s) \<or>
      reserve_processes A s n = Some (True, s\<lparr>st_process_capacity := c\<rparr>)"
    using grown_capacity [of "st_process_capacity s" n 128 sizeof_record] assms
    by (cases "n \<le> st_process_capacity s")
      (auto simp: reserve_processes_def unlimited_def not_le sizeof_record_def not_less)
  moreover have "s = s\<lparr>st_process_capacity := st_process_capacity s\<rparr>" by simp
  ultimately show "\<exists>c. reserve_processes A s n = Some (True, s\<lparr>st_process_capacity := c\<rparr>)" by metis
qed

section \<open>The store implements the session\<close>

lemma append_event_succeeds:
  assumes "unlimited A" and "store_wf s" and "length (st_events s) + 1 < 2 ^ 50"
  shows "\<exists>c. append_event A s e = Some (True, True,
      s\<lparr>st_event_capacity := c, st_next_sequence := st_next_sequence s + 1,
        st_events := st_events s @ [e\<lparr>ev_sequence := st_next_sequence s\<rparr>],
        st_event_count := st_event_count s + 1\<rparr>, e\<lparr>ev_sequence := st_next_sequence s\<rparr>)"
proof -
  have "unat (st_event_count s) = length (st_events s)" using assms(2) by (simp add: store_wf_def)
  then have "unat (st_event_count s + 1) < 2 ^ 50" using assms(3) by (simp add: unat_plus_one)
  then obtain c where "reserve_events A s (st_event_count s + 1) = Some (True, s\<lparr>st_event_capacity := c\<rparr>)"
    using reserve_succeeds(1) [OF assms(1)] by blast
  then show ?thesis by (intro exI [of _ c]) (simp add: append_event_def Let_def)
qed

text \<open>Appending to a store whose log is \<open>ss_log ss\<close> is \<open>log_event\<close>.\<close>

lemma append_event_logs:
  assumes "unlimited A" and "store_wf s" and "room 1 (session_of s)" and "st_events t = st_events s"
    and "store_wf t" and "st_next_sequence t = st_next_sequence s"
  shows "\<exists>t' e'. append_event A t e = Some (True, True, t', e') \<and>
    log_event (session_of t) e = (session_of t', Some e')"
proof -
  have n: "length (st_events t) + 1 < 2 ^ 50" using assms(3,4) by (simp add: room_def session_of_def)
  have "unat (st_next_sequence t) = length (st_events t) + 1" using assms(5) by (simp add: store_wf_def)
  moreover have "of_nat (unat (st_next_sequence t)) = st_next_sequence t" by simp
  ultimately have "st_next_sequence t = of_nat (length (st_events t) + 1)" by simp
  then show ?thesis
    using append_event_succeeds [OF assms(1,5) n, of e]
    by (auto simp: log_event_def session_of_def Let_def)
qed

lemma start_refines:
  assumes "unlimited A" and "store_wf s" and "room 1 (session_of s)" and "ev_type e = EVENT_PROCESS_START"
  shows "\<exists>acc s' e'. add_start A s e = Some (True, acc, s', e') \<and>
    spec_report (session_of s) e = (session_of s', if acc then Some e' else None)"
proof (cases "spec_lookup (st_processes s) (ev_process e)")
  case (Some i)
  then show ?thesis
    using assms(4)
    by (intro exI [of _ False]) (simp add: add_start_def spec_lookup_eq [OF assms(2)] spec_report_def session_of_def Let_def)
next
  case None
  have "unat (st_process_count s + 1) < 2 ^ 50"
    using assms(2,3) by (simp add: store_wf_def room_def session_of_def unat_plus_one)
  then obtain c where c: "reserve_processes A s (st_process_count s + 1) = Some (True, s\<lparr>st_process_capacity := c\<rparr>)"
    using reserve_succeeds(2) [OF assms(1)] by blast
  let ?r = "(new_record e)\<lparr>pr_active := True, pr_start_time := ev_timestamp e\<rparr>"
  let ?t = "s\<lparr>st_process_capacity := c, st_processes := st_processes s @ [?r],
    st_process_count := st_process_count s + 1, st_active_process_count := st_active_process_count s + 1\<rparr>"
  have "store_wf ?t"
    using reserve_processes_wf(1,2) [OF assms(2) c] push_record_wf [of "s\<lparr>st_process_capacity := c\<rparr>" ?r] by simp
  then obtain t' e' where "append_event A ?t e = Some (True, True, t', e')"
      "log_event (session_of ?t) e = (session_of t', Some e')"
    using append_event_logs [OF assms(1-3), of ?t e] by auto
  then show ?thesis
    using None c assms(4)
    by (intro exI [of _ True])
      (simp add: add_start_def spec_lookup_eq [OF assms(2)] spec_report_def session_of_def)
qed

lemma finish_stop_frame [simp]:
  "st_events (finish_stop s i e) = st_events s" "st_next_sequence (finish_stop s i e) = st_next_sequence s"
  by (simp_all add: finish_stop_def Let_def)

lemma stop_refines:
  assumes "unlimited A" and "store_wf s" and "room 1 (session_of s)" and "ev_type e = EVENT_PROCESS_STOP"
  shows "\<exists>acc s' e'. add_stop A s e = Some (True, acc, s', e') \<and>
    spec_report (session_of s) e = (session_of s', if acc then Some e' else None)"
proof (cases "spec_lookup (st_processes s) (ev_process e)")
  case (Some i)
  then have f: "event_store_find_process (Some s) (ev_process e) = Some i"
    by (simp add: spec_lookup_eq [OF assms(2)])
  note i = find_in_store(1) [OF assms(2) f]
  show ?thesis
  proof (cases "pr_active (st_processes s ! i)")
    case False
    then show ?thesis
      using assms(4) Some f
      by (intro exI [of _ False]) (simp add: add_stop_def spec_report_def session_of_def)
  next
    case True
    let ?u = "s\<lparr>st_processes := (st_processes s)[i := update_record_from_event (st_processes s ! i) e]\<rparr>"
    have "store_wf (finish_stop ?u i e)" using finish_stop_wf [OF update_wf [OF assms(2) i]] i by simp
    then obtain t' e' where "append_event A (finish_stop ?u i e) e = Some (True, True, t', e')"
        "log_event (session_of (finish_stop ?u i e)) e = (session_of t', Some e')"
      using append_event_logs [OF assms(1-3), of "finish_stop ?u i e" e] by auto
    then show ?thesis
      using Some f assms(4) True i
      by (intro exI [of _ True])
        (simp add: add_stop_def spec_report_def session_of_def finish_stop_processes stopped_record_def)
  qed
next
  case None
  then have f: "event_store_find_process (Some s) (ev_process e) = None"
    by (simp add: spec_lookup_eq [OF assms(2)])
  have "unat (st_process_count s + 1) < 2 ^ 50"
    using assms(2,3) by (simp add: store_wf_def room_def session_of_def unat_plus_one)
  then obtain c where c: "reserve_processes A s (st_process_count s + 1) = Some (True, s\<lparr>st_process_capacity := c\<rparr>)"
    using reserve_succeeds(2) [OF assms(1)] by blast
  let ?u = "s\<lparr>st_process_capacity := c, st_processes := st_processes s @ [new_record e],
    st_process_count := st_process_count s + 1\<rparr>"
  let ?t = "finish_stop ?u (length (st_processes s)) e"
  have "store_wf ?u"
    using reserve_processes_wf(1,2) [OF assms(2) c] push_record_wf [of "s\<lparr>st_process_capacity := c\<rparr>" "new_record e"]
    by (simp add: store_wf_def)
  then have "store_wf ?t" using finish_stop_wf by simp
  then obtain t' e' where "append_event A ?t e = Some (True, True, t', e')"
      "log_event (session_of ?t) e = (session_of t', Some e')"
    using append_event_logs [OF assms(1-3), of ?t e] by auto
  then show ?thesis
    using None f c assms(4)
    by (intro exI [of _ True])
      (simp add: add_stop_def spec_report_def session_of_def finish_stop_processes stopped_record_def
        list_update_append)
qed

lemma other_refines:
  assumes "unlimited A" and "store_wf s" and "room 1 (session_of s)"
    and "ev_type e \<noteq> EVENT_PROCESS_START" and "ev_type e \<noteq> EVENT_PROCESS_STOP"
  shows "\<exists>s' e'. store_add A s e = Some (True, True, s', e') \<and>
    spec_report (session_of s) e = (session_of s', Some e')"
proof -
  obtain t where t: "store_add A s e = append_event A t e" "store_wf t" "st_events t = st_events s"
      "st_processes t = st_processes s" "st_next_sequence t = st_next_sequence s"
    using assms(2,4,5) by (cases "ev_type e") (auto simp: store_add_def store_wf_def)
  then obtain t' e' where "append_event A t e = Some (True, True, t', e')"
      "log_event (session_of t) e = (session_of t', Some e')"
    using append_event_logs [OF assms(1-3)] by blast
  moreover have "session_of t = session_of s" using t by (simp add: session_of_def)
  ultimately show ?thesis
    using t(1) assms(4,5) by (cases "ev_type e") (simp_all add: spec_report_def)
qed

lemma store_add_session:
  assumes "unlimited A" and "store_ok s" and "room 1 (session_of s)"
  shows "\<exists>acc s' e'. store_add A s e = Some (True, acc, s', e') \<and> store_ok s' \<and>
    spec_report (session_of s) e = (session_of s', if acc then Some e' else None)"
proof -
  have wf: "store_wf s" using assms(2) by (simp add: store_ok_def)
  have "\<exists>acc s' e'. store_add A s e = Some (True, acc, s', e') \<and>
      spec_report (session_of s) e = (session_of s', if acc then Some e' else None)"
    using start_refines [OF assms(1) wf assms(3), of e] stop_refines [OF assms(1) wf assms(3), of e]
      other_refines [OF assms(1) wf assms(3), of e]
    by (cases "ev_type e = EVENT_PROCESS_START"; cases "ev_type e = EVENT_PROCESS_STOP")
      (auto simp: store_add_def)
  then show ?thesis
    using store_add_wf [OF wf] counters_add assms(2) unfolding store_ok_def by blast
qed

text \<open>
  \<^bold>\<open>C26\<close>. \<^verbatim>\<open>event_store_add\<close> implements the abstract session: as long as memory can be had,
  every call succeeds and does to the log and the process records what \<open>spec_report\<close> does,
  reports the event accepted exactly if the specification logs it, and hands it back as logged.
\<close>

theorem store_add_refines_session:
  assumes "unlimited A" and "store_ok s" and "room 1 (session_of s)"
  shows "\<exists>acc s' e'. store_add A s e = Some (True, acc, s', e') \<and> store_ok s' \<and>
    spec_report (session_of s) e = (session_of s', if acc then Some e' else None)"
  using assms by (rule store_add_session)

lemma empty_store_ok: "store_ok empty_store"
  using empty_store_wf by (simp add: store_ok_def counters_exact_def example_simps)

lemma ample_memory_unlimited: "unlimited ample_memory"
  by (simp add: unlimited_def ample_memory_def)

lemma empty_store_room: "room 1 (session_of empty_store)"
  by (simp add: room_def session_of_def example_simps)

theorem store_add_refines_session_witness:
  "\<exists>acc s' e'. store_add ample_memory empty_store start_event = Some (True, acc, s', e') \<and>
     spec_report (session_of empty_store) start_event = (session_of s', if acc then Some e' else None)"
  using store_add_refines_session [OF ample_memory_unlimited empty_store_ok empty_store_room, of start_event] by blast

end
