(* ===== verification/TG_Snapshot.thy ===== *)
theory TG_Snapshot
  imports TG_Queue "HOL-Library.Multiset"
begin

text \<open>
  What the polling monitors share: three-way comparators and the C library's \<^verbatim>\<open>qsort\<close> and
  \<^verbatim>\<open>bsearch\<close> over them, the difference of two snapshots, and pushing the resulting events.
\<close>

section \<open>Comparators\<close>

definition sorted_by :: "('a \<Rightarrow> 'a \<Rightarrow> int) \<Rightarrow> 'a list \<Rightarrow> bool" where
  "sorted_by cmp xs = sorted_wrt (\<lambda>a b. cmp a b \<le> 0) xs"

text \<open>The C standard's promise: the same elements, in non-decreasing order.\<close>

definition qsort_ok :: "('a \<Rightarrow> 'a \<Rightarrow> int) \<Rightarrow> ('a list \<Rightarrow> 'a list) \<Rightarrow> bool" where
  "qsort_ok cmp f \<longleftrightarrow> (\<forall>xs. mset (f xs) = mset xs \<and> sorted_by cmp (f xs))"

text \<open>In a sorted array \<^verbatim>\<open>bsearch\<close> finds a matching element exactly if there is one.\<close>

definition bsearch_ok :: "('a \<Rightarrow> 'a \<Rightarrow> int) \<Rightarrow> ('a \<Rightarrow> 'a list \<Rightarrow> nat option) \<Rightarrow> bool" where
  "bsearch_ok cmp f \<longleftrightarrow>
     (\<forall>key xs. sorted_by cmp xs \<longrightarrow>
        (case f key xs of
           Some i \<Rightarrow> i < length xs \<and> cmp key (xs ! i) = 0
         | None \<Rightarrow> \<forall>x \<in> set xs. cmp key x \<noteq> 0))"

text \<open>An insertion sort and a linear search that keep these promises, for the witnesses.\<close>

fun insert_by :: "('a \<Rightarrow> 'a \<Rightarrow> int) \<Rightarrow> 'a \<Rightarrow> 'a list \<Rightarrow> 'a list" where
  "insert_by cmp x [] = [x]"
| "insert_by cmp x (y # ys) = (if cmp x y \<le> 0 then x # y # ys else y # insert_by cmp x ys)"

definition sort_by :: "('a \<Rightarrow> 'a \<Rightarrow> int) \<Rightarrow> 'a list \<Rightarrow> 'a list" where
  "sort_by cmp xs = foldr (insert_by cmp) xs []"

fun search_by :: "('a \<Rightarrow> 'a \<Rightarrow> int) \<Rightarrow> 'a \<Rightarrow> 'a list \<Rightarrow> nat option" where
  "search_by cmp key [] = None"
| "search_by cmp key (x # xs) = (if cmp key x = 0 then Some 0 else map_option Suc (search_by cmp key xs))"

lemma mset_insert_by [simp]: "mset (insert_by cmp x xs) = add_mset x (mset xs)"
  by (induction xs) auto

lemma mset_sort_by [simp]: "mset (sort_by cmp xs) = mset xs"
  by (induction xs) (auto simp: sort_by_def)

lemma search_by_ok: "bsearch_ok cmp (search_by cmp)"
proof -
  have "case search_by cmp key xs of Some i \<Rightarrow> i < length xs \<and> cmp key (xs ! i) = 0
      | None \<Rightarrow> \<forall>x \<in> set xs. cmp key x \<noteq> 0" for key xs
    by (induction xs) (auto split: option.splits)
  then show ?thesis by (simp add: bsearch_ok_def)
qed

lemma qsort_okD:
  assumes "qsort_ok cmp f"
  shows "mset (f xs) = mset xs" and "set (f xs) = set xs" and "length (f xs) = length xs" and "sorted_by cmp (f xs)"
  using assms by (simp_all add: qsort_ok_def) (metis set_mset_mset, metis size_mset)

lemma bsearch_found: "bsearch_ok cmp f \<Longrightarrow> sorted_by cmp xs \<Longrightarrow> f key xs \<noteq> None \<longleftrightarrow> (\<exists>x \<in> set xs. cmp key x = 0)"
  by (fastforce simp: bsearch_ok_def split: option.splits dest: spec [of _ key])

text \<open>
  The contract of a comparison function: the sign of a total preorder. It is what \<^verbatim>\<open>qsort\<close> needs
  to sort at all.
\<close>

locale comparator =
  fixes cmp :: "'a \<Rightarrow> 'a \<Rightarrow> int"
  assumes refl: "cmp a a = 0"
    and antisym: "cmp a b \<le> 0 \<longleftrightarrow> 0 \<le> cmp b a"
    and trans: "cmp a b \<le> 0 \<Longrightarrow> cmp b c \<le> 0 \<Longrightarrow> cmp a c \<le> 0"
begin

lemma total: "cmp a b \<le> 0 \<or> cmp b a \<le> 0"
  using antisym [of a b] by linarith

lemma equal_sym: "cmp a b = 0 \<Longrightarrow> cmp b a = 0"
  using antisym [of a b] antisym [of b a] by linarith

lemma insert_by_sorted: "sorted_by cmp xs \<Longrightarrow> sorted_by cmp (insert_by cmp x xs)"
proof (induction xs)
  case (Cons y ys)
  show ?case
  proof (cases "cmp x y \<le> 0")
    case True
    then show ?thesis using Cons.prems trans by (auto simp: sorted_by_def)
  next
    case False
    then have "cmp y x \<le> 0" using total by blast
    moreover have "set (insert_by cmp x ys) = insert x (set ys)"
      by (metis mset_insert_by set_mset_add_mset_insert set_mset_mset)
    ultimately show ?thesis using Cons False by (auto simp: sorted_by_def)
  qed
qed (simp add: sorted_by_def)

lemma sort_by_ok: "qsort_ok cmp (sort_by cmp)"
proof -
  have "sorted_by cmp (sort_by cmp xs)" for xs
    by (induction xs) (auto simp: sort_by_def insert_by_sorted, simp add: sorted_by_def)
  then show ?thesis by (simp add: qsort_ok_def)
qed

end

text \<open>
  The comparators of the sources compare field after field. Each field refines a comparator, and
  two values compare equal exactly if all the compared fields agree.
\<close>

lemma comparator_constant: "comparator (\<lambda>a b. 0)"
  by unfold_locales auto

lemma comparator_field:
  fixes f :: "'a \<Rightarrow> 'b :: linorder"
  assumes "comparator rest"
  shows "comparator (\<lambda>a b. if f a < f b then - 1 else if f a > f b then 1 else rest a b)"
proof
  show "(if f a < f a then - 1 else if f a > f a then 1 else rest a a) = 0" for a
    using comparator.refl [OF assms] by simp
  show "(if f a < f b then - 1 else if f a > f b then 1 else rest a b) \<le> 0 \<longleftrightarrow>
      0 \<le> (if f b < f a then - 1 else if f b > f a then 1 else rest b a)" for a b
    using comparator.antisym [OF assms, of a b] by auto
  show "(if f a < f c then - 1 else if f a > f c then 1 else rest a c) \<le> 0"
    if "(if f a < f b then - 1 else if f a > f b then 1 else rest a b) \<le> 0"
      "(if f b < f c then - 1 else if f b > f c then 1 else rest b c) \<le> 0" for a b c
    using that comparator.trans [OF assms, of a b c] by (auto split: if_splits)
qed

text \<open>Other ways to build a comparator from comparators.\<close>

lemma comparator_if: "comparator c \<Longrightarrow> comparator d \<Longrightarrow> comparator (\<lambda>a b. if P then c a b else d a b)"
  by (cases P) simp_all

lemma comparator_flip: "comparator c \<Longrightarrow> comparator (\<lambda>a b. c b a)"
  unfolding comparator_def by metis

lemma comparator_negate:
  assumes "comparator c"
  shows "comparator (\<lambda>a b. - c a b)"
proof
  show "- c a a = 0" for a using comparator.refl [OF assms] by simp
  show "- c a b \<le> 0 \<longleftrightarrow> 0 \<le> - c b a" for a b using comparator.antisym [OF assms, of b a] by simp
  show "- c a b \<le> 0 \<Longrightarrow> - c b d \<le> 0 \<Longrightarrow> - c a d \<le> 0" for a b d
    using comparator.antisym [OF assms] comparator.trans [OF assms, of d b a] by simp
qed

lemma comparator_then:
  assumes "comparator c" and "comparator d"
  shows "comparator (\<lambda>a b. if c a b = 0 then d a b else c a b)"
proof
  note c = comparator.antisym [OF assms(1)] and ct = comparator.trans [OF assms(1)]
  note d = comparator.antisym [OF assms(2)] and dt = comparator.trans [OF assms(2)]
  show "(if c a a = 0 then d a a else c a a) = 0" for a
    using comparator.refl [OF assms(1)] comparator.refl [OF assms(2)] by simp
  show "(if c a b = 0 then d a b else c a b) \<le> 0 \<longleftrightarrow> 0 \<le> (if c b a = 0 then d b a else c b a)" for a b
    using c [of a b] c [of b a] d [of a b] by auto
  show "(if c a e = 0 then d a e else c a e) \<le> 0"
    if "(if c a b = 0 then d a b else c a b) \<le> 0" "(if c b e = 0 then d b e else c b e) \<le> 0" for a b e
  proof -
    have le: "c a b \<le> 0" "c b e \<le> 0" using that by (auto split: if_splits)
    then have ae: "c a e \<le> 0" by (rule ct)
    show ?thesis
    proof (cases "c a e = 0")
      case True
      then have ea: "c e a \<le> 0" using c [of e a] c [of a e] by simp
      have "c b a \<le> 0" "c e b \<le> 0" using ct [OF le(2) ea] ct [OF ea le(1)] by simp_all
      then have "c a b = 0" "c b e = 0" using le c [of a b] c [of b a] c [of b e] c [of e b] by linarith+
      then show ?thesis using that True dt [of a b e] by simp
    qed (use ae in simp)
  qed
qed

lemma field_equal:
  fixes x y :: "'b :: linorder"
  shows "(if x < y then - 1 else if x > y then 1 else (r :: int)) = 0 \<longleftrightarrow> x = y \<and> r = 0"
  by auto

section \<open>Differences of snapshots\<close>

text \<open>
  \<open>same\<close> says when two entries are the same thing seen twice. The entries of a snapshot that the
  other one lacks are what appeared or vanished.
\<close>

definition missing :: "('a \<Rightarrow> 'a \<Rightarrow> bool) \<Rightarrow> 'a list \<Rightarrow> 'a list \<Rightarrow> 'a list" where
  "missing same others xs = filter (\<lambda>x. \<not> list_ex (\<lambda>y. same y x) others) xs"

locale snapshot_identity =
  fixes same :: "'a \<Rightarrow> 'a \<Rightarrow> bool"
  assumes same_refl: "same x x" and same_sym: "same x y \<Longrightarrow> same y x"
begin

lemma nothing_missing: "set xs \<subseteq> set others \<Longrightarrow> missing same others xs = []"
  using same_refl by (force simp: missing_def filter_empty_conv list_ex_iff)

text \<open>What is in both snapshots neither appears nor vanishes.\<close>

lemma persisting:
  assumes "x \<in> set xs" and "y \<in> set ys" and "same x y"
  shows "x \<notin> set (missing same ys xs)" and "y \<notin> set (missing same xs ys)"
  using assms same_sym by (auto simp: missing_def list_ex_iff)

lemma missing_iff: "x \<in> set (missing same ys xs) \<longleftrightarrow> x \<in> set xs \<and> (\<forall>y \<in> set ys. \<not> same x y)"
  using same_sym by (auto simp: missing_def list_ex_iff)

end

section \<open>Pushing the events of a poll\<close>

text \<open>
  The monitors ignore the result of \<^verbatim>\<open>push_event\<close>. \<open>M\<close> is \<^verbatim>\<open>malloc\<close>: the address of a new node, or
  \<open>None\<close>; it never returns an allocated one.
\<close>

definition malloc_fresh :: "(node_heap \<Rightarrow> nat option) \<Rightarrow> bool" where
  "malloc_fresh M \<longleftrightarrow> (\<forall>h n. M h = Some n \<longrightarrow> n \<notin> dom h)"

definition emit_event :: "(node_heap \<Rightarrow> nat option) \<Rightarrow> TraceGlassEvent \<Rightarrow> node_heap \<times> EventQueue \<Rightarrow> (node_heap \<times> EventQueue) option" where
  "emit_event M e s =
     (case push_event (fst s) (Some (snd s)) (Some e) (M (fst s)) of
        Some (_, _, h', Some q') \<Rightarrow> Some (h', q')
      | _ \<Rightarrow> None)"

fun emit_events :: "(node_heap \<Rightarrow> nat option) \<Rightarrow> TraceGlassEvent list \<Rightarrow> node_heap \<times> EventQueue \<Rightarrow> (node_heap \<times> EventQueue) option" where
  "emit_events M [] s = Some s"
| "emit_events M (e # es) s = do { s' \<leftarrow> emit_event M e s; emit_events M es s' }"

lemma emit_event_holds:
  assumes "malloc_fresh M" and "holds s es"
  shows "\<exists>s'. emit_event M e s = Some s' \<and> holds s' (if M (fst s) = None then es else es @ [e])"
proof (cases "M (fst s)")
  case None
  then show ?thesis using assms(2) by (cases s) (simp add: emit_event_def push_event_def holds.simps)
next
  case (Some n)
  then have n: "n \<notin> dom (fst s)" using assms(1) by (simp add: malloc_fresh_def)
  obtain h q where s: "s = (h, q)" by (cases s)
  obtain h' q' where p: "push_locked (h(n \<mapsto> \<lparr>node_event = e, node_next = None\<rparr>)) q n
      = Some (h', q', \<not> q_pending q)" "holds (h', q') (es @ [e])"
    using push_locked_holds [of h q es n e] assms(2) n s by auto
  moreover have "q_initialized q" using assms(2) s by (simp add: holds.simps)
  ultimately show ?thesis using s Some by (simp add: emit_event_def push_event_def)
qed

text \<open>
  An allocator that always finds a node, as long as only finitely many are allocated (which is the
  case in every heap a queue can have).
\<close>

definition malloc_ample :: "(node_heap \<Rightarrow> nat option) \<Rightarrow> bool" where
  "malloc_ample M \<longleftrightarrow> (\<forall>h. finite (dom h) \<longrightarrow> M h \<noteq> None)"

lemma holds_finite: "holds s es \<Longrightarrow> finite (dom (fst s))"
proof -
  assume h: "holds s es"
  obtain heap q where s: "s = (heap, q)" by (cases s)
  with h obtain as where "set as = dom heap" by (auto simp: holds.simps)
  then show ?thesis using s by (metis List.finite_set fst_conv)
qed

text \<open>
  Every event whose node could be allocated is queued, in order; without allocation failures all
  of them are.
\<close>

definition delivered_part :: "(node_heap \<Rightarrow> nat option) \<Rightarrow> TraceGlassEvent list \<Rightarrow> TraceGlassEvent list \<Rightarrow> bool" where
  "delivered_part M kept events \<longleftrightarrow> subseq kept events \<and> (malloc_ample M \<longrightarrow> kept = events)"

lemma emit_events_hold:
  assumes "malloc_fresh M" and "holds s es"
  shows "\<exists>s' kept. emit_events M new s = Some s' \<and> holds s' (es @ kept) \<and> delivered_part M kept new"
  using assms(2)
proof (induction new arbitrary: s es)
  case Nil
  then show ?case by (intro exI [of _ s] exI [of _ "[]"]) (simp add: delivered_part_def)
next
  case (Cons e new)
  obtain s1 where s1: "emit_event M e s = Some s1" "holds s1 (if M (fst s) = None then es else es @ [e])"
    using emit_event_holds [OF assms(1) Cons.prems] by blast
  from Cons.IH [OF s1(2)] obtain s' kept where k: "emit_events M new s1 = Some s'"
      "holds s' ((if M (fst s) = None then es else es @ [e]) @ kept)" "delivered_part M kept new" by blast
  show ?case
  proof (cases "M (fst s) = None")
    case True
    then have "\<not> malloc_ample M" using holds_finite [OF Cons.prems] by (auto simp: malloc_ample_def)
    then have "delivered_part M kept (e # new)" using k(3) by (auto simp: delivered_part_def)
    then show ?thesis using s1(1) k True by auto
  next
    case False
    then have "delivered_part M (e # kept) (e # new)" using k(3) by (auto simp: delivered_part_def)
    moreover have "holds s' (es @ e # kept)" using k(2) False by simp
    ultimately show ?thesis using s1(1) k(1) by (intro exI [of _ s'] exI [of _ "e # kept"]) simp
  qed
qed

text \<open>An allocator of two nodes, for the witnesses.\<close>

definition two_slots :: "node_heap \<Rightarrow> nat option" where
  "two_slots h = (if h 3 = None then Some 3 else if h 5 = None then Some 5 else None)"

lemma two_slots_fresh: "malloc_fresh two_slots"
  by (auto simp: malloc_fresh_def two_slots_def)

text \<open>An allocator that never runs out: it takes the address after the largest one in use.\<close>

definition next_address :: "node_heap \<Rightarrow> nat option" where
  "next_address h = (let n = Suc (Max (insert 0 (dom h))) in if h n = None then Some n else None)"

lemma next_address_fresh: "malloc_fresh next_address"
  by (auto simp: malloc_fresh_def next_address_def Let_def split: if_splits)

lemma next_address_ample: "malloc_ample next_address"
proof -
  have "h (Suc (Max (insert 0 (dom h)))) = None" if "finite (dom h)" for h :: node_heap
  proof (rule ccontr)
    assume "h (Suc (Max (insert 0 (dom h)))) \<noteq> None"
    then have "Suc (Max (insert 0 (dom h))) \<le> Max (insert 0 (dom h))"
      using that by (intro Max_ge) auto
    then show False by simp
  qed
  then show ?thesis by (simp add: malloc_ample_def next_address_def Let_def)
qed

lemma next_address_delivers: "delivered_part next_address kept new \<longleftrightarrow> kept = new"
  by (auto simp: delivered_part_def next_address_ample)

end
