(* ===== verification/TG_Rows.thy ===== *)
theory TG_Rows
  imports TG_Session TG_Snapshot
begin

text \<open>
  \<^verbatim>\<open>src/gui.c\<close>, the rows of the event lists: the filters that decide which events are shown, the
  texts of a row, and the comparison function the lists are sorted with. A list control is the
  list of its rows, each with the value of \<^verbatim>\<open>lParam\<close> (the event's index in the store) and the
  texts of its columns; \<^verbatim>\<open>ListView_InsertItem\<close> and \<^verbatim>\<open>ListView_SortItems\<close> are parameters.
\<close>

section \<open>Data\<close>

datatype GuiView = VIEW_OVERVIEW | VIEW_PROCESSES | VIEW_NETWORK | VIEW_TIMELINE | VIEW_ALERTS

record SortState =
  so_column :: int
  so_ascending :: bool
  so_active :: bool
  so_view :: GuiView

record list_row =
  row_param :: u64
  row_cells :: "wstr list"

text \<open>Whether an item can be inserted, and the control's sort with a comparison of two \<^verbatim>\<open>lParam\<close> values.\<close>

record list_api =
  ListView_InsertItem :: "list_row list \<Rightarrow> bool"
  ListView_SortItems :: "(u64 \<Rightarrow> u64 \<Rightarrow> int) \<Rightarrow> list_row list \<Rightarrow> list_row list"

text \<open>
  Documented: sorting a list control moves its items and loses none. That an item can always be
  inserted is an assumption: the code goes on without the row otherwise.
\<close>

definition list_api_ok :: "list_api \<Rightarrow> bool" where
  "list_api_ok L \<longleftrightarrow> (\<forall>rows. ListView_InsertItem L rows) \<and> (\<forall>cmp rows. mset (ListView_SortItems L cmp rows) = mset rows)"

section \<open>Filters\<close>

definition format_event_time :: "text_api \<Rightarrow> systemtime \<Rightarrow> nat \<Rightarrow> wstr" where
  "format_event_time W t n =
     cch_printf W n ''%02u:%02u:%02u'' [FNum (unat (wHour t)), FNum (unat (wMinute t)), FNum (unat (wSecond t))]"

text \<open>\<open>search\<close> is the text of the search box; \<^verbatim>\<open>GetWindowTextW\<close> truncates it to the buffer.\<close>

definition event_matches_search :: "text_api \<Rightarrow> wstr \<Rightarrow> TraceGlassEvent \<Rightarrow> bool" where
  "event_matches_search W search e =
     (let filter_text = wcopy 256 search;
          numeric_fields = cch_printf W 96 ''%lu %lu %u %u''
            [FNum (unat (pid (ev_process e))), FNum (unat (pid (ev_parent e))),
             FNum (unat (ev_local_port e)), FNum (unat (ev_remote_port e))];
          contains = (\<lambda>s. string_contains_insensitive W (Some s) (Some filter_text))
      in if filter_text = [] then True
         else contains (ev_process_name e) \<or> contains (ev_parent_name e) \<or>
           contains (ev_executable_path e) \<or> contains (ev_details e) \<or>
           contains (ev_remote_address e) \<or> contains (ev_local_address e) \<or>
           contains (ev_protocol e) \<or> contains (ev_network_state e) \<or>
           contains (ev_rule_name e) \<or> contains (event_type_name (ev_type e)) \<or>
           contains (event_category_name (ev_type e)) \<or> contains numeric_fields)"

definition CB_ERR :: int where "CB_ERR = -1"

text \<open>\<open>selected\<close> is the answer to \<^verbatim>\<open>CB_GETCURSEL\<close>.\<close>

definition event_matches_type_filter :: "int \<Rightarrow> TraceGlassEvent \<Rightarrow> bool" where
  "event_matches_type_filter selected e =
     (if selected \<le> 0 \<or> selected = CB_ERR then True
      else if selected = 1 then ev_type e = EVENT_PROCESS_START \<or> ev_type e = EVENT_PROCESS_STOP
      else if selected = 2 then ev_type e = EVENT_NETWORK
      else if selected = 3 then ev_type e = EVENT_ALERT
      else True)"

section \<open>Adding rows\<close>

text \<open>The list afterwards and the row's index, \<open>None\<close> for the result -1.\<close>

definition insert_list_item :: "list_api \<Rightarrow> list_row list \<Rightarrow> wstr \<Rightarrow> u64 \<Rightarrow> list_row list \<times> nat option" where
  "insert_list_item L rows first_text event_index =
     (if ListView_InsertItem L rows
      then (rows @ [\<lparr>row_param = event_index, row_cells = [first_text]\<rparr>], Some (length rows))
      else (rows, None))"

text \<open>The texts of the columns after the first, set from left to right.\<close>

fun set_item_texts :: "list_row list \<Rightarrow> nat \<Rightarrow> wstr list \<Rightarrow> list_row list" where
  "set_item_texts rows row [] = rows"
| "set_item_texts rows row (s # ss) =
     set_item_texts (rows[row := (rows ! row)\<lparr>row_cells := row_cells (rows ! row) @ [s]\<rparr>]) row ss"

definition add_row :: "list_api \<Rightarrow> list_row list \<Rightarrow> wstr list \<Rightarrow> u64 \<Rightarrow> list_row list" where
  "add_row L rows cells event_index =
     (case insert_list_item L rows (hd cells) event_index of
        (rows', None) \<Rightarrow> rows'
      | (rows', Some row) \<Rightarrow> set_item_texts rows' row (tl cells))"

definition timeline_cells :: "text_api \<Rightarrow> TraceGlassEvent \<Rightarrow> wstr list" where
  "timeline_cells W e =
     [format_event_time W (ev_timestamp e) 32, event_category_name (ev_type e), ev_process_name e,
      cch_printf W 32 ''%lu'' [FNum (unat (pid (ev_process e)))], ev_details e]"

definition network_cells :: "text_api \<Rightarrow> TraceGlassEvent \<Rightarrow> wstr list" where
  "network_cells W e =
     [format_event_time W (ev_timestamp e) 32, ev_process_name e,
      cch_printf W 32 ''%lu'' [FNum (unat (pid (ev_process e)))], ev_protocol e,
      cch_printf W 96 ''%s:%u'' [FStr (ev_local_address e), FNum (unat (ev_local_port e))],
      cch_printf W 96 ''%s:%u'' [FStr (ev_remote_address e), FNum (unat (ev_remote_port e))],
      ev_network_state e]"

definition alert_cells :: "text_api \<Rightarrow> TraceGlassEvent \<Rightarrow> wstr list" where
  "alert_cells W e =
     [format_event_time W (ev_timestamp e) 32, alert_severity_name (ev_severity e), ev_rule_name e,
      ev_process_name e, ev_details e]"

definition add_timeline_row ::
  "list_api \<Rightarrow> text_api \<Rightarrow> wstr \<Rightarrow> int \<Rightarrow> TraceGlassEvent \<Rightarrow> u64 \<Rightarrow> list_row list \<Rightarrow> list_row list" where
  "add_timeline_row L W search selected e event_index rows =
     (if \<not> event_matches_search W search e \<or> \<not> event_matches_type_filter selected e then rows
      else add_row L rows (timeline_cells W e) event_index)"

definition add_network_row ::
  "list_api \<Rightarrow> text_api \<Rightarrow> wstr \<Rightarrow> TraceGlassEvent \<Rightarrow> u64 \<Rightarrow> list_row list \<Rightarrow> list_row list" where
  "add_network_row L W search e event_index rows =
     (if \<not> event_matches_search W search e then rows else add_row L rows (network_cells W e) event_index)"

definition add_alert_row ::
  "list_api \<Rightarrow> text_api \<Rightarrow> wstr \<Rightarrow> TraceGlassEvent \<Rightarrow> u64 \<Rightarrow> list_row list \<Rightarrow> list_row list" where
  "add_alert_row L W search e event_index rows =
     (if \<not> event_matches_search W search e then rows else add_row L rows (alert_cells W e) event_index)"

lemma set_item_texts_last:
  "set_item_texts (rows @ [r]) (length rows) ss = rows @ [r\<lparr>row_cells := row_cells r @ ss\<rparr>]"
  by (induction ss arbitrary: r) simp_all

lemma add_row_eq:
  "list_api_ok L \<Longrightarrow> cells \<noteq> [] \<Longrightarrow>
   add_row L rows cells event_index = rows @ [\<lparr>row_param = event_index, row_cells = cells\<rparr>]"
  by (cases cells) (simp_all add: add_row_def insert_list_item_def list_api_ok_def set_item_texts_last)

section \<open>Sorting\<close>

definition compare_text :: "text_api \<Rightarrow> wstr option \<Rightarrow> wstr option \<Rightarrow> int" where
  "compare_text W left right =
     (let result = CompareStringOrdinal W (case left of Some s \<Rightarrow> s | None \<Rightarrow> [])
                                          (case right of Some s \<Rightarrow> s | None \<Rightarrow> [])
      in if result = CSTR_LESS_THAN then - 1 else if result = CSTR_GREATER_THAN then 1 else 0)"

definition compare_numbers :: "u64 \<Rightarrow> u64 \<Rightarrow> int" where
  "compare_numbers left right = (if left < right then - 1 else if left > right then 1 else 0)"

definition compare_event_times :: "time_api \<Rightarrow> TraceGlassEvent \<Rightarrow> TraceGlassEvent \<Rightarrow> int" where
  "compare_event_times T left right =
     (case (SystemTimeToFileTime T (ev_timestamp left), SystemTimeToFileTime T (ev_timestamp right)) of
        (Some left_time, Some right_time) \<Rightarrow>
          (let result = compare_numbers (filetime_to_u64 left_time) (filetime_to_u64 right_time)
           in if result = 0 then compare_numbers (ev_sequence left) (ev_sequence right) else result)
      | _ \<Rightarrow> compare_numbers (ev_sequence left) (ev_sequence right))"

definition compare_endpoints :: "text_api \<Rightarrow> bool \<Rightarrow> TraceGlassEvent \<Rightarrow> TraceGlassEvent \<Rightarrow> int" where
  "compare_endpoints W remote left right =
     (let result = compare_text W
            (Some (if remote then ev_remote_address left else ev_local_address left))
            (Some (if remote then ev_remote_address right else ev_local_address right))
      in if result = 0
         then compare_numbers (ucast (if remote then ev_remote_port left else ev_local_port left))
                              (ucast (if remote then ev_remote_port right else ev_local_port right))
         else result)"

text \<open>The comparison by the clicked column alone; columns without one compare equal.\<close>

definition compare_column :: "text_api \<Rightarrow> time_api \<Rightarrow> GuiView \<Rightarrow> int \<Rightarrow> TraceGlassEvent \<Rightarrow> TraceGlassEvent \<Rightarrow> int" where
  "compare_column W T view column left right =
     (let txt = (\<lambda>field. compare_text W (Some (field left)) (Some (field right)));
          pids = compare_numbers (ucast (pid (ev_process left))) (ucast (pid (ev_process right)))
      in case view of
        VIEW_TIMELINE \<Rightarrow>
          (if column = 0 then compare_event_times T left right
           else if column = 1 then txt (\<lambda>e. event_category_name (ev_type e))
           else if column = 2 then txt ev_process_name
           else if column = 3 then pids
           else if column = 4 then txt ev_details else 0)
      | VIEW_NETWORK \<Rightarrow>
          (if column = 0 then compare_event_times T left right
           else if column = 1 then txt ev_process_name
           else if column = 2 then pids
           else if column = 3 then txt ev_protocol
           else if column = 4 then compare_endpoints W False left right
           else if column = 5 then compare_endpoints W True left right
           else if column = 6 then txt ev_network_state else 0)
      | VIEW_ALERTS \<Rightarrow>
          (if column = 0 then compare_event_times T left right
           else if column = 1 then compare_numbers (of_nat (severity_code (ev_severity left))) (of_nat (severity_code (ev_severity right)))
           else if column = 2 then txt ev_rule_name
           else if column = 3 then txt ev_process_name
           else if column = 4 then txt ev_details else 0)
      | _ \<Rightarrow> 0)"

definition compare_event_items ::
  "text_api \<Rightarrow> time_api \<Rightarrow> EventStore \<Rightarrow> SortState option \<Rightarrow> u64 \<Rightarrow> u64 \<Rightarrow> int" where
  "compare_event_items W T s order left_index right_index =
     (case order of
        None \<Rightarrow> 0
      | Some so \<Rightarrow>
          if left_index \<ge> st_event_count s \<or> right_index \<ge> st_event_count s then 0
          else (let left = st_events s ! unat left_index;
                    right = st_events s ! unat right_index;
                    column = compare_column W T (so_view so) (so_column so) left right;
                    result = (if column = 0 then compare_numbers (ev_sequence left) (ev_sequence right) else column)
                in if so_ascending so then result else - result))"

section \<open>The order of the events\<close>

text \<open>Documented: \<^verbatim>\<open>CompareStringOrdinal\<close> orders strings.\<close>

definition ordinal_ok :: "text_api \<Rightarrow> bool" where
  "ordinal_ok W \<longleftrightarrow> comparator (\<lambda>a b. CompareStringOrdinal W a b - CSTR_EQUAL) \<and>
     (\<forall>a b. CompareStringOrdinal W a b \<in> {CSTR_LESS_THAN, CSTR_EQUAL, CSTR_GREATER_THAN})"

lemma numbers_comparator: "comparator (\<lambda>a b. compare_numbers (f a) (f b))"
  unfolding compare_numbers_def by (intro comparator_field comparator_constant)

lemma text_comparator:
  assumes "ordinal_ok W"
  shows "comparator (\<lambda>a b. compare_text W (Some (f a)) (Some (f b)))"
proof -
  have eq: "compare_text W (Some s) (Some t) = CompareStringOrdinal W s t - CSTR_EQUAL" for s t
    using assms by (auto simp: compare_text_def ordinal_ok_def Let_def
        CSTR_LESS_THAN_def CSTR_EQUAL_def CSTR_GREATER_THAN_def dest: spec [of _ s] spec [of _ t])
  have "comparator (\<lambda>a b. CompareStringOrdinal W a b - CSTR_EQUAL)"
    using assms by (simp add: ordinal_ok_def)
  then show ?thesis
    unfolding eq comparator_def by meson
qed

text \<open>A clock that converts every timestamp; it agrees with \<open>T\<close> wherever that converts.\<close>

definition total_clock :: "time_api \<Rightarrow> time_api" where
  "total_clock T = T\<lparr>SystemTimeToFileTime := (\<lambda>t. Some (case SystemTimeToFileTime T t of
     Some f \<Rightarrow> f | None \<Rightarrow> \<lparr>dwLowDateTime = 0, dwHighDateTime = 0\<rparr>))\<rparr>"

lemma times_comparator: "comparator (compare_event_times (total_clock T))"
proof -
  let ?f = "\<lambda>e. filetime_to_u64 (the (SystemTimeToFileTime (total_clock T) (ev_timestamp e)))"
  have eq: "compare_event_times (total_clock T) =
      (\<lambda>a b. if compare_numbers (?f a) (?f b) = 0 then compare_numbers (ev_sequence a) (ev_sequence b)
             else compare_numbers (?f a) (?f b))"
    by (simp add: compare_event_times_def total_clock_def fun_eq_iff Let_def)
  show ?thesis
    unfolding eq by (rule comparator_then [OF numbers_comparator numbers_comparator])
qed

lemma endpoints_comparator:
  assumes "ordinal_ok W"
  shows "comparator (compare_endpoints W remote)"
  unfolding compare_endpoints_def [abs_def] Let_def
  by (intro comparator_then text_comparator [OF assms] numbers_comparator)

lemma column_comparator:
  assumes "ordinal_ok W"
  shows "comparator (compare_column W (total_clock T) view column)"
  unfolding compare_column_def [abs_def] Let_def
  by (cases view; simp only: GuiView.case)
    (intro comparator_if comparator_constant times_comparator numbers_comparator
      text_comparator [OF assms] endpoints_comparator [OF assms])+

text \<open>An assumption: the timestamps are valid times. The code compares sequence numbers instead when one is not.\<close>

definition timestamps_convert :: "time_api \<Rightarrow> EventStore \<Rightarrow> bool" where
  "timestamps_convert T s \<longleftrightarrow> (\<forall>e \<in> set (st_events s). SystemTimeToFileTime T (ev_timestamp e) \<noteq> None)"

lemma column_total_clock:
  assumes "SystemTimeToFileTime T (ev_timestamp a) \<noteq> None" and "SystemTimeToFileTime T (ev_timestamp b) \<noteq> None"
  shows "compare_column W T view column a b = compare_column W (total_clock T) view column a b"
proof -
  have "compare_event_times T a b = compare_event_times (total_clock T) a b"
    using assms by (auto simp: compare_event_times_def total_clock_def)
  then show ?thesis by (simp add: compare_column_def Let_def split: GuiView.split)
qed

text \<open>The order on events that the comparison of two indices amounts to.\<close>

definition event_order :: "text_api \<Rightarrow> time_api \<Rightarrow> SortState \<Rightarrow> TraceGlassEvent \<Rightarrow> TraceGlassEvent \<Rightarrow> int" where
  "event_order W T so a b =
     (if so_ascending so
      then (if compare_column W T (so_view so) (so_column so) a b = 0 then compare_numbers (ev_sequence a) (ev_sequence b)
            else compare_column W T (so_view so) (so_column so) a b)
      else - (if compare_column W T (so_view so) (so_column so) a b = 0 then compare_numbers (ev_sequence a) (ev_sequence b)
            else compare_column W T (so_view so) (so_column so) a b))"

lemma event_order_comparator: "ordinal_ok W \<Longrightarrow> comparator (event_order W (total_clock T) so)"
  unfolding event_order_def [abs_def]
  by (intro comparator_if comparator_negate comparator_then column_comparator numbers_comparator)

lemma event_order_eq_0: "event_order W T so a b = 0 \<Longrightarrow> ev_sequence a = ev_sequence b"
  by (auto simp: event_order_def compare_numbers_def split: if_splits)

lemma compare_items_order:
  assumes "store_wf s" and "timestamps_convert T s" and "i < st_event_count s" and "j < st_event_count s"
  shows "compare_event_items W T s (Some so) i j =
    event_order W (total_clock T) so (st_events s ! unat i) (st_events s ! unat j)"
proof -
  have "unat i < length (st_events s)" "unat j < length (st_events s)"
    using assms(1,3,4) by (auto simp: store_wf_def word_less_nat_alt)
  then have "SystemTimeToFileTime T (ev_timestamp (st_events s ! unat i)) \<noteq> None"
      "SystemTimeToFileTime T (ev_timestamp (st_events s ! unat j)) \<noteq> None"
    using assms(2) unfolding timestamps_convert_def by simp_all
  then show ?thesis
    using assms(3,4)
    by (simp add: compare_event_items_def event_order_def column_total_clock Let_def not_le [symmetric])
qed

lemma sequences_distinct:
  assumes "store_wf s" and "i < length (st_events s)" and "j < length (st_events s)"
    and "ev_sequence (st_events s ! i) = ev_sequence (st_events s ! j)"
  shows "i = j"
proof -
  have seq: "unat (ev_sequence (st_events s ! k)) = k + 1" if "k < length (st_events s)" for k
  proof -
    have "map (\<lambda>e. unat (ev_sequence e)) (st_events s) ! k = [1..<length (st_events s) + 1] ! k"
      using assms(1) unfolding store_wf_def by metis
    moreover have "[1..<length (st_events s) + 1] ! k = k + 1"
      using that by (subst nth_upt) simp_all
    ultimately show ?thesis using that by (metis nth_map)
  qed
  show ?thesis
    using arg_cong [OF assms(4), of unat] unfolding seq [OF assms(2)] seq [OF assms(3)] by (rule add_right_imp_eq)
qed

text \<open>
  \<^bold>\<open>C27\<close>. As long as the timestamps are valid times, the lists are sorted, for every view, column and
  direction, by a strict total order on the stored events: comparing twice is consistent, the order is transitive, and two different events
  never compare equal (ties go to the sequence number), so the order of the rows is determined.
\<close>

theorem row_order_is_total:
  assumes "ordinal_ok W" and "store_wf s" and "timestamps_convert T s"
    and "i < st_event_count s" and "j < st_event_count s" and "k < st_event_count s"
  shows "(compare_event_items W T s (Some so) i j = 0 \<longleftrightarrow> i = j) \<and>
    (compare_event_items W T s (Some so) i j \<le> 0 \<longleftrightarrow> 0 \<le> compare_event_items W T s (Some so) j i) \<and>
    (compare_event_items W T s (Some so) i j \<le> 0 \<and> compare_event_items W T s (Some so) j k \<le> 0 \<longrightarrow>
     compare_event_items W T s (Some so) i k \<le> 0)"
proof -
  note c = event_order_comparator [OF assms(1), of T so]
  note eq = compare_items_order [OF assms(2,3)]
  have lens: "unat i < length (st_events s)" "unat j < length (st_events s)"
    using assms(2,4,5) by (auto simp: store_wf_def word_less_nat_alt)
  have "i = j" if "event_order W (total_clock T) so (st_events s ! unat i) (st_events s ! unat j) = 0"
    using sequences_distinct [OF assms(2) lens] event_order_eq_0 [OF that] by (simp add: word_unat_eq_iff)
  then have "event_order W (total_clock T) so (st_events s ! unat i) (st_events s ! unat j) = 0 \<longleftrightarrow> i = j"
    using comparator.refl [OF c] by blast
  then show ?thesis
    using comparator.antisym [OF c] comparator.trans [OF c]
    unfolding eq [OF assms(4,5)] eq [OF assms(5,4)] eq [OF assms(5,6)] eq [OF assms(4,6)] by blast
qed

lemma ordinal_compare_comparator: "comparator (\<lambda>a b. ordinal_compare a b - CSTR_EQUAL)"
proof
  show "ordinal_compare a a - CSTR_EQUAL = 0" for a
    by (induction a) (simp_all add: CSTR_EQUAL_def)
  show "ordinal_compare a b - CSTR_EQUAL \<le> 0 \<longleftrightarrow> 0 \<le> ordinal_compare b a - CSTR_EQUAL" for a b
    by (induction a b rule: ordinal_compare.induct) (auto simp: CSTR_EQUAL_def)
  have "ordinal_compare a b \<le> 2 \<Longrightarrow> ordinal_compare b c \<le> 2 \<Longrightarrow> ordinal_compare a c \<le> 2" for a b c
  proof (induction a b arbitrary: c rule: ordinal_compare.induct)
    case (2 y ys)
    then show ?case by (cases c) auto
  next
    case (4 x xs y ys)
    then show ?case by (cases c) (auto split: if_splits)
  qed auto
  then show "ordinal_compare a b - CSTR_EQUAL \<le> 0 \<Longrightarrow> ordinal_compare b c - CSTR_EQUAL \<le> 0 \<Longrightarrow>
      ordinal_compare a c - CSTR_EQUAL \<le> 0" for a b c
    by (simp add: CSTR_EQUAL_def)
qed

lemma ascii_ordinal_ok: "ordinal_ok ascii_text"
proof -
  have "ordinal_compare a b \<in> {1, 2, 3}" for a b
    by (induction a b rule: ordinal_compare.induct) auto
  then show ?thesis
    using ordinal_compare_comparator
    by (simp add: ordinal_ok_def CSTR_LESS_THAN_def CSTR_EQUAL_def CSTR_GREATER_THAN_def)
qed

text \<open>A clock that maps every time to 0, for the witness.\<close>

definition stopped_clock :: time_api where
  "stopped_clock = \<lparr>FileTimeToLocalFileTime = (\<lambda>f. None), FileTimeToSystemTime = (\<lambda>f. None),
     SystemTimeToTzSpecificLocalTime = (\<lambda>t. None),
     SystemTimeToFileTime = (\<lambda>t. Some \<lparr>dwLowDateTime = 0, dwHighDateTime = 0\<rparr>)\<rparr>"

theorem row_order_is_total_witness:
  "compare_event_items ascii_text stopped_clock stopped_store
     (Some \<lparr>so_column = 2, so_ascending = False, so_active = True, so_view = VIEW_TIMELINE\<rparr>) 0 1 \<noteq> 0"
proof -
  have "store_wf stopped_store" using store_add_wf [OF started_store_wf add_stop_report] .
  moreover have "timestamps_convert stopped_clock stopped_store"
    by (simp add: timestamps_convert_def stopped_clock_def)
  moreover have "(0 :: u64) < st_event_count stopped_store" "(1 :: u64) < st_event_count stopped_store"
    by (simp_all add: stopped_store_def example_simps)
  ultimately show ?thesis
    using row_order_is_total [OF ascii_ordinal_ok, of stopped_store stopped_clock 0 1 1] by auto
qed

end
