(* ===== verification/TG_Details.thy ===== *)
theory TG_Details
  imports TG_Rows
begin

text \<open>
  \<^verbatim>\<open>src/gui.c\<close>, the texts the window composes: the activity line of the overview, the event details
  window, the row copied to the clipboard, and handing a text to the clipboard. Every buffer has the
  capacity the code gives it; the texts are shown to fit.
\<close>

section \<open>Activity lines and rows\<close>

definition activity_format :: "TraceGlassEvent \<Rightarrow> string \<times> fmt_arg list" where
  "activity_format e =
     (let process_args = [FStr (ev_process_name e), FNum (unat (pid (ev_process e)))] in
      case ev_type e of
        EVENT_PROCESS_START \<Rightarrow> (''%s started (PID %lu)'', process_args)
      | EVENT_PROCESS_STOP \<Rightarrow> (''%s stopped (PID %lu)'', process_args)
      | EVENT_NETWORK \<Rightarrow> (''%s owns TCP connection: local %s:%u; remote %s:%u'',
          [FStr (ev_process_name e), FStr (ev_local_address e), FNum (unat (ev_local_port e)),
           FStr (ev_remote_address e), FNum (unat (ev_remote_port e))])
      | _ \<Rightarrow> (''%s: %s'', [FStr (event_category_name (ev_type e)), FStr (ev_details e)]))"

definition format_activity :: "text_api \<Rightarrow> TraceGlassEvent \<Rightarrow> nat \<Rightarrow> wstr" where
  "format_activity W e n = (case activity_format e of (fmt, args) \<Rightarrow> cch_printf W n fmt args)"

text \<open>The list controls of the window, by the global that holds the handle.\<close>

datatype list_control = TimelineList | NetworkList | AlertList | RecentList | RecentAlertList

definition row_format :: "text_api \<Rightarrow> list_control \<Rightarrow> TraceGlassEvent \<Rightarrow> string \<times> fmt_arg list" where
  "row_format W control e =
     (let time_text = format_event_time W (ev_timestamp e) 32;
          TAB = [CHR 0x09]
      in if control = NetworkList then
           (''%s'' @ TAB @ ''%s'' @ TAB @ ''%lu'' @ TAB @ ''%s'' @ TAB @ ''%s:%u'' @ TAB @ ''%s:%u'' @ TAB @ ''%s'',
            [FStr time_text, FStr (ev_process_name e), FNum (unat (pid (ev_process e))), FStr (ev_protocol e),
             FStr (ev_local_address e), FNum (unat (ev_local_port e)),
             FStr (ev_remote_address e), FNum (unat (ev_remote_port e)), FStr (ev_network_state e)])
         else if control = AlertList \<or> control = RecentAlertList then
           (''%s'' @ TAB @ ''%s'' @ TAB @ ''%s'' @ TAB @ ''%s'' @ TAB @ ''%s'',
            [FStr time_text, FStr (alert_severity_name (ev_severity e)), FStr (ev_rule_name e),
             FStr (ev_process_name e), FStr (ev_details e)])
         else if control = RecentList then
           (''%s'' @ TAB @ ''%s'', [FStr time_text, FStr (format_activity W e 1400)])
         else
           (''%s'' @ TAB @ ''%s'' @ TAB @ ''%s'' @ TAB @ ''%lu'' @ TAB @ ''%s'',
            [FStr time_text, FStr (event_category_name (ev_type e)), FStr (ev_process_name e),
             FNum (unat (pid (ev_process e))), FStr (ev_details e)]))"

definition format_event_row :: "text_api \<Rightarrow> list_control \<Rightarrow> TraceGlassEvent \<Rightarrow> nat \<Rightarrow> wstr" where
  "format_event_row W control e n = (case row_format W control e of (fmt, args) \<Rightarrow> cch_printf W n fmt args)"

section \<open>The details window\<close>

text \<open>A fragment that does not fit its own buffer is dropped, otherwise as much of it as fits is appended.\<close>

definition append_format :: "text_api \<Rightarrow> nat \<Rightarrow> string \<times> fmt_arg list \<Rightarrow> wstr \<Rightarrow> wstr" where
  "append_format W buffer_count format buffer =
     (case StringCchPrintfW W 1600 (vformat (fst format) (snd format)) of
        (fragment, True) \<Rightarrow> fst (StringCchCatW W buffer_count buffer fragment)
      | (fragment, False) \<Rightarrow> buffer)"

definition CRLF :: string where "CRLF = [CHR 0x0D, CHR 0x0A]"

definition or_text :: "wstr \<Rightarrow> string \<Rightarrow> fmt_arg" where
  "or_text s other = FStr (if s \<noteq> [] then s else wide other)"

definition header_fragment :: "TraceGlassEvent \<Rightarrow> string \<times> fmt_arg list" where
  "header_fragment e =
     (''Type: %s'' @ CRLF @ ''Time: %04u-%02u-%02u %02u:%02u:%02u.%03u'' @ CRLF @ CRLF,
      [FStr (event_type_name (ev_type e)),
       FNum (unat (wYear (ev_timestamp e))), FNum (unat (wMonth (ev_timestamp e))),
       FNum (unat (wDay (ev_timestamp e))), FNum (unat (wHour (ev_timestamp e))),
       FNum (unat (wMinute (ev_timestamp e))), FNum (unat (wSecond (ev_timestamp e))),
       FNum (unat (wMilliseconds (ev_timestamp e)))])"

definition process_fragment :: "TraceGlassEvent \<Rightarrow> string \<times> fmt_arg list" where
  "process_fragment e =
     (''Process'' @ CRLF @ ''Name: %s'' @ CRLF @ ''PID: %lu'' @ CRLF @ ''Path: %s'' @ CRLF,
      [or_text (ev_process_name e) ''<unknown>'', FNum (unat (pid (ev_process e))),
       or_text (ev_executable_path e) ''<unavailable>''])"

definition parent_fragment :: "TraceGlassEvent \<Rightarrow> string \<times> fmt_arg list" where
  "parent_fragment e =
     (CRLF @ ''Parent'' @ CRLF @ ''Name: %s'' @ CRLF @ ''PID: %lu'' @ CRLF,
      [or_text (ev_parent_name e) ''<unknown>'', FNum (unat (pid (ev_parent e)))])"

definition network_fragment :: "TraceGlassEvent \<Rightarrow> string \<times> fmt_arg list" where
  "network_fragment e =
     (CRLF @ ''Network'' @ CRLF @ ''Protocol: %s'' @ CRLF @ ''Local: %s:%u'' @ CRLF @ ''Remote: %s:%u'' @ CRLF @
        ''State: %s'' @ CRLF,
      [FStr (ev_protocol e), FStr (ev_local_address e), FNum (unat (ev_local_port e)),
       FStr (ev_remote_address e), FNum (unat (ev_remote_port e)), or_text (ev_network_state e) ''<unknown>''])"

definition alert_fragment :: "TraceGlassEvent \<Rightarrow> string \<times> fmt_arg list" where
  "alert_fragment e =
     (CRLF @ ''Alert'' @ CRLF @ ''Severity: %s'' @ CRLF @ ''Rule: %s'' @ CRLF,
      [FStr (alert_severity_name (ev_severity e)), or_text (ev_rule_name e) ''<unspecified>''])"

definition details_fragment :: "TraceGlassEvent \<Rightarrow> string \<times> fmt_arg list" where
  "details_fragment e = (CRLF @ ''Details'' @ CRLF @ ''%s'' @ CRLF, [FStr (ev_details e)])"

definition format_event_details :: "text_api \<Rightarrow> TraceGlassEvent \<Rightarrow> nat \<Rightarrow> wstr" where
  "format_event_details W e n =
     (let b1 = append_format W n (header_fragment e) [];
          b2 = append_format W n (process_fragment e) b1;
          b3 = (if pid (ev_parent e) \<noteq> 0 \<or> ev_parent_name e \<noteq> [] then append_format W n (parent_fragment e) b2 else b2);
          b4 = (if ev_protocol e \<noteq> [] then append_format W n (network_fragment e) b3 else b3);
          b5 = (if ev_type e = EVENT_ALERT then append_format W n (alert_fragment e) b4 else b4)
      in append_format W n (details_fragment e) b5)"

section \<open>The clipboard\<close>

text \<open>
  The Win32 calls and their outcomes; the state is who owns the memory block, whether the clipboard
  is open, and its text. Freeing a block that is not the caller's, or closing a clipboard that is
  not open, is \<open>None\<close>.
\<close>

record clipboard_api =
  GlobalAlloc :: "nat \<Rightarrow> bool"
  GlobalLock :: bool
  OpenClipboard :: bool
  SetClipboardData :: bool

datatype block_owner = NoBlock | OwnedBySelf | OwnedByClipboard | Freed

record clip_state =
  cb_block :: block_owner
  cb_open :: bool
  cb_text :: "wstr option"

definition global_free :: "clip_state \<Rightarrow> clip_state option" where
  "global_free st = (if cb_block st = OwnedBySelf then Some (st\<lparr>cb_block := Freed\<rparr>) else None)"

definition close_clipboard :: "clip_state \<Rightarrow> clip_state option" where
  "close_clipboard st = (if cb_open st then Some (st\<lparr>cb_open := False\<rparr>) else None)"

definition copy_text_to_clipboard ::
  "clipboard_api \<Rightarrow> wstr option \<Rightarrow> clip_state \<Rightarrow> (bool \<times> clip_state) option" where
  "copy_text_to_clipboard C source st =
     (case source of
        None \<Rightarrow> Some (False, st)
      | Some t \<Rightarrow>
          if \<not> GlobalAlloc C ((length t + 1) * 2) then Some (False, st)
          else (let st1 = st\<lparr>cb_block := OwnedBySelf\<rparr> in
            if \<not> GlobalLock C then (do { st2 \<leftarrow> global_free st1; Some (False, st2) })
            else if \<not> OpenClipboard C then (do { st2 \<leftarrow> global_free st1; Some (False, st2) })
            else (let st2 = st1\<lparr>cb_open := True, cb_text := None\<rparr> in
              if \<not> SetClipboardData C then (do {
                st3 \<leftarrow> close_clipboard st2;
                st4 \<leftarrow> global_free st3;
                Some (False, st4) })
              else (do {
                st3 \<leftarrow> close_clipboard (st2\<lparr>cb_block := OwnedByClipboard, cb_text := Some t\<rparr>);
                Some (True, st3) }))))"

lemma clipboard_balanced:
  assumes "\<not> cb_open st" and "cb_block st \<noteq> OwnedBySelf"
  shows "\<exists>ok st'. copy_text_to_clipboard C source st = Some (ok, st') \<and> \<not> cb_open st' \<and>
    cb_block st' \<noteq> OwnedBySelf \<and> (ok \<longrightarrow> source \<noteq> None \<and> cb_text st' = source)"
  using assms
  by (auto simp: copy_text_to_clipboard_def global_free_def close_clipboard_def Let_def split: option.split)

section \<open>Nothing is cut off\<close>

lemma time_text:
  assumes "strsafe_ok W"
  shows "length (format_event_time W t 32) \<le> 31"
proof -
  have "length (format_event_time W t 32) < 32"
    unfolding format_event_time_def by (rule cch_printf_length [OF assms]) simp
  then show ?thesis by simp
qed

lemma event_lengths:
  assumes "event_wf e"
  shows "length (ev_process_name e) \<le> 259" "length (ev_parent_name e) \<le> 259" "length (ev_executable_path e) \<le> 259"
    "length (ev_protocol e) \<le> 15" "length (ev_local_address e) \<le> 63" "length (ev_remote_address e) \<le> 63"
    "length (ev_network_state e) \<le> 31" "length (ev_rule_name e) \<le> 95" "length (ev_details e) \<le> 1023"
  using assms by (simp_all add: event_wf_def str_fits_def array_lengths)

lemma name_lengths:
  "length (event_type_name t) \<le> 13" "length (event_category_name t) \<le> 8" "length (alert_severity_name v) \<le> 6"
  by (simp_all add: event_type_name_def event_category_name_def alert_severity_name_def
      split: EventType.split AlertSeverity.split)

lemma or_text_facts: "arg_size (or_text s t) \<le> max (length s) (length t)" "small_arg (or_text s t)"
  by (simp_all add: or_text_def)

text \<open>The text a format with its arguments denotes, and when a buffer of \<open>n\<close> characters takes it whole.\<close>

definition rendered :: "string \<times> fmt_arg list \<Rightarrow> wstr" where
  "rendered f = vformat (fst f) (snd f)"

definition format_bound :: "string \<times> fmt_arg list \<Rightarrow> nat" where
  "format_bound f = length (fst f) + sum_list (map arg_size (snd f))"

lemma rendered_bound: "\<forall>a \<in> set (snd f). small_arg a \<Longrightarrow> length (rendered f) \<le> format_bound f"
  unfolding rendered_def format_bound_def by (rule vformat_length)

lemma append_whole:
  assumes "strsafe_ok W" and "length (rendered f) < 1600" and "length b + length (rendered f) < n"
  shows "append_format W n f b = b @ rendered f"
  using assms by (simp add: append_format_def strsafe_ok_def rendered_def)

lemma fragment_bounds:
  assumes "event_wf e"
  shows "length (rendered (header_fragment e)) \<le> 150" "length (rendered (process_fragment e)) \<le> 600"
    "length (rendered (parent_fragment e)) \<le> 320" "length (rendered (network_fragment e)) \<le> 300"
    "length (rendered (alert_fragment e)) \<le> 160" "length (rendered (details_fragment e)) \<le> 1050"
proof -
  note b = event_lengths [OF assms] name_lengths(1,2) [of "ev_type e"] name_lengths(3) [of "ev_severity e"]
  have o: "arg_size (or_text (ev_process_name e) ''<unknown>'') \<le> 259"
    "arg_size (or_text (ev_executable_path e) ''<unavailable>'') \<le> 259"
    "arg_size (or_text (ev_parent_name e) ''<unknown>'') \<le> 259"
    "arg_size (or_text (ev_network_state e) ''<unknown>'') \<le> 31"
    "arg_size (or_text (ev_rule_name e) ''<unspecified>'') \<le> 95"
    using b by (auto intro!: order.trans [OF or_text_facts(1)])
  show "length (rendered (header_fragment e)) \<le> 150" "length (rendered (process_fragment e)) \<le> 600"
    "length (rendered (parent_fragment e)) \<le> 320" "length (rendered (network_fragment e)) \<le> 300"
    "length (rendered (alert_fragment e)) \<le> 160" "length (rendered (details_fragment e)) \<le> 1050"
    using b o
    by (auto intro!: order.trans [OF rendered_bound] simp: or_text_facts(2) format_bound_def CRLF_def
        header_fragment_def process_fragment_def parent_fragment_def network_fragment_def
        alert_fragment_def details_fragment_def)
qed

text \<open>The whole text of the details window, and of a row.\<close>

definition details_text :: "TraceGlassEvent \<Rightarrow> wstr" where
  "details_text e =
     rendered (header_fragment e) @ rendered (process_fragment e) @
     (if pid (ev_parent e) \<noteq> 0 \<or> ev_parent_name e \<noteq> [] then rendered (parent_fragment e) else []) @
     (if ev_protocol e \<noteq> [] then rendered (network_fragment e) else []) @
     (if ev_type e = EVENT_ALERT then rendered (alert_fragment e) else []) @
     rendered (details_fragment e)"

lemma details_whole:
  assumes "strsafe_ok W" and "event_wf e"
  shows "format_event_details W e 4096 = details_text e"
  using fragment_bounds [OF assms(2)]
  by (auto simp: format_event_details_def details_text_def Let_def append_whole [OF assms(1)])

lemma activity_bound:
  assumes "strsafe_ok W" and "event_wf e"
  shows "format_activity W e 1400 = rendered (activity_format e)"
    and "length (rendered (activity_format e)) \<le> 1100"
proof -
  show b: "length (rendered (activity_format e)) \<le> 1100"
    using event_lengths [OF assms(2)] name_lengths(2) [of "ev_type e"]
    by (auto intro!: order.trans [OF rendered_bound] simp: activity_format_def format_bound_def Let_def
        split: EventType.splits)
  then show "format_activity W e 1400 = rendered (activity_format e)"
    by (simp add: format_activity_def case_prod_unfold cch_printf_take [OF assms(1)] rendered_def)
qed

lemma row_bound:
  assumes "strsafe_ok W" and "event_wf e"
  shows "length (rendered (row_format W control e)) \<le> 1900"
  using event_lengths [OF assms(2)] name_lengths(2) [of "ev_type e"] name_lengths(3) [of "ev_severity e"]
    time_text [OF assms(1), of "ev_timestamp e"] activity_bound [OF assms]
  by (auto intro!: order.trans [OF rendered_bound] simp: row_format_def format_bound_def Let_def)

text \<open>
  \<^bold>\<open>C29\<close>. Nothing the window shows or copies about a well-formed event is cut off: the details window
  of 4096 characters holds every section of the event in full, no fragment is dropped, and the copied
  row of 2048 characters holds all its columns, whatever list it comes from.
\<close>

theorem event_texts_complete:
  assumes "strsafe_ok W" and "event_wf e"
  shows "format_event_details W e 4096 = details_text e \<and>
    format_event_row W control e 2048 = rendered (row_format W control e) \<and>
    format_activity W e 1400 = rendered (activity_format e)"
  using details_whole [OF assms] activity_bound(1) [OF assms] row_bound [OF assms, of control]
  by (simp add: format_event_row_def case_prod_unfold cch_printf_take [OF assms(1)] rendered_def)

theorem event_texts_complete_witness:
  "suffix (wide (CRLF @ ''Details'' @ CRLF @ CRLF)) (format_event_details ascii_text macro_event 4096)"
proof -
  have "event_wf macro_event"
    by (simp add: event_wf_def macro_event_def zero_event_def array_lengths str_fits_def wide_no_nul)
  then have "format_event_details ascii_text macro_event 4096 = details_text macro_event"
    using event_texts_complete [OF ascii_text_strsafe] by blast
  moreover have "rendered (details_fragment macro_event) = wide (CRLF @ ''Details'' @ CRLF @ CRLF)"
    by (simp add: rendered_def details_fragment_def macro_event_def zero_event_def CRLF_def conversion_spec_def wide_def)
  ultimately show ?thesis by (simp add: details_text_def suffix_def)
qed

end
