(* ===== verification/TG_ProcessTree.thy ===== *)
theory TG_ProcessTree
  imports TG_Store "HOL-Library.Multiset"
begin

text \<open>
  \<^verbatim>\<open>src/gui.c\<close>, the process tree: every record of the store becomes one item below the item of its
  parent record. Parents are looked up by identity, so the records may name each other in any
  way, cycles included; the recursion marks what it visits. A tree control is the list of its
  items in the order they were inserted, an item handle the position in it.
\<close>

section \<open>Items\<close>

datatype tree_handle = TVI_ROOT | TreeItem nat | NullItem

record tree_item =
  ti_parent :: tree_handle
  ti_text :: wstr
  ti_param :: nat

text \<open>Whether an item can be inserted into the control, and whether the two arrays can be allocated.\<close>

record tree_api =
  TreeView_InsertItem :: "tree_item list \<Rightarrow> bool"
  tree_calloc_ok :: "nat \<Rightarrow> bool"

text \<open>The two arrays of the rebuild and the control. State 1 is a visit in progress, 2 a finished one.\<close>

record tree_state =
  ts_items :: "tree_handle list"
  ts_states :: "byte list"
  ts_tree :: "tree_item list"

section \<open>The rebuild\<close>

text \<open>The inner \<open>None\<close> is the result -1.\<close>

definition find_parent_index :: "EventStore \<Rightarrow> nat \<Rightarrow> nat option option" where
  "find_parent_index s child_index = do {
     child \<leftarrow> buf_get (st_processes s) child_index;
     Some (if pid (pr_parent child) = 0 \<or> pid (pr_parent child) = pid (pr_key child) then None
           else event_store_find_process (Some s) (pr_parent child)) }"

definition process_label :: "text_api \<Rightarrow> ProcessRecord \<Rightarrow> wstr" where
  "process_label W r =
     cch_printf W (MAX_PATH + 80)
       (if pr_active r then ''%s (PID %lu)'' else ''%s (PID %lu) [stopped]'')
       [FStr (if pr_name r \<noteq> [] then pr_name r else wide ''<unknown>''), FNum (unat (pid (pr_key r)))]"

definition insert_tree_item :: "tree_api \<Rightarrow> tree_item list \<Rightarrow> tree_item \<Rightarrow> tree_handle \<times> tree_item list" where
  "insert_tree_item K tree item =
     (if TreeView_InsertItem K tree then (TreeItem (length tree), tree @ [item]) else (NullItem, tree))"

function insert_process_node ::
  "tree_api \<Rightarrow> text_api \<Rightarrow> EventStore \<Rightarrow> nat \<Rightarrow> tree_state \<Rightarrow> (tree_handle \<times> tree_state) option" where
  "insert_process_node K W s index st =
     (if index \<ge> length (ts_states st) \<or> index \<ge> length (ts_items st) then None
      else if ts_states st ! index = 2 then Some (ts_items st ! index, st)
      else if ts_states st ! index = 1 then Some (TVI_ROOT, st)
      else
        (let st1 = st\<lparr>ts_states := (ts_states st)[index := 1]\<rparr> in do {
           parent_index \<leftarrow> find_parent_index s index;
           (parent_item, st2) \<leftarrow>
             (case parent_index of
                Some p \<Rightarrow> if p \<noteq> index then insert_process_node K W s p st1 else Some (TVI_ROOT, st1)
              | None \<Rightarrow> Some (TVI_ROOT, st1));
           r \<leftarrow> buf_get (st_processes s) index;
           (let (item, tree) = insert_tree_item K (ts_tree st2)
                  \<lparr>ti_parent = parent_item, ti_text = process_label W r, ti_param = index\<rparr> in do {
              items \<leftarrow> buf_put (ts_items st2) index item;
              states \<leftarrow> buf_put (ts_states st2) index 2;
              Some (item, \<lparr>ts_items = items, ts_states = states, ts_tree = tree\<rparr>) }) }))"
  by pat_completeness auto

definition unvisited :: "byte list \<Rightarrow> nat" where
  "unvisited states = length (filter (\<lambda>x. x \<noteq> 1 \<and> x \<noteq> 2) states)"

lemma unvisited_update:
  "i < length xs \<Longrightarrow> xs ! i \<noteq> 1 \<Longrightarrow> xs ! i \<noteq> 2 \<Longrightarrow> unvisited (xs[i := 1]) < unvisited xs"
  using length_filter_update [of i xs "\<lambda>x. x \<noteq> 1 \<and> x \<noteq> 2" 1] by (simp add: unvisited_def)

termination insert_process_node
  by (relation "measure (\<lambda>(K, W, s, index, st). unvisited (ts_states st))") (auto simp: unvisited_update)

declare insert_process_node.simps [simp del]

fun insert_all :: "tree_api \<Rightarrow> text_api \<Rightarrow> EventStore \<Rightarrow> nat list \<Rightarrow> tree_state \<Rightarrow> tree_state option" where
  "insert_all K W s [] st = Some st"
| "insert_all K W s (index # rest) st = do {
     (item, st') \<leftarrow> insert_process_node K W s index st;
     insert_all K W s rest st' }"

text \<open>The tree afterwards. Expanding the root items does not change it.\<close>

definition rebuild_process_tree :: "tree_api \<Rightarrow> text_api \<Rightarrow> EventStore \<Rightarrow> tree_item list option" where
  "rebuild_process_tree K W s =
     (let n = unat (st_process_count s) in
      if n = 0 then Some []
      else if \<not> tree_calloc_ok K n then Some []
      else map_option ts_tree
        (insert_all K W s [0..<n]
          \<lparr>ts_items = replicate n NullItem, ts_states = replicate n 0, ts_tree = []\<rparr>))"

section \<open>The recursion\<close>

text \<open>The parent relation between the indices of the records.\<close>

definition parent_of :: "EventStore \<Rightarrow> nat \<Rightarrow> nat option" where
  "parent_of s i = (case find_parent_index s i of Some (Some p) \<Rightarrow> Some p | _ \<Rightarrow> None)"

definition parent_rel :: "EventStore \<Rightarrow> (nat \<times> nat) set" where
  "parent_rel s = {(i, p). parent_of s i = Some p}"

text \<open>
  What holds of the item at position \<open>k\<close>: its parent was inserted before it and is the record's
  parent; an item at the root has no parent record, or is one of a cycle of records.
\<close>

definition item_ok :: "EventStore \<Rightarrow> tree_item list \<Rightarrow> nat \<Rightarrow> bool" where
  "item_ok s tree k \<longleftrightarrow>
     (case ti_parent (tree ! k) of
        TreeItem j \<Rightarrow> j < k \<and> parent_of s (ti_param (tree ! k)) = Some (ti_param (tree ! j))
      | TVI_ROOT \<Rightarrow> parent_of s (ti_param (tree ! k)) = None \<or>
          (ti_param (tree ! k), ti_param (tree ! k)) \<in> (parent_rel s)\<^sup>+
      | NullItem \<Rightarrow> False)"

definition tree_inv :: "EventStore \<Rightarrow> tree_state \<Rightarrow> bool" where
  "tree_inv s st \<longleftrightarrow>
     length (ts_states st) = length (st_processes s) \<and> length (ts_items st) = length (st_processes s) \<and>
     distinct (map ti_param (ts_tree st)) \<and>
     set (map ti_param (ts_tree st)) = {i. i < length (st_processes s) \<and> ts_states st ! i = 2} \<and>
     (\<forall>i < length (st_processes s). ts_states st ! i = 2 \<longrightarrow>
        (\<exists>k < length (ts_tree st). ts_items st ! i = TreeItem k \<and> ti_param (ts_tree st ! k) = i)) \<and>
     (\<forall>k < length (ts_tree st). item_ok s (ts_tree st) k)"

text \<open>
  An assumption, not documented behaviour: an item can always be inserted, and there is memory for the
  two arrays of a rebuild. Without memory the code shows an empty tree.
\<close>

definition tree_api_ok :: "tree_api \<Rightarrow> bool" where
  "tree_api_ok K \<longleftrightarrow> (\<forall>tree. TreeView_InsertItem K tree) \<and> (\<forall>n. tree_calloc_ok K n)"

lemma parent_index_cases:
  assumes "store_wf s" and "i < length (st_processes s)"
  shows "find_parent_index s i = Some (parent_of s i)"
    and "parent_of s i = Some p \<Longrightarrow> p < length (st_processes s)"
  using assms find_in_store(1) [OF assms(1)]
  by (auto simp: parent_of_def find_parent_index_def buf_simps split: option.splits if_splits)

lemma item_ok_append: "k < length tree \<Longrightarrow> item_ok s (tree @ more_items) k \<longleftrightarrow> item_ok s tree k"
  by (auto simp: item_ok_def nth_append split: tree_handle.splits)

text \<open>The parent item chosen for \<open>index\<close> fits.\<close>

definition parent_item_ok :: "EventStore \<Rightarrow> nat \<Rightarrow> tree_item list \<Rightarrow> tree_handle \<Rightarrow> bool" where
  "parent_item_ok s index tree h \<longleftrightarrow>
     (case h of
        TreeItem j \<Rightarrow> j < length tree \<and> parent_of s index = Some (ti_param (tree ! j))
      | TVI_ROOT \<Rightarrow> parent_of s index = None \<or> (index, index) \<in> (parent_rel s)\<^sup>+
      | NullItem \<Rightarrow> False)"

lemma tree_inv_item:
  assumes "tree_inv s st" and "i < length (st_processes s)" and "ts_states st ! i = 2"
  obtains k where "k < length (ts_tree st)" and "ts_items st ! i = TreeItem k" and "ti_param (ts_tree st ! k) = i"
proof -
  have "\<forall>i < length (st_processes s). ts_states st ! i = 2 \<longrightarrow>
      (\<exists>k < length (ts_tree st). ts_items st ! i = TreeItem k \<and> ti_param (ts_tree st ! k) = i)"
    using assms(1) by (simp add: tree_inv_def)
  then show thesis using assms(2,3) that by blast
qed

text \<open>Adding the item of \<open>index\<close>, whose visit was in progress.\<close>

lemma add_item_inv:
  assumes "tree_inv s st" and "index < length (st_processes s)" and "ts_states st ! index = 1"
    and "parent_item_ok s index (ts_tree st) h" and "ti_parent item = h" and "ti_param item = index"
  shows "tree_inv s \<lparr>ts_items = (ts_items st)[index := TreeItem (length (ts_tree st))],
    ts_states = (ts_states st)[index := 2], ts_tree = ts_tree st @ [item]\<rparr>"
proof -
  let ?n = "length (st_processes s)" and ?tree = "ts_tree st"
  have len: "length (ts_states st) = ?n" "length (ts_items st) = ?n" using assms(1) by (simp_all add: tree_inv_def)
  have params: "set (map ti_param ?tree) = {i. i < ?n \<and> ts_states st ! i = 2}" "distinct (map ti_param ?tree)"
    using assms(1) unfolding tree_inv_def by blast+
  have fresh: "index \<notin> set (map ti_param ?tree)" unfolding params using assms(3) by simp
  have last: "item_ok s (?tree @ [item]) (length ?tree)"
    using assms(4-6) by (auto simp: item_ok_def parent_item_ok_def nth_append split: tree_handle.splits)
  have "\<forall>k < length (?tree @ [item]). item_ok s (?tree @ [item]) k"
    using assms(1) last by (auto simp: tree_inv_def item_ok_append less_Suc_eq)
  moreover have "insert index {i. i < ?n \<and> ts_states st ! i = 2} = {i. i < ?n \<and> (ts_states st)[index := 2] ! i = 2}"
    using assms(2) len by (auto simp: nth_list_update)
  then have "set (map ti_param (?tree @ [item])) = {i. i < ?n \<and> (ts_states st)[index := 2] ! i = 2}"
    using assms(6) params(1) by auto
  moreover have "\<exists>k < length (?tree @ [item]). (ts_items st)[index := TreeItem (length ?tree)] ! i = TreeItem k \<and>
      ti_param ((?tree @ [item]) ! k) = i" if i: "i < ?n" "(ts_states st)[index := 2] ! i = 2" for i
  proof (cases "i = index")
    case True
    then show ?thesis using assms(2,6) len by (intro exI [of _ "length ?tree"]) simp
  next
    case False
    then have two: "ts_states st ! i = 2" using i(2) by simp
    obtain k where "k < length ?tree" "ts_items st ! i = TreeItem k" "ti_param (?tree ! k) = i"
      by (rule tree_inv_item [OF assms(1) i(1) two])
    then show ?thesis using False by (intro exI [of _ k]) (simp add: nth_append)
  qed
  ultimately show ?thesis
    unfolding tree_inv_def using assms(2,6) len params fresh by simp
qed

text \<open>What a visit of \<open>index\<close> guarantees.\<close>

definition visit_result :: "EventStore \<Rightarrow> nat \<Rightarrow> tree_state \<Rightarrow> tree_handle \<times> tree_state \<Rightarrow> bool" where
  "visit_result s index st r \<longleftrightarrow>
     tree_inv s (snd r) \<and> prefix (ts_tree st) (ts_tree (snd r)) \<and>
     (\<forall>j < length (st_processes s). ts_states (snd r) ! j = 1 \<longleftrightarrow> ts_states st ! j = 1) \<and>
     (\<forall>j < length (st_processes s). ts_states st ! j = 2 \<longrightarrow> ts_states (snd r) ! j = 2) \<and>
     (if ts_states st ! index = 1 then fst r = TVI_ROOT
      else ts_states (snd r) ! index = 2 \<and>
        (\<exists>k < length (ts_tree (snd r)). fst r = TreeItem k \<and> ti_param (ts_tree (snd r) ! k) = index))"

lemma mark_inv:
  assumes "tree_inv s st" and "index < length (st_processes s)" and "ts_states st ! index \<noteq> 2"
  shows "tree_inv s (st\<lparr>ts_states := (ts_states st)[index := 1]\<rparr>)"
proof -
  have "length (ts_states st) = length (st_processes s)" using assms(1) by (simp add: tree_inv_def)
  then have same: "(ts_states st)[index := 1] ! i = 2 \<longleftrightarrow> ts_states st ! i = 2" if "i < length (st_processes s)" for i
    using assms(2,3) that by (auto simp: nth_list_update)
  have set: "{i. i < length (st_processes s) \<and> (ts_states st)[index := 1] ! i = 2}
      = {i. i < length (st_processes s) \<and> ts_states st ! i = 2}"
    using same by blast
  show ?thesis using assms(1) same unfolding tree_inv_def by (simp add: set)
qed

lemma insert_process_node_visits:
  assumes "store_wf s" and "tree_api_ok K"
  shows "tree_inv s st \<Longrightarrow> index < length (st_processes s) \<Longrightarrow>
    (\<forall>j < length (st_processes s). ts_states st ! j = 1 \<longrightarrow> (j, index) \<in> (parent_rel s)\<^sup>*) \<Longrightarrow>
    \<exists>r. insert_process_node K W s index st = Some r \<and> visit_result s index st r"
proof (induction "unvisited (ts_states st)" arbitrary: index st rule: less_induct)
  case less
  let ?n = "length (st_processes s)" and ?x = "ts_states st ! index"
  have len: "length (ts_states st) = ?n" "length (ts_items st) = ?n" using less.prems(1) by (simp_all add: tree_inv_def)
  consider (finished) "?x = 2" | (progress) "?x = 1" | (fresh) "?x \<noteq> 1" "?x \<noteq> 2" by blast
  then show ?case
  proof cases
    case finished
    obtain k where "k < length (ts_tree st)" "ts_items st ! index = TreeItem k" "ti_param (ts_tree st ! k) = index"
      by (rule tree_inv_item [OF less.prems(1,2) finished])
    then show ?thesis
      using finished less.prems len by (subst insert_process_node.simps) (auto simp: visit_result_def)
  next
    case progress
    then show ?thesis
      using less.prems len by (subst insert_process_node.simps) (auto simp: visit_result_def)
  next
    case fresh
    define st1 where "st1 = st\<lparr>ts_states := (ts_states st)[index := 1]\<rparr>"
    have st1: "tree_inv s st1" "ts_tree st1 = ts_tree st" "ts_states st1 ! index = 1"
      using mark_inv [OF less.prems(1,2) fresh(2)] less.prems(2) len by (simp_all add: st1_def)
    have marks: "ts_states st1 ! j = (if j = index then 1 else ts_states st ! j)" if "j < ?n" for j
      using that len by (simp add: st1_def)
    define visit where "visit = (case parent_of s index of
        Some p \<Rightarrow> if p \<noteq> index then insert_process_node K W s p st1 else Some (TVI_ROOT, st1)
      | None \<Rightarrow> Some (TVI_ROOT, st1))"
    have "\<exists>h st2. visit = Some (h, st2) \<and> tree_inv s st2 \<and> prefix (ts_tree st) (ts_tree st2) \<and>
        (\<forall>j < ?n. ts_states st2 ! j = 1 \<longleftrightarrow> ts_states st1 ! j = 1) \<and>
        (\<forall>j < ?n. ts_states st1 ! j = 2 \<longrightarrow> ts_states st2 ! j = 2) \<and>
        parent_item_ok s index (ts_tree st2) h"
    proof (cases "parent_of s index")
      case None
      then show ?thesis using st1 by (auto simp: visit_def parent_item_ok_def)
    next
      case (Some p)
      have p: "p < ?n" using parent_index_cases(2) [OF assms(1) less.prems(2) Some] .
      have edge: "(index, p) \<in> parent_rel s" using Some by (simp add: parent_rel_def)
      show ?thesis
      proof (cases "p = index")
        case True
        then show ?thesis using st1 edge Some by (auto simp: visit_def parent_item_ok_def)
      next
        case False
        have "unvisited (ts_states st1) < unvisited (ts_states st)"
          using unvisited_update [of index "ts_states st"] fresh less.prems(2) len by (simp add: st1_def)
        moreover have "\<forall>j < ?n. ts_states st1 ! j = 1 \<longrightarrow> (j, p) \<in> (parent_rel s)\<^sup>*"
          using marks less.prems(3) edge by (metis rtrancl.rtrancl_into_rtrancl rtrancl.rtrancl_refl)
        ultimately obtain r where r: "insert_process_node K W s p st1 = Some r" "visit_result s p st1 r"
          using less.hyps [of st1 p] st1(1) p by blast
        have "parent_item_ok s index (ts_tree (snd r)) (fst r)"
        proof (cases "ts_states st1 ! p = 1")
          case True
          then have "ts_states st ! p = 1" using marks [OF p] False by simp
          then have "(index, index) \<in> (parent_rel s)\<^sup>+"
            using less.prems(3) p edge by (meson rtrancl_into_trancl2)
          then show ?thesis using r(2) True by (simp add: visit_result_def parent_item_ok_def)
        next
          case False
          then show ?thesis using r(2) Some by (auto simp: visit_result_def parent_item_ok_def)
        qed
        then show ?thesis
          using r st1(2) Some False by (cases r) (auto simp: visit_def visit_result_def)
      qed
    qed
    then obtain h st2 where v: "visit = Some (h, st2)" "tree_inv s st2" "prefix (ts_tree st) (ts_tree st2)"
        "\<forall>j < ?n. ts_states st2 ! j = 1 \<longleftrightarrow> ts_states st1 ! j = 1"
        "\<forall>j < ?n. ts_states st1 ! j = 2 \<longrightarrow> ts_states st2 ! j = 2" "parent_item_ok s index (ts_tree st2) h"
      by blast
    let ?item = "\<lparr>ti_parent = h, ti_text = process_label W (st_processes s ! index), ti_param = index\<rparr>"
    let ?st3 = "\<lparr>ts_items = (ts_items st2)[index := TreeItem (length (ts_tree st2))],
      ts_states = (ts_states st2)[index := 2], ts_tree = ts_tree st2 @ [?item]\<rparr>"
    have len2: "length (ts_states st2) = ?n" "length (ts_items st2) = ?n" using v(2) by (simp_all add: tree_inv_def)
    have "insert_process_node K W s index st = Some (TreeItem (length (ts_tree st2)), ?st3)"
      using fresh less.prems(2) len len2 v(1) assms(2) parent_index_cases(1) [OF assms(1) less.prems(2)]
      unfolding visit_def st1_def
      by (subst insert_process_node.simps)
        (simp add: Let_def buf_simps insert_tree_item_def tree_api_ok_def)
    moreover have "visit_result s index st (TreeItem (length (ts_tree st2)), ?st3)"
    proof -
      have "ts_states st2 ! index = 1" using v(4) st1(3) less.prems(2) by blast
      then have "tree_inv s ?st3"
        using add_item_inv [OF v(2) less.prems(2) _ v(6), of ?item] by simp
      moreover have "\<forall>j < ?n. ts_states ?st3 ! j = 1 \<longleftrightarrow> ts_states st ! j = 1"
        using v(4) marks fresh less.prems(2) len2 by (auto simp: nth_list_update)
      moreover have "\<forall>j < ?n. ts_states st ! j = 2 \<longrightarrow> ts_states ?st3 ! j = 2"
        using v(5) marks fresh less.prems(2) len2 by (auto simp: nth_list_update)
      ultimately show ?thesis
        using fresh less.prems(2) len2 v(3)
        by (auto simp: visit_result_def intro!: exI [of _ "length (ts_tree st2)"] prefix_order.trans)
    qed
    ultimately show ?thesis by blast
  qed
qed

section \<open>The whole tree\<close>

lemma insert_all_visits:
  assumes "store_wf s" and "tree_api_ok K"
  shows "tree_inv s st \<Longrightarrow> \<forall>i \<in> set is. i < length (st_processes s) \<Longrightarrow>
    \<forall>j < length (st_processes s). ts_states st ! j \<noteq> 1 \<Longrightarrow>
    \<exists>st'. insert_all K W s is st = Some st' \<and> tree_inv s st' \<and>
      (\<forall>j < length (st_processes s). ts_states st ! j = 2 \<or> j \<in> set is \<longrightarrow> ts_states st' ! j = 2)"
proof (induction "is" arbitrary: st)
  case (Cons i rest)
  then obtain h st1 where r: "insert_process_node K W s i st = Some (h, st1)" "visit_result s i st (h, st1)"
    using insert_process_node_visits [OF assms, of st i W] by auto
  then have "tree_inv s st1" "\<forall>j < length (st_processes s). ts_states st1 ! j \<noteq> 1"
      "ts_states st1 ! i = 2" "\<forall>j < length (st_processes s). ts_states st ! j = 2 \<longrightarrow> ts_states st1 ! j = 2"
    using Cons.prems by (auto simp: visit_result_def)
  then show ?case using Cons.IH [of st1] Cons.prems r(1) by auto
qed simp

text \<open>What the rebuild promises about the control.\<close>

definition forest_of :: "EventStore \<Rightarrow> tree_item list \<Rightarrow> bool" where
  "forest_of s tree \<longleftrightarrow>
     mset (map ti_param tree) = mset [0..<length (st_processes s)] \<and>
     (\<forall>k < length tree. item_ok s tree k)"

lemma rebuild_forest:
  assumes "store_wf s" and "tree_api_ok K"
  shows "\<exists>tree. rebuild_process_tree K W s = Some tree \<and> forest_of s tree"
proof (cases "st_processes s = []")
  case True
  then show ?thesis
    using assms(1) by (simp add: rebuild_process_tree_def store_wf_def forest_of_def Let_def)
next
  case False
  let ?n = "length (st_processes s)"
  let ?st = "\<lparr>ts_items = replicate ?n NullItem, ts_states = replicate ?n 0, ts_tree = []\<rparr>"
  have n: "unat (st_process_count s) = ?n" using assms(1) by (simp add: store_wf_def)
  have "tree_inv s ?st" "\<forall>j < ?n. ts_states ?st ! j \<noteq> 1" by (auto simp: tree_inv_def)
  then obtain st where st: "insert_all K W s [0..<?n] ?st = Some st" "tree_inv s st"
      "\<forall>j < ?n. ts_states st ! j = 2"
    using insert_all_visits [OF assms, of ?st "[0..<?n]" W] by auto
  have "set (map ti_param (ts_tree st)) = {0..<?n}" using st(2,3) by (auto simp: tree_inv_def)
  moreover have "distinct (map ti_param (ts_tree st))" using st(2) by (simp add: tree_inv_def)
  ultimately have "mset (map ti_param (ts_tree st)) = mset [0..<?n]"
    by (metis distinct_upt set_eq_iff_mset_eq_distinct set_upt)
  moreover have "\<forall>k < length (ts_tree st). item_ok s (ts_tree st) k" using st(2) by (simp add: tree_inv_def)
  ultimately show ?thesis
    using st(1) n False assms(2)
    by (simp add: rebuild_process_tree_def tree_api_ok_def forest_of_def Let_def)
qed

text \<open>
  \<^bold>\<open>C28\<close>. When its arrays can be allocated and its items inserted, rebuilding the process tree ends,
  whatever the records say about their parents: every
  record gets exactly one item, below the item of its parent record, which was inserted before; an
  item is put at the root only if its record has no parent in the store or lies on a cycle of
  records that name each other as parents.
\<close>

theorem process_tree_is_a_forest:
  assumes "store_wf s" and "tree_api_ok K"
  shows "\<exists>tree. rebuild_process_tree K W s = Some tree \<and> forest_of s tree"
  using assms by (rule rebuild_forest)

text \<open>Two processes that name each other as parents, for the witness.\<close>

definition cyclic_store :: EventStore where
  "cyclic_store = empty_store\<lparr>
     st_processes := [zero_record\<lparr>pr_key := \<lparr>pid = 4, creation_time = 9\<rparr>, pr_parent := \<lparr>pid = 8, creation_time = 7\<rparr>\<rparr>,
       zero_record\<lparr>pr_key := \<lparr>pid = 8, creation_time = 7\<rparr>, pr_parent := \<lparr>pid = 4, creation_time = 9\<rparr>\<rparr>],
     st_process_count := 2, st_process_capacity := 128\<rparr>"

definition plain_tree :: tree_api where
  "plain_tree = \<lparr>TreeView_InsertItem = (\<lambda>tree. True), tree_calloc_ok = (\<lambda>n. True)\<rparr>"

theorem process_tree_is_a_forest_witness:
  "\<exists>tree. rebuild_process_tree plain_tree ascii_text cyclic_store = Some tree \<and> length tree = 2"
proof -
  have "store_wf cyclic_store"
    by (simp add: store_wf_def cyclic_store_def example_simps sizeof_event_def sizeof_record_def)
  moreover have "tree_api_ok plain_tree" by (simp add: tree_api_ok_def plain_tree_def)
  ultimately obtain tree where "rebuild_process_tree plain_tree ascii_text cyclic_store = Some tree"
      "mset (map ti_param tree) = mset [0..<length (st_processes cyclic_store)]"
    using process_tree_is_a_forest unfolding forest_of_def by blast
  moreover from this(2) have "length tree = length (st_processes cyclic_store)"
    by (metis length_map mset_eq_length diff_zero length_upt)
  ultimately show ?thesis by (simp add: cyclic_store_def)
qed

end
