(* ===== verification/TG_ProcessMonitor.thy ===== *)
theory TG_ProcessMonitor
  imports TG_Snapshot TG_Store
begin

text \<open>
  \<^verbatim>\<open>src/process_monitor.c\<close>: the polling process monitor. The snapshot of the running processes is
  sorted by PID and creation time and searched by bisection; every array access is bounds-checked
  (\<open>None\<close> is an access outside). The platform's answers during a call are a record of
  parameters.
\<close>

section \<open>Data\<close>

record ProcessSnapshotEntry =
  se_key :: ProcessKey
  se_parent_pid :: dword
  se_name :: wstr
  se_path :: wstr

record ProcessMonitor =
  pm_previous :: "ProcessSnapshotEntry list"
  pm_previous_count :: nat
  pm_initialized :: bool

text \<open>The fields of \<^verbatim>\<open>PROCESSENTRY32W\<close> that the sources read.\<close>

record tool_entry =
  th32ProcessID :: dword
  th32ParentProcessID :: dword
  szExeFile :: wstr

text \<open>
  \<^item> \<open>OpenProcess pid\<close>: whether a handle with limited query rights is obtained;
    \<open>GetProcessTimes\<close> and \<open>QueryFullProcessImageNameW\<close> (with the buffer's size) on that handle.
  \<^item> \<open>Toolhelp32\<close>: the processes a snapshot enumerates, \<open>None\<close> if it cannot be created; an
    empty enumeration is a failing \<^verbatim>\<open>Process32FirstW\<close>.
  \<^item> \<open>realloc_ok n\<close>: whether the array can grow to \<open>n\<close> entries; \<open>qsort_entries\<close>: \<^verbatim>\<open>qsort\<close>.
\<close>

record process_api =
  OpenProcess :: "dword \<Rightarrow> bool"
  GetProcessTimes :: "dword \<Rightarrow> filetime option"
  QueryFullProcessImageNameW :: "dword \<Rightarrow> nat \<Rightarrow> wstr option"
  Toolhelp32 :: "tool_entry list option"
  realloc_ok :: "nat \<Rightarrow> bool"
  qsort_entries :: "ProcessSnapshotEntry list \<Rightarrow> ProcessSnapshotEntry list"

section \<open>Ordering and searching\<close>

definition compare_snapshot_entries :: "ProcessSnapshotEntry \<Rightarrow> ProcessSnapshotEntry \<Rightarrow> int" where
  "compare_snapshot_entries left right =
     (if pid (se_key left) < pid (se_key right) then - 1
      else if pid (se_key left) > pid (se_key right) then 1
      else if creation_time (se_key left) < creation_time (se_key right) then - 1
      else if creation_time (se_key left) > creation_time (se_key right) then 1 else 0)"

text \<open>The bisection of both searches: the first index whose PID is not below \<open>p\<close>.\<close>

function lower_bound :: "ProcessSnapshotEntry list \<Rightarrow> dword \<Rightarrow> nat \<Rightarrow> nat \<Rightarrow> nat option" where
  "lower_bound entries p low high =
     (if low < high then
        (let middle = low + (high - low) div 2 in
         do { e \<leftarrow> buf_get entries middle;
              if pid (se_key e) < p then lower_bound entries p (middle + 1) high
              else lower_bound entries p low middle })
      else Some low)"
  by pat_completeness auto
termination
  by (relation "measure (\<lambda>(entries, p, low, high). high - low)") auto

declare lower_bound.simps [simp del]

function scan_entries :: "ProcessSnapshotEntry list \<Rightarrow> nat \<Rightarrow> ProcessKey \<Rightarrow> nat \<Rightarrow> nat option option" where
  "scan_entries entries entry_count key low =
     (if low < entry_count then do {
        e \<leftarrow> buf_get entries low;
        if pid (se_key e) = pid key then
          (if creation_time (se_key e) = creation_time key \<or> creation_time (se_key e) = 0 \<or> creation_time key = 0
           then Some (Some low)
           else scan_entries entries entry_count key (low + 1))
        else Some None }
      else Some None)"
  by pat_completeness auto
termination
  by (relation "measure (\<lambda>(entries, entry_count, key, low). entry_count - low)") auto

declare scan_entries.simps [simp del]

definition find_entry :: "ProcessSnapshotEntry list \<Rightarrow> nat \<Rightarrow> ProcessKey \<Rightarrow> nat option option" where
  "find_entry entries entry_count key = do {
     low \<leftarrow> lower_bound entries (pid key) 0 entry_count;
     scan_entries entries entry_count key low }"

definition find_entry_by_pid :: "ProcessSnapshotEntry list \<Rightarrow> nat \<Rightarrow> dword \<Rightarrow> nat option option" where
  "find_entry_by_pid entries entry_count p = do {
     low \<leftarrow> lower_bound entries p 0 entry_count;
     (if low < entry_count then do {
        e \<leftarrow> buf_get entries low;
        Some (if pid (se_key e) = p then Some low else None) }
      else Some None) }"

section \<open>Querying processes\<close>

definition timestamp_from_creation_time :: "time_api \<Rightarrow> systemtime \<Rightarrow> u64 \<Rightarrow> systemtime" where
  "timestamp_from_creation_time T utc ct =
     (case local_systemtime_from_filetime T ct of Some t \<Rightarrow> t | None \<Rightarrow> get_local_system_time T utc)"

text \<open>The result, the key and the path buffer; NULL arguments are \<open>None\<close>.\<close>

definition query_process_identity ::
  "process_api \<Rightarrow> dword \<Rightarrow> ProcessKey option \<Rightarrow> wstr option \<Rightarrow> nat \<Rightarrow> bool \<times> ProcessKey option \<times> wstr option" where
  "query_process_identity P p key path path_count =
     (let key1 = map_option (\<lambda>k. \<lparr>pid = p, creation_time = 0\<rparr>) key;
          path1 = (if path \<noteq> None \<and> path_count > 0 then Some [] else path)
      in if p = 0 then (False, key1, path1)
         else if \<not> OpenProcess P p then (False, key1, path1)
         else
           (let (obtained2, key2) =
                  (case (key1, GetProcessTimes P p) of
                     (Some k, Some ft) \<Rightarrow> (True, Some (k\<lparr>creation_time := filetime_to_u64 ft\<rparr>))
                   | _ \<Rightarrow> (False, key1));
                (obtained3, path3) =
                  (if path1 \<noteq> None \<and> path_count > 0 then
                     (case QueryFullProcessImageNameW P p path_count of
                        Some full_name \<Rightarrow> (True, Some full_name)
                      | None \<Rightarrow> (obtained2, Some []))
                   else (obtained2, path1))
            in (obtained3, key2, path3)))"

definition query_process_name :: "process_api \<Rightarrow> dword \<Rightarrow> wstr option \<Rightarrow> nat \<Rightarrow> bool \<times> wstr option" where
  "query_process_name P p name name_count =
     (if name = None \<or> name_count = 0 then (False, name)
      else case Toolhelp32 P of
        None \<Rightarrow> (False, Some [])
      | Some entries \<Rightarrow>
          (case find (\<lambda>t. th32ProcessID t = p) entries of
             Some t \<Rightarrow> (True, Some (wcopy name_count (szExeFile t)))
           | None \<Rightarrow> (False, Some [])))"

section \<open>Capturing a snapshot\<close>

definition capture_entry :: "process_api \<Rightarrow> tool_entry \<Rightarrow> ProcessSnapshotEntry" where
  "capture_entry P t =
     (let (obtained, key, path) =
            query_process_identity P (th32ProcessID t) (Some \<lparr>pid = th32ProcessID t, creation_time = 0\<rparr>) (Some []) MAX_PATH
      in \<lparr>se_key = (case key of Some k \<Rightarrow> k | None \<Rightarrow> zero_key), se_parent_pid = th32ParentProcessID t,
          se_name = wcopy MAX_PATH (szExeFile t), se_path = (case path of Some s \<Rightarrow> s | None \<Rightarrow> [])\<rparr>)"

text \<open>The enumeration loop, growing the array; \<open>None\<close> is a failed reallocation.\<close>

fun capture_loop :: "process_api \<Rightarrow> tool_entry list \<Rightarrow> ProcessSnapshotEntry list \<Rightarrow> nat \<Rightarrow> ProcessSnapshotEntry list option" where
  "capture_loop P [] entries capacity = Some entries"
| "capture_loop P (t # ts) entries capacity =
     (if length entries = capacity then
        (let capacity' = (if capacity = 0 then 128 else capacity * 2) in
         if realloc_ok P capacity' then capture_loop P ts (entries @ [capture_entry P t]) capacity' else None)
      else capture_loop P ts (entries @ [capture_entry P t]) capacity)"

definition capture_processes :: "process_api \<Rightarrow> ProcessSnapshotEntry list option" where
  "capture_processes P =
     (case Toolhelp32 P of
        None \<Rightarrow> None
      | Some ts \<Rightarrow> if ts = [] then None else map_option (qsort_entries P) (capture_loop P ts [] 0))"

section \<open>Events\<close>

text \<open>The parent of both events: the process with the parent's PID, unless it is younger than the child.\<close>

definition event_with_parent ::
  "ProcessSnapshotEntry \<Rightarrow> ProcessSnapshotEntry list \<Rightarrow> nat \<Rightarrow> TraceGlassEvent \<Rightarrow> TraceGlassEvent option" where
  "event_with_parent entry entries entry_count e = do {
     parent \<leftarrow> find_entry_by_pid entries entry_count (se_parent_pid entry);
     (case parent of
        None \<Rightarrow> Some e
      | Some i \<Rightarrow> (do {
          p \<leftarrow> buf_get entries i;
          Some (if creation_time (se_key p) = 0 \<or> creation_time (se_key entry) = 0 \<or>
                   creation_time (se_key p) \<le> creation_time (se_key entry)
                then e\<lparr>ev_parent := se_key p, ev_parent_name := wcopy MAX_PATH (se_name p)\<rparr>
                else e) })) }"

definition event_of_entry :: "EventType \<Rightarrow> ProcessSnapshotEntry \<Rightarrow> TraceGlassEvent" where
  "event_of_entry t entry =
     zero_event\<lparr>ev_type := t, ev_process := se_key entry,
       ev_parent := zero_key\<lparr>pid := se_parent_pid entry\<rparr>,
       ev_process_name := wcopy MAX_PATH (se_name entry),
       ev_executable_path := wcopy MAX_PATH (se_path entry)\<rparr>"

definition emit_start_event ::
  "text_api \<Rightarrow> time_api \<Rightarrow> systemtime \<Rightarrow> bool \<Rightarrow> ProcessSnapshotEntry list \<Rightarrow> nat \<Rightarrow> ProcessSnapshotEntry \<Rightarrow>
     TraceGlassEvent option" where
  "emit_start_event W T utc baseline entries entry_count entry = do {
     e1 \<leftarrow> event_with_parent entry entries entry_count (event_of_entry EVENT_PROCESS_START entry);
     Some (e1\<lparr>ev_timestamp := timestamp_from_creation_time T utc (creation_time (se_key entry)),
       ev_details := cch_printf W TRACEGLASS_DETAIL_LENGTH
         (if baseline then ''Discovered at startup; parent %s (PID %lu); path %s''
          else ''Started; parent %s (PID %lu); path %s'')
         [FStr (if ev_parent_name e1 \<noteq> [] then ev_parent_name e1 else wide ''<unknown>''),
          FNum (unat (pid (ev_parent e1))),
          FStr (if ev_executable_path e1 \<noteq> [] then ev_executable_path e1
                else wide ''<access denied or unavailable>'')]\<rparr>) }"

definition emit_stop_event ::
  "text_api \<Rightarrow> time_api \<Rightarrow> systemtime \<Rightarrow> ProcessSnapshotEntry list \<Rightarrow> nat \<Rightarrow> ProcessSnapshotEntry \<Rightarrow>
     TraceGlassEvent option" where
  "emit_stop_event W T utc entries entry_count entry = do {
     e1 \<leftarrow> event_with_parent entry entries entry_count (event_of_entry EVENT_PROCESS_STOP entry);
     Some (e1\<lparr>ev_timestamp := get_local_system_time T utc,
       ev_details := cch_printf W TRACEGLASS_DETAIL_LENGTH ''Process stopped (PID %lu)''
         [FNum (unat (pid (ev_process e1)))]\<rparr>) }"

section \<open>The monitor\<close>

definition process_monitor_initialize :: "ProcessMonitor option \<Rightarrow> ProcessMonitor option" where
  "process_monitor_initialize monitor =
     map_option (\<lambda>m. \<lparr>pm_previous = [], pm_previous_count = 0, pm_initialized = False\<rparr>) monitor"

definition process_monitor_destroy :: "ProcessMonitor option \<Rightarrow> ProcessMonitor option" where
  "process_monitor_destroy monitor =
     map_option (\<lambda>m. \<lparr>pm_previous = [], pm_previous_count = 0, pm_initialized = False\<rparr>) monitor"

text \<open>A loop of the poll: the events of the entries that the other snapshot lacks, in order.\<close>

fun changed_events ::
  "ProcessSnapshotEntry list \<Rightarrow> nat \<Rightarrow> (ProcessSnapshotEntry \<Rightarrow> TraceGlassEvent option) \<Rightarrow>
     ProcessSnapshotEntry list \<Rightarrow> TraceGlassEvent list option" where
  "changed_events others entry_count build [] = Some []"
| "changed_events others entry_count build (x # xs) = do {
     found \<leftarrow> find_entry others entry_count (se_key x);
     (if found = None then do {
        e \<leftarrow> build x;
        es \<leftarrow> changed_events others entry_count build xs;
        Some (e # es) }
      else changed_events others entry_count build xs) }"

definition process_monitor_poll ::
  "process_api \<Rightarrow> text_api \<Rightarrow> time_api \<Rightarrow> systemtime \<Rightarrow> (node_heap \<Rightarrow> nat option) \<Rightarrow>
     ProcessMonitor option \<Rightarrow> (node_heap \<times> EventQueue) option \<Rightarrow>
     (bool \<times> ProcessMonitor option \<times> (node_heap \<times> EventQueue) option) option" where
  "process_monitor_poll P W T utc M monitor queue =
     (case (monitor, queue) of
        (Some m, Some q) \<Rightarrow>
          (case capture_processes P of
             None \<Rightarrow> Some (False, monitor, queue)
           | Some current \<Rightarrow> (do {
               starts \<leftarrow> changed_events (pm_previous m) (pm_previous_count m)
                 (emit_start_event W T utc (\<not> pm_initialized m) current (length current)) current;
               q1 \<leftarrow> emit_events M starts q;
               stops \<leftarrow> (if pm_initialized m
                 then changed_events current (length current)
                   (emit_stop_event W T utc (pm_previous m) (pm_previous_count m))
                   (take (pm_previous_count m) (pm_previous m))
                 else Some []);
               q2 \<leftarrow> emit_events M stops q1;
               Some (True,
                     Some \<lparr>pm_previous = current, pm_previous_count = length current, pm_initialized = True\<rparr>,
                     Some q2) }))
      | _ \<Rightarrow> Some (False, monitor, queue))"

section \<open>The comparator\<close>

lemma compare_snapshot_le:
  "compare_snapshot_entries a b \<le> 0 \<longleftrightarrow>
     pid (se_key a) < pid (se_key b) \<or>
     pid (se_key a) = pid (se_key b) \<and> creation_time (se_key a) \<le> creation_time (se_key b)"
  by (auto simp: compare_snapshot_entries_def)

interpretation snapshot_order: comparator compare_snapshot_entries
  unfolding compare_snapshot_entries_def [abs_def]
  by (intro comparator_field comparator_constant)

lemma sorted_pids:
  assumes "sorted_by compare_snapshot_entries xs" and "i \<le> j" and "j < length xs"
  shows "pid (se_key (xs ! i)) \<le> pid (se_key (xs ! j))"
proof (cases "i = j")
  case False
  then have "compare_snapshot_entries (xs ! i) (xs ! j) \<le> 0"
    using assms by (simp add: sorted_by_def sorted_wrt_iff_nth_less)
  then show ?thesis by (auto simp: compare_snapshot_le)
qed simp

section \<open>The searches\<close>

lemma lower_bound_spec:
  assumes "sorted_by compare_snapshot_entries xs" and "low \<le> high" and "high \<le> length xs"
    and "\<forall>j < low. pid (se_key (xs ! j)) < p" and "\<forall>j. high \<le> j \<and> j < length xs \<longrightarrow> p \<le> pid (se_key (xs ! j))"
  shows "\<exists>l. lower_bound xs p low high = Some l \<and> l \<le> length xs \<and>
    (\<forall>j < l. pid (se_key (xs ! j)) < p) \<and> (\<forall>j. l \<le> j \<and> j < length xs \<longrightarrow> p \<le> pid (se_key (xs ! j)))"
  using assms(2-)
proof (induction "high - low" arbitrary: low high rule: less_induct)
  case less
  show ?case
  proof (cases "low < high")
    case False
    then have "low = high" using less.prems(1) by simp
    then show ?thesis using less.prems by (subst lower_bound.simps) auto
  next
    case True
    define middle where "middle = low + (high - low) div 2"
    have m: "low \<le> middle" "middle < high" "middle < length xs" using True less.prems by (auto simp: middle_def)
    have unfold_step: "lower_bound xs p low high =
        (if pid (se_key (xs ! middle)) < p then lower_bound xs p (middle + 1) high else lower_bound xs p low middle)"
      using True m(3) by (subst lower_bound.simps) (simp add: middle_def [symmetric] buf_simps)
    show ?thesis
    proof (cases "pid (se_key (xs ! middle)) < p")
      case below: True
      have "\<forall>j < middle + 1. pid (se_key (xs ! j)) < p"
        using below m sorted_pids [OF assms(1) _ m(3)] by (metis Suc_eq_plus1 le_less_trans less_Suc_eq_le)
      then show ?thesis
        using less.hyps [of high "middle + 1"] less.prems m below unfold_step by auto
    next
      case above: False
      have "\<forall>j. middle \<le> j \<and> j < length xs \<longrightarrow> p \<le> pid (se_key (xs ! j))"
        using above sorted_pids [OF assms(1), of middle] by (metis not_less order_trans)
      then show ?thesis
        using less.hyps [of middle low] less.prems m above unfold_step by auto
    qed
  qed
qed

lemma lower_bound_all:
  assumes "sorted_by compare_snapshot_entries xs"
  obtains l where "lower_bound xs p 0 (length xs) = Some l" "l \<le> length xs"
    "\<forall>j < l. pid (se_key (xs ! j)) < p" "\<forall>j. l \<le> j \<and> j < length xs \<longrightarrow> p \<le> pid (se_key (xs ! j))"
proof -
  have "\<forall>j. length xs \<le> j \<and> j < length xs \<longrightarrow> p \<le> pid (se_key (xs ! j))" by auto
  then show thesis
    using lower_bound_spec [OF assms, of 0 "length xs" p] that by blast
qed

text \<open>The scan from \<open>low\<close>: entries before it have a smaller PID or are incompatible.\<close>

lemma scan_entries_spec:
  assumes "sorted_by compare_snapshot_entries xs" and "low \<le> length xs"
    and "\<forall>j < low. \<not> process_keys_match (se_key (xs ! j)) key"
    and "\<forall>j. low \<le> j \<and> j < length xs \<longrightarrow> pid key \<le> pid (se_key (xs ! j))"
  shows "\<exists>r. scan_entries xs (length xs) key low = Some r \<and>
    (case r of None \<Rightarrow> \<forall>x \<in> set xs. \<not> process_keys_match (se_key x) key
     | Some i \<Rightarrow> i < length xs \<and> process_keys_match (se_key (xs ! i)) key \<and>
         (\<forall>j < i. \<not> process_keys_match (se_key (xs ! j)) key))"
  using assms(2-)
proof (induction "length xs - low" arbitrary: low)
  case 0
  then show ?case by (subst scan_entries.simps) (auto simp: in_set_conv_nth)
next
  case (Suc n)
  then have low: "low < length xs" by simp
  let ?k = "se_key (xs ! low)"
  have match: "process_keys_match ?k key \<longleftrightarrow> pid ?k = pid key \<and>
      (creation_time ?k = creation_time key \<or> creation_time ?k = 0 \<or> creation_time key = 0)"
    by (simp add: process_keys_match_def)
  have unfold_step: "scan_entries xs (length xs) key low =
      (if pid ?k = pid key then if process_keys_match ?k key then Some (Some low)
         else scan_entries xs (length xs) key (low + 1) else Some None)"
    using low by (subst scan_entries.simps) (auto simp: buf_simps match)
  show ?case
  proof (cases "pid ?k = pid key")
    case False
    then have "pid key < pid ?k" using Suc.prems(3) low by force
    then have above: "pid key < pid (se_key (xs ! j))" if "low \<le> j" "j < length xs" for j
      using sorted_pids [OF assms(1) that] by simp
    have "\<not> process_keys_match (se_key (xs ! j)) key" if "j < length xs" for j
    proof (cases "j < low")
      case False
      then have "pid (se_key (xs ! j)) \<noteq> pid key" using above [of j] that by auto
      then show ?thesis using keys_match_pid by blast
    qed (use Suc.prems(2) in blast)
    then have "\<forall>j < length xs. \<not> process_keys_match (se_key (xs ! j)) key" by blast
    then show ?thesis using False unfold_step by (auto simp: in_set_conv_nth)
  next
    case same: True
    show ?thesis
    proof (cases "process_keys_match ?k key")
      case True
      then show ?thesis using same unfold_step low Suc.prems(2) by auto
    next
      case False
      then have "\<forall>j < low + 1. \<not> process_keys_match (se_key (xs ! j)) key"
        using Suc.prems(2) less_Suc_eq by auto
      then show ?thesis
        using Suc.hyps(1) [of "low + 1"] Suc.hyps(2) Suc.prems(3) low same False unfold_step by simp
    qed
  qed
qed

lemma find_entry_cases:
  assumes "sorted_by compare_snapshot_entries xs"
  shows "\<exists>r. find_entry xs (length xs) key = Some r \<and>
    (case r of None \<Rightarrow> \<forall>x \<in> set xs. \<not> process_keys_match (se_key x) key
     | Some i \<Rightarrow> i < length xs \<and> process_keys_match (se_key (xs ! i)) key \<and>
         (\<forall>j < i. \<not> process_keys_match (se_key (xs ! j)) key))"
proof -
  obtain l where l: "lower_bound xs (pid key) 0 (length xs) = Some l" "l \<le> length xs"
      "\<forall>j < l. pid (se_key (xs ! j)) < pid key" "\<forall>j. l \<le> j \<and> j < length xs \<longrightarrow> pid key \<le> pid (se_key (xs ! j))"
    using lower_bound_all [OF assms] .
  have "\<forall>j < l. \<not> process_keys_match (se_key (xs ! j)) key"
    using l(3) keys_match_pid by fastforce
  from scan_entries_spec [OF assms l(2) this l(4)] show ?thesis
    by (simp add: find_entry_def l(1))
qed

lemma find_entry_by_pid_cases:
  assumes "sorted_by compare_snapshot_entries xs"
  shows "\<exists>r. find_entry_by_pid xs (length xs) p = Some r \<and>
    (case r of None \<Rightarrow> \<forall>x \<in> set xs. pid (se_key x) \<noteq> p
     | Some i \<Rightarrow> i < length xs \<and> pid (se_key (xs ! i)) = p \<and> (\<forall>j < i. pid (se_key (xs ! j)) \<noteq> p))"
proof -
  obtain l where l: "lower_bound xs p 0 (length xs) = Some l" "l \<le> length xs"
      "\<forall>j < l. pid (se_key (xs ! j)) < p" "\<forall>j. l \<le> j \<and> j < length xs \<longrightarrow> p \<le> pid (se_key (xs ! j))"
    using lower_bound_all [OF assms] .
  have before: "\<forall>j < l. pid (se_key (xs ! j)) \<noteq> p" using l(3) by fastforce
  show ?thesis
  proof (cases "l < length xs \<and> pid (se_key (xs ! l)) = p")
    case True
    then show ?thesis using before by (simp add: find_entry_by_pid_def l(1) buf_simps)
  next
    case False
    have "pid (se_key (xs ! j)) \<noteq> p" if "j < length xs" for j
    proof (cases "j < l")
      case after: False
      then have "l < length xs" using that by simp
      then have "p < pid (se_key (xs ! l))" using False l(4) by (metis order_le_less order_refl)
      then show ?thesis using sorted_pids [OF assms _ that, of l] after by fastforce
    qed (use before in blast)
    then have "\<forall>x \<in> set xs. pid (se_key x) \<noteq> p" by (metis in_set_conv_nth)
    then show ?thesis using False l by (auto simp: find_entry_by_pid_def buf_simps)
  qed
qed

section \<open>The poll\<close>

definition same_process :: "ProcessSnapshotEntry \<Rightarrow> ProcessSnapshotEntry \<Rightarrow> bool" where
  "same_process a b \<longleftrightarrow> process_keys_match (se_key a) (se_key b)"

interpretation process_identity: snapshot_identity same_process
  by unfold_locales (auto simp: same_process_def process_keys_match_def split: if_splits)

definition monitor_wf :: "ProcessMonitor \<Rightarrow> bool" where
  "monitor_wf m \<longleftrightarrow> sorted_by compare_snapshot_entries (pm_previous m) \<and> pm_previous_count m = length (pm_previous m)"

lemma find_entry_None:
  assumes "sorted_by compare_snapshot_entries xs"
  shows "\<exists>r. find_entry xs (length xs) (se_key x) = Some r \<and> (r = None \<longleftrightarrow> \<not> list_ex (\<lambda>y. same_process y x) xs)"
  using find_entry_cases [OF assms, of "se_key x"]
  by (fastforce simp: same_process_def list_ex_iff split: option.splits)

lemma changed_events_missing:
  assumes "sorted_by compare_snapshot_entries others" and "\<forall>x \<in> set xs. build x \<noteq> None"
  shows "changed_events others (length others) build xs = Some (map (\<lambda>x. the (build x)) (missing same_process others xs))"
  using assms(2)
proof (induction xs)
  case (Cons x xs)
  obtain r where "find_entry others (length others) (se_key x) = Some r"
      "r = None \<longleftrightarrow> \<not> list_ex (\<lambda>y. same_process y x) others"
    using find_entry_None [OF assms(1)] by blast
  then show ?case using Cons by (auto simp: missing_def)
qed (simp add: missing_def)

text \<open>The parent found, if any, has the reported PID and is not younger than the child.\<close>

lemma event_with_parent_cases:
  assumes "sorted_by compare_snapshot_entries xs"
  obtains "event_with_parent x xs (length xs) e = Some e"
  | p where "p \<in> set xs" "pid (se_key p) = se_parent_pid x"
      "creation_time (se_key p) = 0 \<or> creation_time (se_key x) = 0 \<or> creation_time (se_key p) \<le> creation_time (se_key x)"
      "event_with_parent x xs (length xs) e = Some (e\<lparr>ev_parent := se_key p, ev_parent_name := wcopy MAX_PATH (se_name p)\<rparr>)"
proof -
  obtain r where r: "find_entry_by_pid xs (length xs) (se_parent_pid x) = Some r"
      "case r of None \<Rightarrow> \<forall>y \<in> set xs. pid (se_key y) \<noteq> se_parent_pid x
       | Some i \<Rightarrow> i < length xs \<and> pid (se_key (xs ! i)) = se_parent_pid x \<and> (\<forall>j < i. pid (se_key (xs ! j)) \<noteq> se_parent_pid x)"
    using find_entry_by_pid_cases [OF assms] by blast
  show thesis
  proof (cases r)
    case None
    then show thesis using r that(1) by (simp add: event_with_parent_def)
  next
    case (Some i)
    then have i: "i < length xs" "pid (se_key (xs ! i)) = se_parent_pid x" using r by auto
    show thesis
    proof (cases "creation_time (se_key (xs ! i)) = 0 \<or> creation_time (se_key x) = 0 \<or>
        creation_time (se_key (xs ! i)) \<le> creation_time (se_key x)")
      case True
      then show thesis
        using that(2) [of "xs ! i"] Some i r(1) by (simp add: event_with_parent_def buf_simps)
    next
      case False
      then show thesis
        using that(1) Some i r(1) by (simp add: event_with_parent_def buf_simps)
    qed
  qed
qed

lemma emit_events_total:
  assumes "sorted_by compare_snapshot_entries xs"
  shows "emit_start_event W T utc b xs (length xs) x \<noteq> None" "emit_stop_event W T utc xs (length xs) x \<noteq> None"
  by (cases rule: event_with_parent_cases [OF assms, of x "event_of_entry EVENT_PROCESS_START x"],
      simp_all add: emit_start_event_def)
    (cases rule: event_with_parent_cases [OF assms, of x "event_of_entry EVENT_PROCESS_STOP x"],
      simp_all add: emit_stop_event_def)

lemma capture_loop_entries: "capture_loop P ts acc cap = Some xs \<Longrightarrow> xs = acc @ map (capture_entry P) ts"
  by (induction P ts acc cap rule: capture_loop.induct) (auto simp: Let_def split: if_splits)

lemma capture_sorted:
  assumes "qsort_ok compare_snapshot_entries (qsort_entries P)" and "capture_processes P = Some xs"
  shows "sorted_by compare_snapshot_entries xs" and "\<exists>ts. Toolhelp32 P = Some ts \<and> mset xs = mset (map (capture_entry P) ts)"
  using assms(2) qsort_okD [OF assms(1)]
  by (auto simp: capture_processes_def split: option.splits if_splits dest!: capture_loop_entries)

text \<open>What a poll reports: first the entries that are new, then (after the first poll) those gone.\<close>

definition poll_starts ::
  "text_api \<Rightarrow> time_api \<Rightarrow> systemtime \<Rightarrow> ProcessMonitor \<Rightarrow> ProcessSnapshotEntry list \<Rightarrow> TraceGlassEvent list" where
  "poll_starts W T utc m current =
     map (\<lambda>x. the (emit_start_event W T utc (\<not> pm_initialized m) current (length current) x))
       (missing same_process (pm_previous m) current)"

definition poll_stops ::
  "text_api \<Rightarrow> time_api \<Rightarrow> systemtime \<Rightarrow> ProcessMonitor \<Rightarrow> ProcessSnapshotEntry list \<Rightarrow> TraceGlassEvent list" where
  "poll_stops W T utc m current =
     (if pm_initialized m
      then map (\<lambda>x. the (emit_stop_event W T utc (pm_previous m) (length (pm_previous m)) x))
        (missing same_process current (pm_previous m))
      else [])"

definition monitor_after :: "ProcessSnapshotEntry list \<Rightarrow> ProcessMonitor" where
  "monitor_after current = \<lparr>pm_previous = current, pm_previous_count = length current, pm_initialized = True\<rparr>"

lemma poll_run:
  assumes "monitor_wf m" and "qsort_ok compare_snapshot_entries (qsort_entries P)" and "capture_processes P = Some current"
  shows "process_monitor_poll P W T utc M (Some m) (Some q) =
     (do { q1 \<leftarrow> emit_events M (poll_starts W T utc m current) q;
           q2 \<leftarrow> emit_events M (poll_stops W T utc m current) q1;
           Some (True, Some (monitor_after current), Some q2) })"
proof -
  have prev: "sorted_by compare_snapshot_entries (pm_previous m)" "pm_previous_count m = length (pm_previous m)"
    using assms(1) by (simp_all add: monitor_wf_def)
  note cur = capture_sorted(1) [OF assms(2,3)]
  have "changed_events (pm_previous m) (length (pm_previous m))
      (emit_start_event W T utc (\<not> pm_initialized m) current (length current)) current
      = Some (poll_starts W T utc m current)"
    using changed_events_missing [OF prev(1), of current] emit_events_total(1) [OF cur]
    by (simp add: poll_starts_def)
  moreover have "changed_events current (length current)
      (emit_stop_event W T utc (pm_previous m) (length (pm_previous m))) (pm_previous m)
      = Some (map (\<lambda>x. the (emit_stop_event W T utc (pm_previous m) (length (pm_previous m)) x))
          (missing same_process current (pm_previous m)))"
    using changed_events_missing [OF cur, of "pm_previous m"] emit_events_total(2) [OF prev(1)] by simp
  ultimately show ?thesis
    using assms(3) prev(2) by (simp add: process_monitor_poll_def poll_stops_def monitor_after_def)
qed

section \<open>Properties\<close>

text \<open>
  \<^bold>\<open>C21\<close>. The bisection and the scan of \<^verbatim>\<open>find_entry\<close> stay inside a sorted array and find the
  first entry compatible with the key (same PID, creation times equal or one unknown), or none
  exactly when there is none.
\<close>

theorem find_entry_spec:
  assumes "sorted_by compare_snapshot_entries xs"
  shows "\<exists>r. find_entry xs (length xs) key = Some r \<and>
    (case r of None \<Rightarrow> \<forall>x \<in> set xs. \<not> process_keys_match (se_key x) key
     | Some i \<Rightarrow> i < length xs \<and> process_keys_match (se_key (xs ! i)) key \<and>
         (\<forall>j < i. \<not> process_keys_match (se_key (xs ! j)) key))"
  using assms by (rule find_entry_cases)

definition system_entry :: ProcessSnapshotEntry where
  "system_entry = \<lparr>se_key = \<lparr>pid = 4, creation_time = 9\<rparr>, se_parent_pid = 0, se_name = wide ''System'', se_path = []\<rparr>"

definition child_entry :: ProcessSnapshotEntry where
  "child_entry = \<lparr>se_key = \<lparr>pid = 8, creation_time = 20\<rparr>, se_parent_pid = 4, se_name = wide ''smss.exe'', se_path = []\<rparr>"

lemma example_sorted: "sorted_by compare_snapshot_entries [system_entry, child_entry]"
  by (simp add: sorted_by_def compare_snapshot_le system_entry_def child_entry_def)

theorem find_entry_spec_witness:
  "find_entry [system_entry, child_entry] 2 \<lparr>pid = 8, creation_time = 0\<rparr> = Some (Some 1)"
proof -
  let ?xs = "[system_entry, child_entry]" and ?k = "\<lparr>pid = 8, creation_time = 0\<rparr>"
  have m: "\<not> process_keys_match (se_key system_entry) ?k" "process_keys_match (se_key child_entry) ?k"
    by (simp_all add: system_entry_def child_entry_def process_keys_match_def)
  have len: "length ?xs = 2" by simp
  obtain r where r: "find_entry ?xs (length ?xs) ?k = Some r"
    "case r of None \<Rightarrow> \<forall>x \<in> set ?xs. \<not> process_keys_match (se_key x) ?k
     | Some i \<Rightarrow> i < length ?xs \<and> process_keys_match (se_key (?xs ! i)) ?k \<and>
         (\<forall>j < i. \<not> process_keys_match (se_key (?xs ! j)) ?k)"
    using find_entry_spec [OF example_sorted, of ?k] by blast
  show ?thesis
  proof (cases r)
    case None
    then show ?thesis using r(2) m by simp
  next
    case (Some i)
    then have "i = 0 \<or> i = 1" using r(2) by auto
    then have "i = 1" using r(2) Some m by auto
    then show ?thesis using r(1) Some unfolding len by simp
  qed
qed

lemma poll_delivers:
  assumes "monitor_wf m" and "qsort_ok compare_snapshot_entries (qsort_entries P)" and "malloc_fresh M"
    and "holds q es" and "capture_processes P = Some current"
  shows "\<exists>q' kept.
    process_monitor_poll P W T utc M (Some m) (Some q) = Some (True, Some (monitor_after current), Some q') \<and>
    holds q' (es @ kept) \<and>
    delivered_part M kept (poll_starts W T utc m current @ poll_stops W T utc m current) \<and>
    monitor_wf (monitor_after current)"
proof -
  obtain q1 k1 where 1: "emit_events M (poll_starts W T utc m current) q = Some q1" "holds q1 (es @ k1)"
      "delivered_part M k1 (poll_starts W T utc m current)"
    using emit_events_hold [OF assms(3,4)] by blast
  obtain q2 k2 where 2: "emit_events M (poll_stops W T utc m current) q1 = Some q2" "holds q2 ((es @ k1) @ k2)"
      "delivered_part M k2 (poll_stops W T utc m current)"
    using emit_events_hold [OF assms(3) 1(2)] by blast
  have "delivered_part M (k1 @ k2) (poll_starts W T utc m current @ poll_stops W T utc m current)"
    using 1(3) 2(3) by (auto simp: delivered_part_def intro: list_emb_append_mono)
  moreover have "monitor_wf (monitor_after current)"
    using capture_sorted(1) [OF assms(2,5)] by (simp add: monitor_wf_def monitor_after_def)
  ultimately show ?thesis
    using poll_run [OF assms(1,2,5)] 1(1) 2(1,2)
    by (intro exI [of _ q2] exI [of _ "k1 @ k2"]) simp
qed

text \<open>Whatever the platform answers, a poll returns and leaves a usable monitor and queue.\<close>

lemma poll_total:
  assumes "monitor_wf m" and "qsort_ok compare_snapshot_entries (qsort_entries P)" and "malloc_fresh M" and "holds q es"
  shows "\<exists>ok m' q' kept. process_monitor_poll P W T utc M (Some m) (Some q) = Some (ok, Some m', Some q') \<and>
    holds q' (es @ kept) \<and> monitor_wf m'"
proof (cases "capture_processes P")
  case None
  then show ?thesis
    using assms(1,4) by (intro exI [of _ False] exI [of _ m] exI [of _ q] exI [of _ "[]"]) (simp add: process_monitor_poll_def)
next
  case (Some current)
  then show ?thesis using poll_delivers [OF assms] by blast
qed


text \<open>A platform with one process and no time zone, for the witnesses.\<close>

definition no_clock :: time_api where
  "no_clock = \<lparr>FileTimeToLocalFileTime = (\<lambda>f. None), FileTimeToSystemTime = (\<lambda>f. None),
     SystemTimeToTzSpecificLocalTime = (\<lambda>t. None),
     SystemTimeToFileTime = (\<lambda>t. None)\<rparr>"

definition one_process :: process_api where
  "one_process =
     \<lparr>OpenProcess = (\<lambda>p. True), GetProcessTimes = (\<lambda>p. Some \<lparr>dwLowDateTime = 9, dwHighDateTime = 0\<rparr>),
      QueryFullProcessImageNameW = (\<lambda>p n. None),
      Toolhelp32 = Some [\<lparr>th32ProcessID = 4, th32ParentProcessID = 0, szExeFile = wide ''System''\<rparr>],
      realloc_ok = (\<lambda>n. True), qsort_entries = sort_by compare_snapshot_entries\<rparr>"

definition idle_monitor :: ProcessMonitor where
  "idle_monitor = \<lparr>pm_previous = [], pm_previous_count = 0, pm_initialized = False\<rparr>"

lemma idle_monitor_wf: "monitor_wf idle_monitor"
  by (simp add: monitor_wf_def idle_monitor_def sorted_by_def)

lemma one_process_sorts: "qsort_ok compare_snapshot_entries (qsort_entries one_process)"
  by (simp add: one_process_def snapshot_order.sort_by_ok)

lemma one_process_capture: "capture_processes one_process = Some [system_entry]"
  by (simp add: capture_processes_def one_process_def capture_entry_def query_process_identity_def
      system_entry_def sort_by_def filetime_to_u64_def wcopy_def MAX_PATH_def)


text \<open>
  Polling an unchanged system is quiet: a second poll over the same processes succeeds and
  leaves the queue untouched, because every identity matches itself.
\<close>

lemma unchanged_processes_are_quiet:
  assumes "monitor_wf m" and "qsort_ok compare_snapshot_entries (qsort_entries P)" and "capture_processes P = Some current"
    and "process_monitor_poll P W T utc M (Some m) (Some q) = Some (True, Some m', Some q')"
  shows "process_monitor_poll P W T utc' M' (Some m') (Some q'') = Some (True, Some m', Some q'')"
proof -
  have "m' = monitor_after current"
    using assms(4) unfolding poll_run [OF assms(1,2,3)]
    by (auto split: bind_splits)
  moreover have "monitor_wf (monitor_after current)"
    using capture_sorted(1) [OF assms(2,3)] by (simp add: monitor_wf_def monitor_after_def)
  moreover have "poll_starts W T utc' (monitor_after current) current = []"
      "poll_stops W T utc' (monitor_after current) current = []"
    using process_identity.nothing_missing [of current current]
    by (simp_all add: poll_starts_def poll_stops_def monitor_after_def)
  ultimately show ?thesis
    using poll_run [of "monitor_after current" P current W T utc' M' q''] assms(2,3) by simp
qed

section \<open>What the events say\<close>

definition entry_wf :: "ProcessSnapshotEntry \<Rightarrow> bool" where
  "entry_wf x \<longleftrightarrow> str_fits MAX_PATH (se_name x) \<and> str_fits MAX_PATH (se_path x)"

text \<open>Documented: the names are C strings, the image name fits the buffer it was asked for.\<close>

definition process_api_ok :: "process_api \<Rightarrow> bool" where
  "process_api_ok P \<longleftrightarrow>
     (\<forall>p n s. QueryFullProcessImageNameW P p n = Some s \<longrightarrow> str_fits n s) \<and>
     (\<forall>ts. Toolhelp32 P = Some ts \<longrightarrow> (\<forall>t \<in> set ts. 0 \<notin> set (szExeFile t)))"

lemma max_path_pos [simp]: "0 < MAX_PATH"
  by (simp add: MAX_PATH_def)

lemma query_path_fits:
  assumes "process_api_ok P" and "0 < n" and "str_fits n s"
  shows "\<exists>ok k path. query_process_identity P p (Some key) (Some s) n = (ok, Some k, Some path) \<and>
     pid k = p \<and> str_fits n path"
  using assms
  by (auto simp: query_process_identity_def process_api_ok_def Let_def split: option.splits)

lemma basename_no_nul: "0 \<notin> set p \<Longrightarrow> 0 \<notin> set (path_basename (Some p))"
  by (auto simp: path_basename_def Let_def dest: in_set_dropD split: option.splits if_splits)

lemma listed_name_fits:
  assumes "process_api_ok P"
  shows "\<exists>ok name. query_process_name P p (Some []) MAX_PATH = (ok, Some name) \<and> str_fits MAX_PATH name"
proof -
  have nz: "MAX_PATH \<noteq> 0" by (simp add: MAX_PATH_def)
  show ?thesis
  proof (cases "Toolhelp32 P")
    case None
    then show ?thesis by (intro exI [of _ False]) (simp add: query_process_name_def nz)
  next
    case (Some ts)
    show ?thesis
    proof (cases "find (\<lambda>t. th32ProcessID t = p) ts")
      case None
      then show ?thesis using Some by (intro exI [of _ False]) (simp add: query_process_name_def nz)
    next
      case t: (Some t)
      then have "t \<in> set ts" by (auto simp: find_Some_iff)
      then have "str_fits MAX_PATH (wcopy MAX_PATH (szExeFile t))"
        using assms Some by (intro str_fits_wcopy) (auto simp: process_api_ok_def)
      then show ?thesis using Some t by (intro exI [of _ True]) (simp add: query_process_name_def nz)
    qed
  qed
qed

lemma capture_entry_wf:
  assumes "process_api_ok P" and "Toolhelp32 P = Some ts" and "t \<in> set ts"
  shows "entry_wf (capture_entry P t)" and "pid (se_key (capture_entry P t)) = th32ProcessID t"
proof -
  obtain ok k path where "query_process_identity P (th32ProcessID t)
      (Some \<lparr>pid = th32ProcessID t, creation_time = 0\<rparr>) (Some []) MAX_PATH = (ok, Some k, Some path)"
      "pid k = th32ProcessID t" "str_fits MAX_PATH path"
    using query_path_fits [OF assms(1) max_path_pos, of "[]" "th32ProcessID t"] by fastforce
  then show "entry_wf (capture_entry P t)" "pid (se_key (capture_entry P t)) = th32ProcessID t"
    using assms by (auto simp: capture_entry_def entry_wf_def process_api_ok_def str_simps)
qed

lemma event_of_entry_wf: "entry_wf x \<Longrightarrow> event_wf (event_of_entry t x)"
  using zero_event_wf by (simp add: event_of_entry_def event_wf_def entry_wf_def wcopy_ident)

lemma details_fit:
  assumes "strsafe_ok W" and "CHR 0x00 \<notin> set fmt" and "\<forall>s. FStr s \<in> set args \<longrightarrow> 0 \<notin> set s"
  shows "str_fits TRACEGLASS_DETAIL_LENGTH (cch_printf W TRACEGLASS_DETAIL_LENGTH fmt args)"
  using str_fits_take [of TRACEGLASS_DETAIL_LENGTH "vformat fmt args"] vformat_no_nul [OF assms(2,3)] assms(1)
  by (simp add: cch_printf_take array_lengths)

text \<open>Both events are the entry's event with a parent, a timestamp and a text.\<close>

lemma with_parent_facts:
  assumes "sorted_by compare_snapshot_entries xs" and "\<forall>y \<in> set xs. entry_wf y" and "entry_wf x"
    and "event_with_parent x xs (length xs) (event_of_entry t x) = Some e"
  shows "event_wf e \<and> ev_type e = t \<and> ev_process e = se_key x \<and> pid (ev_parent e) = se_parent_pid x
    \<and> ev_process_name e = se_name x \<and> ev_executable_path e = se_path x
    \<and> (creation_time (ev_parent e) = 0 \<or> creation_time (ev_process e) = 0
       \<or> creation_time (ev_parent e) \<le> creation_time (ev_process e))"
proof (cases rule: event_with_parent_cases [OF assms(1), of x "event_of_entry t x"])
  case 1
  then show ?thesis
    using assms(3,4) event_of_entry_wf [OF assms(3), of t]
    by (simp add: event_of_entry_def entry_wf_def wcopy_ident zero_key_def)
next
  case (2 p)
  then have "str_fits MAX_PATH (se_name p)" using assms(2) by (simp add: entry_wf_def)
  then show ?thesis
    using 2 assms(3,4) event_of_entry_wf [OF assms(3), of t]
    by (auto simp: event_of_entry_def entry_wf_def wcopy_ident event_wf_def)
qed

lemma monitor_event:
  assumes "strsafe_ok W" and "sorted_by compare_snapshot_entries xs" and "\<forall>y \<in> set xs. entry_wf y" and "entry_wf x"
    and "emit_start_event W T utc b xs (length xs) x = Some e \<or> emit_stop_event W T utc xs (length xs) x = Some e"
  shows "event_wf e \<and> ev_type e \<in> {EVENT_PROCESS_START, EVENT_PROCESS_STOP} \<and> ev_process e = se_key x
    \<and> pid (ev_parent e) = se_parent_pid x
    \<and> ev_process_name e = se_name x \<and> ev_executable_path e = se_path x
    \<and> (creation_time (ev_parent e) = 0 \<or> creation_time (ev_process e) = 0
       \<or> creation_time (ev_parent e) \<le> creation_time (ev_process e))"
  using assms(5)
proof
  assume "emit_start_event W T utc b xs (length xs) x = Some e"
  then obtain e1 where e1: "event_with_parent x xs (length xs) (event_of_entry EVENT_PROCESS_START x) = Some e1"
      and e: "e = e1\<lparr>ev_timestamp := timestamp_from_creation_time T utc (creation_time (se_key x)),
       ev_details := cch_printf W TRACEGLASS_DETAIL_LENGTH
         (if b then ''Discovered at startup; parent %s (PID %lu); path %s''
          else ''Started; parent %s (PID %lu); path %s'')
         [FStr (if ev_parent_name e1 \<noteq> [] then ev_parent_name e1 else wide ''<unknown>''),
          FNum (unat (pid (ev_parent e1))),
          FStr (if ev_executable_path e1 \<noteq> [] then ev_executable_path e1
                else wide ''<access denied or unavailable>'')]\<rparr>"
    by (auto simp: emit_start_event_def split: bind_splits)
  note f = with_parent_facts [OF assms(2,3,4) e1]
  then have "event_wf e1" by blast
  then have nul: "0 \<notin> set (ev_parent_name e1)" "0 \<notin> set (ev_executable_path e1)"
    unfolding event_wf_def str_fits_def by blast+
  have "\<exists>d ts. e = e1\<lparr>ev_timestamp := ts, ev_details := d\<rparr> \<and> str_fits TRACEGLASS_DETAIL_LENGTH d"
    by (intro exI, intro conjI, rule e, intro details_fit [OF assms(1)]) (use nul in \<open>auto simp: wide_no_nul\<close>)
  then show ?thesis using f by (auto simp: event_wf_def)
next
  assume "emit_stop_event W T utc xs (length xs) x = Some e"
  then obtain e1 where e1: "event_with_parent x xs (length xs) (event_of_entry EVENT_PROCESS_STOP x) = Some e1"
      and e: "e = e1\<lparr>ev_timestamp := get_local_system_time T utc,
       ev_details := cch_printf W TRACEGLASS_DETAIL_LENGTH ''Process stopped (PID %lu)''
         [FNum (unat (pid (ev_process e1)))]\<rparr>"
    by (auto simp: emit_stop_event_def split: bind_splits)
  note f = with_parent_facts [OF assms(2,3,4) e1]
  have "\<exists>d ts. e = e1\<lparr>ev_timestamp := ts, ev_details := d\<rparr> \<and> str_fits TRACEGLASS_DETAIL_LENGTH d"
    by (intro exI, intro conjI, rule e, intro details_fit [OF assms(1)]) auto
  then show ?thesis using f by (auto simp: event_wf_def)
qed

text \<open>
  \<^bold>\<open>C22\<close>. A start or stop event of the monitor is well-formed and names the process it is about:
  its key, image name and path are those of the snapshot, its parent has the PID the system
  reported, and a parent is never younger than its child when both creation times are known (a
  reused parent PID is not taken for the parent).
\<close>

theorem monitor_event_facts:
  assumes "strsafe_ok W" and "sorted_by compare_snapshot_entries xs" and "\<forall>y \<in> set xs. entry_wf y" and "entry_wf x"
    and "emit_start_event W T utc b xs (length xs) x = Some e \<or> emit_stop_event W T utc xs (length xs) x = Some e"
  shows "event_wf e \<and> ev_type e \<in> {EVENT_PROCESS_START, EVENT_PROCESS_STOP} \<and> ev_process e = se_key x
    \<and> pid (ev_parent e) = se_parent_pid x
    \<and> ev_process_name e = se_name x \<and> ev_executable_path e = se_path x
    \<and> (creation_time (ev_parent e) = 0 \<or> creation_time (ev_process e) = 0
       \<or> creation_time (ev_parent e) \<le> creation_time (ev_process e))"
  by (rule monitor_event [OF assms])

theorem monitor_event_facts_witness:
  "\<exists>e. emit_start_event ascii_text no_clock zero_time False [system_entry, child_entry] 2 child_entry = Some e
     \<and> event_wf e \<and> pid (ev_parent e) = 4"
proof -
  let ?xs = "[system_entry, child_entry]"
  have wf: "\<forall>y \<in> set ?xs. entry_wf y" "entry_wf child_entry"
    by (simp_all add: entry_wf_def system_entry_def child_entry_def str_fits_def MAX_PATH_def wide_no_nul)
  obtain e where e: "emit_start_event ascii_text no_clock zero_time False ?xs (length ?xs) child_entry = Some e"
    using emit_events_total(1) [OF example_sorted] by blast
  have len: "length ?xs = 2" by simp
  have "event_wf e \<and> pid (ev_parent e) = se_parent_pid child_entry"
    using monitor_event_facts [OF ascii_text_strsafe example_sorted wf disjI1, OF e] by blast
  then show ?thesis using e unfolding len by (auto simp: child_entry_def)
qed

end
