(* ===== verification/TG_EtwMonitor.thy ===== *)
theory TG_EtwMonitor
  imports TG_ProcessMonitor
begin

text \<open>
  \<^verbatim>\<open>src/etw_monitor.c\<close>: the ETW consumer for kernel process events. Reading a property works on byte
  buffers with their sizes, every access bounds-checked (\<open>None\<close> is an access outside); starting
  and stopping is modelled with the operating system's resources as counters, so that what a failing
  path leaves behind is visible. TDH and the tracing functions are parameters.
\<close>

section \<open>Data\<close>

record guid =
  Data1 :: dword
  Data2 :: u16
  Data3 :: u16
  Data4 :: "byte list"

definition TRACEGLASS_KERNEL_PROCESS_PROVIDER :: guid where
  "TRACEGLASS_KERNEL_PROCESS_PROVIDER =
     \<lparr>Data1 = 0x22fb2cd6, Data2 = 0x0e7b, Data3 = 0x422b,
      Data4 = [0xa0, 0xc7, 0x2f, 0xad, 0x1f, 0xd0, 0xe7, 0x16]\<rparr>"

definition TRACEGLASS_PROCESS_START_EVENT_ID :: u16 where "TRACEGLASS_PROCESS_START_EVENT_ID = 1"
definition TRACEGLASS_PROCESS_STOP_EVENT_ID :: u16 where "TRACEGLASS_PROCESS_STOP_EVENT_ID = 2"

record EtwProcessMonitor =
  em_session_handle :: u64
  em_trace_handle :: u64
  em_thread :: "nat option"
  em_queue :: bool
  em_session_name :: wstr
  em_running :: bool
  em_enabled :: bool
  em_last_error :: dword

text \<open>The fields of an \<^verbatim>\<open>EVENT_RECORD\<close> that the callback reads.\<close>

record etw_record =
  ProviderId :: guid
  EventId :: u16
  HeaderProcessId :: dword
  TimeStamp :: u64

text \<open>
  Status and size of a property; status and the bytes stored by a call that asks for \<open>size\<close> bytes.
\<close>

record tdh_api =
  TdhGetPropertySize :: "etw_record \<Rightarrow> wstr \<Rightarrow> dword \<times> dword"
  TdhGetProperty :: "etw_record \<Rightarrow> wstr \<Rightarrow> dword \<Rightarrow> dword \<times> byte list"

definition ERROR_CANCELLED :: dword where "ERROR_CANCELLED = 1223"
definition INVALID_PROCESSTRACE_HANDLE :: u64 where "INVALID_PROCESSTRACE_HANDLE = 0xFFFFFFFFFFFFFFFF"

text \<open>Documented: the call stores no more than the bytes asked for.\<close>

definition tdh_ok :: "tdh_api \<Rightarrow> bool" where
  "tdh_ok D \<longleftrightarrow> (\<forall>r name n. length (snd (TdhGetProperty D r name n)) \<le> unat n)"

section \<open>Reading properties\<close>

text \<open>Storing bytes at the front of a buffer.\<close>

definition store_bytes :: "byte list \<Rightarrow> byte list \<Rightarrow> byte list option" where
  "store_bytes buffer bytes =
     (if length bytes \<le> length buffer then Some (bytes @ drop (length bytes) buffer) else None)"

text \<open>The result, the buffer and \<^verbatim>\<open>*property_size\<close> (which a failing call leaves alone).\<close>

definition read_event_property ::
  "tdh_api \<Rightarrow> etw_record \<Rightarrow> wstr \<Rightarrow> byte list \<Rightarrow> dword \<Rightarrow> dword \<Rightarrow> (bool \<times> byte list \<times> dword) option" where
  "read_event_property D event_record property_name buffer buffer_capacity property_size =
     (let (status, n) = TdhGetPropertySize D event_record property_name in
      if status \<noteq> ERROR_SUCCESS \<or> n = 0 \<or> n > buffer_capacity then Some (False, buffer, property_size)
      else (let (status2, bytes) = TdhGetProperty D event_record property_name n in do {
        buffer' \<leftarrow> store_bytes buffer bytes;
        Some (if status2 \<noteq> ERROR_SUCCESS then (False, buffer', property_size) else (True, buffer', n)) }))"

text \<open>The value of an integer object: its bytes, least significant first.\<close>

definition le_value :: "byte list \<Rightarrow> nat" where
  "le_value bs = foldr (\<lambda>b v. unat b + 256 * v) bs 0"

text \<open>Reading an integer of \<open>width\<close> bytes under one of two names.\<close>

definition read_event_integer ::
  "tdh_api \<Rightarrow> nat \<Rightarrow> etw_record \<Rightarrow> wstr \<Rightarrow> wstr option \<Rightarrow> nat option" where
  "read_event_integer D width event_record one two = do {
     (ok, value, n) \<leftarrow> read_event_property D event_record one (replicate width 0) (of_nat width) 0;
     (if ok \<and> n \<ge> of_nat width then Some (le_value value)
      else (case two of
        None \<Rightarrow> Some 0
      | Some second \<Rightarrow> (do {
          (ok2, value2, n2) \<leftarrow> read_event_property D event_record second (replicate width 0) (of_nat width) n;
          Some (if ok2 \<and> n2 \<ge> of_nat width then le_value value2 else 0) }))) }"

definition read_event_dword :: "tdh_api \<Rightarrow> etw_record \<Rightarrow> wstr \<Rightarrow> wstr option \<Rightarrow> dword option" where
  "read_event_dword D event_record one two = map_option of_nat (read_event_integer D 4 event_record one two)"

definition read_event_qword :: "tdh_api \<Rightarrow> etw_record \<Rightarrow> wstr \<Rightarrow> wstr option \<Rightarrow> u64 option" where
  "read_event_qword D event_record one two = map_option of_nat (read_event_integer D 8 event_record one two)"

text \<open>The bytes of a buffer as 16-bit units.\<close>

fun units_of_bytes :: "byte list \<Rightarrow> wstr" where
  "units_of_bytes (lo # hi # bs) = or (ucast lo) (push_bit 8 (ucast hi)) # units_of_bytes bs"
| "units_of_bytes _ = []"

text \<open>
  \<open>stack\<close> is what the local buffer of 2048 bytes happens to hold; the copy runs over its units up
  to the first NUL, and reading behind the buffer is \<open>None\<close>.
\<close>

definition read_event_string ::
  "tdh_api \<Rightarrow> etw_record \<Rightarrow> wstr \<Rightarrow> byte list \<Rightarrow> nat \<Rightarrow> wstr option" where
  "read_event_string D event_record property_name stack destination_count = do {
     (ok, property, property_size) \<leftarrow> read_event_property D event_record property_name stack 2048 0;
     (if \<not> ok then Some []
      else if property_size \<ge> 2 then do {
        p1 \<leftarrow> buf_put property 2046 0;
        p2 \<leftarrow> buf_put p1 2047 0;
        (if nul_terminated (units_of_bytes p2) \<or> destination_count \<le> length (units_of_bytes p2)
         then Some (wcopy destination_count (cstr (units_of_bytes p2))) else None) }
      else Some []) }"

section \<open>The callback\<close>

definition image_or_path_name :: "process_api \<Rightarrow> dword \<Rightarrow> wstr \<Rightarrow> wstr \<Rightarrow> wstr" where
  "image_or_path_name P p image_name path =
     (if image_name \<noteq> [] then wcopy MAX_PATH (path_basename (Some image_name))
      else if path \<noteq> [] then wcopy MAX_PATH (path_basename (Some path))
      else (case snd (query_process_name P p (Some []) MAX_PATH) of Some name \<Rightarrow> name | None \<Rightarrow> []))"

text \<open>The parent's key and name, given the child's creation time.\<close>

definition etw_parent :: "process_api \<Rightarrow> dword \<Rightarrow> u64 \<Rightarrow> ProcessKey \<times> wstr" where
  "etw_parent P p child_time =
     (if p = 0 then (zero_key, [])
      else (let (_, key, path_buffer) = query_process_identity P p (Some (zero_key\<lparr>pid := p\<rparr>)) (Some []) MAX_PATH;
                parent = (case key of Some k \<Rightarrow> k | None \<Rightarrow> zero_key);
                path = (case path_buffer of Some s \<Rightarrow> s | None \<Rightarrow> [])
            in if child_time \<noteq> 0 \<and> creation_time parent \<noteq> 0 \<and> creation_time parent > child_time
               then (parent\<lparr>creation_time := 0\<rparr>, [])
               else if path \<noteq> [] then (parent, wcopy MAX_PATH (path_basename (Some path)))
               else (parent, case snd (query_process_name P p (Some []) MAX_PATH) of Some name \<Rightarrow> name | None \<Rightarrow> [])))"

definition etw_event ::
  "tdh_api \<Rightarrow> process_api \<Rightarrow> text_api \<Rightarrow> time_api \<Rightarrow> systemtime \<Rightarrow> byte list \<Rightarrow> etw_record \<Rightarrow> TraceGlassEvent option" where
  "etw_event D P W T utc stack r = do {
     pid1 \<leftarrow> read_event_dword D r (wide ''ProcessID'') (Some (wide ''ProcessId''));
     time1 \<leftarrow> read_event_qword D r (wide ''CreateTime'') (Some (wide ''CreationTime''));
     parent_pid \<leftarrow> read_event_dword D r (wide ''ParentProcessID'') (Some (wide ''ParentProcessId''));
     image_name \<leftarrow> read_event_string D r (wide ''ImageName'') stack MAX_PATH;
     (let p = (if pid1 = 0 then HeaderProcessId r else pid1);
          (_, queried_key, path_buffer) = query_process_identity P p (Some zero_key) (Some []) MAX_PATH;
          queried = (case queried_key of Some k \<Rightarrow> k | None \<Rightarrow> zero_key);
          path = (case path_buffer of Some s \<Rightarrow> s | None \<Rightarrow> []);
          ct = (if creation_time queried \<noteq> 0 then creation_time queried else time1);
          (parent, parent_name) = etw_parent P parent_pid ct;
          t = (if EventId r = TRACEGLASS_PROCESS_START_EVENT_ID then EVENT_PROCESS_START else EVENT_PROCESS_STOP);
          executable_path = wcopy MAX_PATH path
      in Some (zero_event\<lparr>ev_type := t,
           ev_process := \<lparr>pid = p, creation_time = ct\<rparr>,
           ev_parent := parent,
           ev_parent_name := parent_name,
           ev_executable_path := executable_path,
           ev_process_name := image_or_path_name P p image_name path,
           ev_timestamp := (case local_systemtime_from_filetime T (TimeStamp r) of
             Some l \<Rightarrow> l | None \<Rightarrow> get_local_system_time T utc),
           ev_details :=
             (if t = EVENT_PROCESS_START
              then cch_printf W TRACEGLASS_DETAIL_LENGTH
                ''Process start observed through ETW; parent %s (PID %lu); path %s''
                [FStr (if parent_name \<noteq> [] then parent_name else wide ''<unknown>''),
                 FNum (unat (pid parent)),
                 FStr (if executable_path \<noteq> [] then executable_path else wide ''<unavailable>'')]
              else cch_printf W TRACEGLASS_DETAIL_LENGTH ''Process stop observed through ETW (PID %lu)''
                [FNum (unat p)])\<rparr>)) }"

definition etw_event_callback ::
  "tdh_api \<Rightarrow> process_api \<Rightarrow> text_api \<Rightarrow> time_api \<Rightarrow> systemtime \<Rightarrow> byte list \<Rightarrow> (node_heap \<Rightarrow> nat option) \<Rightarrow>
     EtwProcessMonitor option \<Rightarrow> etw_record option \<Rightarrow> node_heap \<times> EventQueue \<Rightarrow> (node_heap \<times> EventQueue) option" where
  "etw_event_callback D P W T utc stack M context_ptr event_record q =
     (case (event_record, context_ptr) of
        (Some r, Some m) \<Rightarrow>
          if \<not> em_running m \<or> ProviderId r \<noteq> TRACEGLASS_KERNEL_PROCESS_PROVIDER then Some q
          else if EventId r \<noteq> TRACEGLASS_PROCESS_START_EVENT_ID \<and> EventId r \<noteq> TRACEGLASS_PROCESS_STOP_EVENT_ID then Some q
          else (do { e \<leftarrow> etw_event D P W T utc stack r; emit_event M e q })
      | _ \<Rightarrow> Some q)"

section \<open>Reading stays in its buffers\<close>

lemma read_property_total:
  assumes "tdh_ok D" and "length buffer = unat capacity"
  shows "\<exists>ok b n. read_event_property D r name buffer capacity n0 = Some (ok, b, n) \<and> length b = length buffer"
proof -
  obtain status n where n: "TdhGetPropertySize D r name = (status, n)" by fastforce
  obtain status2 bytes where b: "TdhGetProperty D r name n = (status2, bytes)" by fastforce
  then have "length bytes \<le> unat n" using assms(1) unfolding tdh_ok_def by (metis snd_conv)
  then have "\<not> n > capacity \<Longrightarrow> length bytes \<le> length buffer" using assms(2) by (simp add: word_le_nat_alt not_less)
  then show ?thesis using n b by (auto simp: read_event_property_def store_bytes_def)
qed

lemma read_integer_total: "tdh_ok D \<Longrightarrow> width < 2 ^ 32 \<Longrightarrow> \<exists>v. read_event_integer D width r one two = Some v"
proof -
  assume a: "tdh_ok D" "width < 2 ^ 32"
  then have len: "length (replicate width (0 :: byte)) = unat (of_nat width :: dword)"
    by (simp add: unat_of_nat)
  obtain ok v n where "read_event_property D r one (replicate width 0) (of_nat width) 0 = Some (ok, v, n)"
    using read_property_total [OF a(1) len] by blast
  note one = this
  show ?thesis
  proof (cases two)
    case None
    then show ?thesis using one by (simp add: read_event_integer_def)
  next
    case (Some second)
    obtain ok2 v2 n2 where "read_event_property D r second (replicate width 0) (of_nat width) n = Some (ok2, v2, n2)"
      using read_property_total [OF a(1) len] by blast
    then show ?thesis using one Some by (simp add: read_event_integer_def)
  qed
qed

lemma units_append: "even (length xs) \<Longrightarrow> units_of_bytes (xs @ ys) = units_of_bytes xs @ units_of_bytes ys"
  by (induction xs rule: units_of_bytes.induct) auto

lemma terminated_units: "length b = 2048 \<Longrightarrow> nul_terminated (units_of_bytes (b[2046 := 0, 2047 := 0]))"
proof -
  assume b: "length b = 2048"
  have "b[2046 := 0, 2047 := 0] = take 2046 b @ [0, 0]"
  proof (rule nth_equalityI)
    fix i assume "i < length (b[2046 := 0, 2047 := 0])"
    then have "i < 2046 \<or> i = 2046 \<or> i = 2047" using b by auto
    then show "b[2046 := 0, 2047 := 0] ! i = (take 2046 b @ [0, 0]) ! i"
      using b by (auto simp: nth_append)
  qed (use b in simp)
  moreover have "even (length (take 2046 b))" using b by simp
  ultimately show ?thesis by (simp add: nul_terminated_def units_append)
qed

lemma read_string_total:
  assumes "tdh_ok D" and "length stack = 2048" and "0 < n"
  shows "\<exists>s. read_event_string D r name stack n = Some s \<and> str_fits n s"
proof -
  have "length stack = unat (2048 :: dword)" using assms(2) by simp
  then obtain ok b k where "read_event_property D r name stack 2048 0 = Some (ok, b, k)" "length b = 2048"
    using read_property_total [OF assms(1), of stack 2048 r name 0] assms(2) by metis
  then show ?thesis
    using terminated_units [of b] assms(3)
    by (auto simp: read_event_string_def buf_simps str_fits_wcopy)
qed

section \<open>What the callback reports\<close>

lemma image_name_fits:
  assumes "process_api_ok P" and "0 \<notin> set img" and "0 \<notin> set path"
  shows "str_fits MAX_PATH (image_or_path_name P p img path)"
proof -
  obtain ok name where "query_process_name P p (Some []) MAX_PATH = (ok, Some name)" "str_fits MAX_PATH name"
    using listed_name_fits [OF assms(1)] by blast
  then show ?thesis
    using basename_no_nul [OF assms(2)] basename_no_nul [OF assms(3)]
    by (simp add: image_or_path_name_def str_fits_wcopy)
qed

lemma etw_parent_facts:
  assumes "process_api_ok P"
  shows "pid (fst (etw_parent P p ct)) = p \<and> str_fits MAX_PATH (snd (etw_parent P p ct)) \<and>
    (creation_time (fst (etw_parent P p ct)) = 0 \<or> ct = 0 \<or> creation_time (fst (etw_parent P p ct)) \<le> ct)"
proof (cases "p = 0")
  case False
  obtain ok k path where q: "query_process_identity P p (Some (zero_key\<lparr>pid := p\<rparr>)) (Some []) MAX_PATH = (ok, Some k, Some path)"
      "pid k = p" "str_fits MAX_PATH path"
    using query_path_fits [OF assms max_path_pos, of "[]" p "zero_key\<lparr>pid := p\<rparr>"] by auto
  obtain ok2 name where n: "query_process_name P p (Some []) MAX_PATH = (ok2, Some name)" "str_fits MAX_PATH name"
    using listed_name_fits [OF assms] by blast
  have "0 \<notin> set path" using q(3) by (simp add: str_fits_def)
  then show ?thesis
    using False q(1,2) n basename_no_nul [of path]
    by (auto simp: etw_parent_def str_fits_wcopy not_less)
qed (simp add: etw_parent_def zero_key_def)

lemma etw_event_total:
  assumes "strsafe_ok W" and "tdh_ok D" and "process_api_ok P" and "length stack = 2048"
  shows "\<exists>e. etw_event D P W T utc stack r = Some e \<and> event_wf e \<and>
    ev_type e = (if EventId r = TRACEGLASS_PROCESS_START_EVENT_ID then EVENT_PROCESS_START else EVENT_PROCESS_STOP) \<and>
    (pid (ev_process e) = 0 \<longrightarrow> HeaderProcessId r = 0) \<and>
    (creation_time (ev_parent e) = 0 \<or> creation_time (ev_process e) = 0 \<or>
     creation_time (ev_parent e) \<le> creation_time (ev_process e))"
proof -
  obtain v1 v2 v3 where v:
      "read_event_dword D r (wide ''ProcessID'') (Some (wide ''ProcessId'')) = Some v1"
      "read_event_qword D r (wide ''CreateTime'') (Some (wide ''CreationTime'')) = Some v2"
      "read_event_dword D r (wide ''ParentProcessID'') (Some (wide ''ParentProcessId'')) = Some v3"
    using read_integer_total [OF assms(2), of 4] read_integer_total [OF assms(2), of 8]
    unfolding read_event_dword_def read_event_qword_def by fastforce
  obtain img where img: "read_event_string D r (wide ''ImageName'') stack MAX_PATH = Some img" "str_fits MAX_PATH img"
    using read_string_total [OF assms(2,4) max_path_pos] by blast
  define p where "p = (if v1 = 0 then HeaderProcessId r else v1)"
  obtain ok k path where q: "query_process_identity P p (Some zero_key) (Some []) MAX_PATH = (ok, Some k, Some path)"
      "str_fits MAX_PATH path"
    using query_path_fits [OF assms(3) max_path_pos, of "[]" p zero_key] by auto
  define ct where "ct = (if creation_time k \<noteq> 0 then creation_time k else v2)"
  obtain parent pname where pp: "etw_parent P v3 ct = (parent, pname)" by fastforce
  note pf = etw_parent_facts [OF assms(3), of v3 ct, unfolded pp fst_conv snd_conv]
  have nul: "0 \<notin> set img" "0 \<notin> set path" "0 \<notin> set pname" using img(2) q(2) pf by (auto simp: str_fits_def)
  let ?start = "EventId r = TRACEGLASS_PROCESS_START_EVENT_ID"
  define d where "d = (if ?start
    then cch_printf W TRACEGLASS_DETAIL_LENGTH ''Process start observed through ETW; parent %s (PID %lu); path %s''
      [FStr (if pname \<noteq> [] then pname else wide ''<unknown>''), FNum (unat (pid parent)),
       FStr (if path \<noteq> [] then path else wide ''<unavailable>'')]
    else cch_printf W TRACEGLASS_DETAIL_LENGTH ''Process stop observed through ETW (PID %lu)'' [FNum (unat p)])"
  have "str_fits TRACEGLASS_DETAIL_LENGTH (cch_printf W TRACEGLASS_DETAIL_LENGTH
      ''Process start observed through ETW; parent %s (PID %lu); path %s''
      [FStr (if pname \<noteq> [] then pname else wide ''<unknown>''), FNum (unat (pid parent)),
       FStr (if path \<noteq> [] then path else wide ''<unavailable>'')])"
    "str_fits TRACEGLASS_DETAIL_LENGTH (cch_printf W TRACEGLASS_DETAIL_LENGTH
      ''Process stop observed through ETW (PID %lu)'' [FNum (unat p)])"
    by (rule details_fit [OF assms(1)]; use nul in \<open>auto simp: wide_no_nul\<close>)+
  then have fit: "str_fits TRACEGLASS_DETAIL_LENGTH d" unfolding d_def by simp
  define ts where "ts = (case local_systemtime_from_filetime T (TimeStamp r) of
    Some l \<Rightarrow> l | None \<Rightarrow> get_local_system_time T utc)"
  define e where "e = zero_event\<lparr>ev_type := (if ?start then EVENT_PROCESS_START else EVENT_PROCESS_STOP),
    ev_process := \<lparr>pid = p, creation_time = ct\<rparr>, ev_parent := parent, ev_timestamp := ts,
    ev_process_name := image_or_path_name P p img path, ev_parent_name := pname,
    ev_executable_path := path, ev_details := d\<rparr>"
  have wp: "wcopy MAX_PATH path = path" using q(2) by (rule wcopy_ident)
  have "etw_event D P W T utc stack r = Some e"
    using q(1) pp unfolding e_def d_def ts_def
    by (cases "v1 = 0"; cases "creation_time k = 0"; cases ?start)
      (simp_all add: etw_event_def v img(1) Let_def p_def ct_def wp)
  moreover have "event_wf e"
    using fit zero_event_wf pf q(2) image_name_fits [OF assms(3) nul(1,2), of p]
    by (simp add: e_def event_wf_def)
  moreover have "pid (ev_process e) = 0 \<longrightarrow> HeaderProcessId r = 0" by (simp add: e_def p_def)
  ultimately show ?thesis using pf by (auto simp: e_def)
qed


text \<open>A provider that reports the start of process 4 without a name, for the witnesses.\<close>

definition bare_provider :: tdh_api where
  "bare_provider =
     \<lparr>TdhGetPropertySize = (\<lambda>r name. if name = wide ''ProcessID'' then (0, 4) else (1168, 0)),
      TdhGetProperty = (\<lambda>r name n. (0, take (unat n) [4, 0, 0, 0]))\<rparr>"

definition start_record :: etw_record where
  "start_record = \<lparr>ProviderId = TRACEGLASS_KERNEL_PROCESS_PROVIDER, EventId = 1, HeaderProcessId = 4, TimeStamp = 0\<rparr>"

definition consuming_monitor :: EtwProcessMonitor where
  "consuming_monitor = \<lparr>em_session_handle = 7, em_trace_handle = 8, em_thread = Some 9, em_queue = True,
     em_session_name = wide ''TraceGlass-Process-1'', em_running = True, em_enabled = True, em_last_error = 0\<rparr>"


text \<open>
  What the callback takes for the image name: a property without a terminating NUL is followed by
  whatever the stack buffer held before, which ends up in the event.
\<close>

lemma unterminated_name_reads_stack:
  "read_event_string \<lparr>TdhGetPropertySize = (\<lambda>r name. (0, 2)), TdhGetProperty = (\<lambda>r name n. (0, [65, 0]))\<rparr>
     start_record (wide ''ImageName'') (replicate 2048 66) MAX_PATH =
   Some (65 # replicate 258 0x4242)"
proof -
  let ?D = "\<lparr>TdhGetPropertySize = (\<lambda>r name. (0, 2)), TdhGetProperty = (\<lambda>r name n. (0, [65, 0]))\<rparr>"
  let ?b = "[65, 0] @ replicate 2044 66 @ [66, 66] :: byte list"
  have pairs: "units_of_bytes (replicate (2 * k) 66 @ bs) = replicate k 0x4242 @ units_of_bytes bs" for k bs
    by (induction k) simp_all
  have "replicate 2046 (66 :: byte) = replicate 2044 66 @ [66, 66]"
    using replicate_add [of 2044 2 "66 :: byte"] by (simp add: numeral_2_eq_2)
  then have b: "read_event_property ?D start_record (wide ''ImageName'') (replicate 2048 66) 2048 0 = Some (True, ?b, 2)"
    by (simp add: read_event_property_def store_bytes_def ERROR_SUCCESS_def)
  have len: "length ?b = 2048" by simp
  have "?b[2046 := 0, 2047 := 0] = [65, 0] @ replicate 2044 66 @ [0, 0]"
    by (simp add: list_update_append)
  then have u: "units_of_bytes (?b[2046 := 0, 2047 := 0]) = 65 # replicate 1022 0x4242 @ [0]"
    using pairs [of 1022 "[0, 0]"] by simp
  then have "cstr (units_of_bytes (?b[2046 := 0, 2047 := 0])) = 65 # replicate 1022 0x4242"
    using cstr_append_nul [of "65 # replicate 1022 0x4242" "[]"] by simp
  moreover have "wcopy MAX_PATH (65 # replicate 1022 0x4242) = 65 # replicate 258 0x4242"
    by (simp add: wcopy_def MAX_PATH_def take_Cons')
  moreover have "nul_terminated (units_of_bytes (?b[2046 := 0, 2047 := 0]))"
    using terminated_units [OF len] .
  ultimately show ?thesis
    using len by (simp add: read_event_string_def b buf_put_def)
qed

end
