(* ===== verification/TG_EtwSession.thy ===== *)
theory TG_EtwSession
  imports TG_EtwMonitor
begin

text \<open>
  \<^verbatim>\<open>src/etw_monitor.c\<close>, starting and stopping the trace session. The operating system's
  resources are explicit sets: sessions, trace handles, property blocks, threads and events.
  Closing what is not open, freeing what is not allocated and waiting for a thread that never ends
  are \<open>None\<close>, so that releasing everything exactly once, in an order that lets the waits return,
  is a theorem. The tracing functions are parameters.
\<close>

section \<open>Resources\<close>

text \<open>
  What a thread does: the consumer of a trace handle runs until the handle is closed
  (\<^verbatim>\<open>ProcessTrace\<close> returns then), the telemetry worker until its stop event is signalled.
\<close>

datatype thread_body = EtwConsumer u64 | TelemetryWorker nat

record os_state =
  os_sessions :: "u64 set"
  os_traces :: "u64 set"
  os_blocks :: "nat set"
  os_threads :: "nat \<rightharpoonup> thread_body"
  os_events :: "nat \<rightharpoonup> bool"
  os_winsock :: nat

text \<open>
  A failing \<^verbatim>\<open>OpenTraceW\<close>, \<^verbatim>\<open>CreateThread\<close> or \<^verbatim>\<open>CreateEventW\<close> comes with the code that
  \<^verbatim>\<open>GetLastError\<close> returns after it.
\<close>

record os_api =
  calloc_properties :: "os_state \<Rightarrow> nat \<Rightarrow> nat option"
  StartTraceW :: "os_state \<Rightarrow> wstr \<Rightarrow> dword \<times> u64"
  EnableTraceEx2 :: "os_state \<Rightarrow> u64 \<Rightarrow> bool \<Rightarrow> dword"
  ControlTraceW :: "os_state \<Rightarrow> u64 \<Rightarrow> dword"
  OpenTraceW :: "os_state \<Rightarrow> wstr \<Rightarrow> u64 \<times> dword"
  CreateThread :: "os_state \<Rightarrow> nat option \<times> dword"
  CreateEventW :: "os_state \<Rightarrow> nat option \<times> dword"
  GetCurrentProcessId :: dword

text \<open>
  Documented: a new resource is none of the existing ones, and the error of a failing call is not \<^verbatim>\<open>ERROR_SUCCESS\<close>.
\<close>

definition os_ok :: "os_api \<Rightarrow> bool" where
  "os_ok A \<longleftrightarrow>
     (\<forall>os n a. calloc_properties A os n = Some a \<longrightarrow> a \<notin> os_blocks os) \<and>
     (\<forall>os name h. StartTraceW A os name = (ERROR_SUCCESS, h) \<longrightarrow> h \<notin> os_sessions os) \<and>
     (\<forall>os name t err. OpenTraceW A os name = (t, err) \<longrightarrow>
        (if t = INVALID_PROCESSTRACE_HANDLE then err \<noteq> ERROR_SUCCESS else t \<notin> os_traces os)) \<and>
     (\<forall>os err. CreateThread A os = (None, err) \<longrightarrow> err \<noteq> ERROR_SUCCESS) \<and>
     (\<forall>os h err. CreateThread A os = (Some h, err) \<longrightarrow> os_threads os h = None \<and> os_events os h = None) \<and>
     (\<forall>os err. CreateEventW A os = (None, err) \<longrightarrow> err \<noteq> ERROR_SUCCESS) \<and>
     (\<forall>os h err. CreateEventW A os = (Some h, err) \<longrightarrow> os_threads os h = None \<and> os_events os h = None)"

definition free_block :: "nat \<Rightarrow> os_state \<Rightarrow> os_state option" where
  "free_block a os = (if a \<in> os_blocks os then Some (os\<lparr>os_blocks := os_blocks os - {a}\<rparr>) else None)"

text \<open>\<^verbatim>\<open>ControlTraceW(..., EVENT_TRACE_CONTROL_STOP)\<close>, whose result the sources ignore.\<close>

definition stop_session :: "os_api \<Rightarrow> u64 \<Rightarrow> os_state \<Rightarrow> os_state" where
  "stop_session A h os =
     (if ControlTraceW A os h = ERROR_SUCCESS then os\<lparr>os_sessions := os_sessions os - {h}\<rparr> else os)"

definition CloseTrace :: "u64 \<Rightarrow> os_state \<Rightarrow> os_state option" where
  "CloseTrace t os = (if t \<in> os_traces os then Some (os\<lparr>os_traces := os_traces os - {t}\<rparr>) else None)"

fun thread_ends :: "os_state \<Rightarrow> thread_body \<Rightarrow> bool" where
  "thread_ends os (EtwConsumer t) \<longleftrightarrow> t \<notin> os_traces os"
| "thread_ends os (TelemetryWorker event) \<longleftrightarrow> os_events os event = Some True"

text \<open>\<^verbatim>\<open>WaitForSingleObject(thread, INFINITE)\<close> and \<^verbatim>\<open>CloseHandle(thread)\<close> after it.\<close>

definition join_thread :: "nat \<Rightarrow> os_state \<Rightarrow> os_state option" where
  "join_thread h os =
     (case os_threads os h of
        None \<Rightarrow> None
      | Some body \<Rightarrow> if thread_ends os body then Some (os\<lparr>os_threads := (os_threads os)(h := None)\<rparr>) else None)"

section \<open>The session's properties\<close>

text \<open>The fields that are set; the name follows the structure in the same block.\<close>

record trace_properties =
  tp_BufferSize :: dword
  tp_Flags :: dword
  tp_ClientContext :: dword
  tp_LogFileMode :: dword
  tp_LoggerNameOffset :: dword
  tp_logger_name :: wstr

definition sizeof_EVENT_TRACE_PROPERTIES :: nat where "sizeof_EVENT_TRACE_PROPERTIES = 120"
definition WNODE_FLAG_TRACED_GUID :: dword where "WNODE_FLAG_TRACED_GUID = 0x20000"
definition EVENT_TRACE_REAL_TIME_MODE :: dword where "EVENT_TRACE_REAL_TIME_MODE = 0x100"

definition create_trace_properties :: "os_api \<Rightarrow> wstr \<Rightarrow> os_state \<Rightarrow> (nat \<times> trace_properties) option \<times> os_state" where
  "create_trace_properties A session_name os =
     (let name_bytes = (length session_name + 1) * 2;
          total_size = sizeof_EVENT_TRACE_PROPERTIES + name_bytes
      in case calloc_properties A os total_size of
           None \<Rightarrow> (None, os)
         | Some a \<Rightarrow>
             (Some (a, \<lparr>tp_BufferSize = of_nat total_size, tp_Flags = WNODE_FLAG_TRACED_GUID, tp_ClientContext = 2,
                        tp_LogFileMode = EVENT_TRACE_REAL_TIME_MODE,
                        tp_LoggerNameOffset = of_nat sizeof_EVENT_TRACE_PROPERTIES,
                        tp_logger_name = wcopy (name_bytes div 2) session_name\<rparr>),
              os\<lparr>os_blocks := insert a (os_blocks os)\<rparr>))"

text \<open>Stopping a session needs a block of properties; without memory the session stays.\<close>

definition stop_with_new_properties :: "os_api \<Rightarrow> wstr \<Rightarrow> u64 \<Rightarrow> os_state \<Rightarrow> os_state option" where
  "stop_with_new_properties A session_name h os =
     (case create_trace_properties A session_name os of
        (None, os') \<Rightarrow> Some os'
      | (Some (a, _), os') \<Rightarrow> free_block a (stop_session A h os'))"

section \<open>Start and stop\<close>

definition zero_etw_monitor :: EtwProcessMonitor where
  "zero_etw_monitor = \<lparr>em_session_handle = 0, em_trace_handle = 0, em_thread = None, em_queue = False,
     em_session_name = [], em_running = False, em_enabled = False, em_last_error = ERROR_SUCCESS\<rparr>"

definition fresh_etw_monitor :: "os_api \<Rightarrow> text_api \<Rightarrow> EtwProcessMonitor" where
  "fresh_etw_monitor A W = zero_etw_monitor\<lparr>em_trace_handle := INVALID_PROCESSTRACE_HANDLE, em_queue := True,
     em_session_name := cch_printf W 64 ''TraceGlass-Process-%lu'' [FNum (unat (GetCurrentProcessId A))]\<rparr>"

text \<open>After \<^verbatim>\<open>OpenTraceW\<close> has succeeded: the consumer thread, or everything undone.\<close>

definition start_consumer ::
  "os_api \<Rightarrow> EtwProcessMonitor \<Rightarrow> os_state \<Rightarrow> (bool \<times> EtwProcessMonitor \<times> os_state) option" where
  "start_consumer A m os =
     (case CreateThread A os of
        (Some th, _) \<Rightarrow>
          Some (True, m\<lparr>em_running := True, em_thread := Some th, em_enabled := True, em_last_error := ERROR_SUCCESS\<rparr>,
                os\<lparr>os_threads := (os_threads os)(th \<mapsto> EtwConsumer (em_trace_handle m))\<rparr>)
      | (None, err) \<Rightarrow> (do {
          os1 \<leftarrow> CloseTrace (em_trace_handle m) os;
          os2 \<leftarrow> stop_with_new_properties A (em_session_name m) (em_session_handle m) os1;
          Some (False, m\<lparr>em_last_error := err, em_running := False, em_trace_handle := INVALID_PROCESSTRACE_HANDLE,
                         em_session_handle := 0\<rparr>, os2) }))"

text \<open>After \<^verbatim>\<open>StartTraceW\<close> has succeeded, with the properties at \<open>a\<close>.\<close>

definition start_provider ::
  "os_api \<Rightarrow> EtwProcessMonitor \<Rightarrow> nat \<Rightarrow> os_state \<Rightarrow> (bool \<times> EtwProcessMonitor \<times> os_state) option" where
  "start_provider A m a os =
     (let status = EnableTraceEx2 A os (em_session_handle m) True;
          undo = (\<lambda>err m'. do {
            os1 \<leftarrow> free_block a (stop_session A (em_session_handle m) os);
            Some (False, m'\<lparr>em_last_error := err, em_session_handle := 0\<rparr>, os1) })
      in if status \<noteq> ERROR_SUCCESS then undo status m
         else (let (t, err) = OpenTraceW A os (em_session_name m);
                   m1 = m\<lparr>em_trace_handle := t\<rparr>
               in if t = INVALID_PROCESSTRACE_HANDLE then undo err m1
                  else (do {
                    os1 \<leftarrow> free_block a (os\<lparr>os_traces := insert t (os_traces os)\<rparr>);
                    start_consumer A m1 os1 })))"

definition etw_process_monitor_start ::
  "os_api \<Rightarrow> text_api \<Rightarrow> EtwProcessMonitor option \<Rightarrow> bool \<Rightarrow> os_state \<Rightarrow>
     (bool \<times> EtwProcessMonitor option \<times> os_state) option" where
  "etw_process_monitor_start A W monitor queue_given os =
     (if monitor = None \<or> \<not> queue_given then Some (False, monitor, os)
      else (let m = fresh_etw_monitor A W in
        case create_trace_properties A (em_session_name m) os of
          (None, os1) \<Rightarrow> Some (False, Some (m\<lparr>em_last_error := ERROR_OUTOFMEMORY\<rparr>), os1)
        | (Some (a, properties), os1) \<Rightarrow>
            (let (status, h) = StartTraceW A os1 (em_session_name m);
                 m1 = m\<lparr>em_session_handle := h\<rparr>
             in if status \<noteq> ERROR_SUCCESS then (do {
                  os2 \<leftarrow> free_block a os1;
                  Some (False, Some (m1\<lparr>em_last_error := status\<rparr>), os2) })
                else (do {
                  (ok, m2, os2) \<leftarrow> start_provider A m1 a (os1\<lparr>os_sessions := insert h (os_sessions os1)\<rparr>);
                  Some (ok, Some m2, os2) }))))"

definition etw_process_monitor_stop ::
  "os_api \<Rightarrow> EtwProcessMonitor option \<Rightarrow> os_state \<Rightarrow> (EtwProcessMonitor option \<times> os_state) option" where
  "etw_process_monitor_stop A monitor os =
     (case monitor of
        None \<Rightarrow> Some (None, os)
      | Some m \<Rightarrow>
          if \<not> em_enabled m then Some (Some m, os)
          else (do {
            os1 \<leftarrow> stop_with_new_properties A (em_session_name m) (em_session_handle m) os;
            os2 \<leftarrow> (if em_trace_handle m \<noteq> INVALID_PROCESSTRACE_HANDLE
                    then CloseTrace (em_trace_handle m) os1 else Some os1);
            os3 \<leftarrow> (case em_thread m of Some th \<Rightarrow> join_thread th os2 | None \<Rightarrow> Some os2);
            Some (Some zero_etw_monitor, os3) }))"

section \<open>Resources are returned\<close>

lemma os_okD:
  assumes "os_ok A"
  shows "calloc_properties A os n = Some a \<Longrightarrow> a \<notin> os_blocks os"
    and "StartTraceW A os name = (ERROR_SUCCESS, h) \<Longrightarrow> h \<notin> os_sessions os"
    and "OpenTraceW A os name = (INVALID_PROCESSTRACE_HANDLE, err) \<Longrightarrow> err \<noteq> ERROR_SUCCESS"
    and "OpenTraceW A os name = (t, err) \<Longrightarrow> t \<noteq> INVALID_PROCESSTRACE_HANDLE \<Longrightarrow> t \<notin> os_traces os"
    and "CreateThread A os = (None, err) \<Longrightarrow> err \<noteq> ERROR_SUCCESS"
    and "CreateThread A os = (Some th, err) \<Longrightarrow> os_threads os th = None \<and> os_events os th = None"
    and "CreateEventW A os = (None, err) \<Longrightarrow> err \<noteq> ERROR_SUCCESS"
    and "CreateEventW A os = (Some th, err) \<Longrightarrow> os_threads os th = None \<and> os_events os th = None"
  using assms unfolding os_ok_def by (metis, metis, metis, metis, metis, metis, metis, metis)

text \<open>
  An assumption that is not documented behaviour, only needed where a session is to be stopped:
  there is memory for its block of properties, and \<^verbatim>\<open>ControlTraceW\<close>, whose result the sources
  ignore, succeeds. What happens without it is shown at the end of this theory.
\<close>

definition sessions_stop :: "os_api \<Rightarrow> bool" where
  "sessions_stop A \<longleftrightarrow>
     (\<forall>os n. os_sessions os \<noteq> {} \<and> finite (os_blocks os) \<longrightarrow> calloc_properties A os n \<noteq> None) \<and>
     (\<forall>os h. h \<in> os_sessions os \<longrightarrow> ControlTraceW A os h = ERROR_SUCCESS)"

lemma sessions_stopD:
  assumes "sessions_stop A"
  shows "h \<in> os_sessions os \<Longrightarrow> ControlTraceW A os h = ERROR_SUCCESS"
  using assms by (simp add: sessions_stop_def)

text \<open>The name in the block is never cut: the block was sized for it.\<close>

lemma properties_hold_name:
  "create_trace_properties A name os = (Some (a, p), os') \<Longrightarrow> tp_logger_name p = name"
  by (auto simp: create_trace_properties_def wcopy_def Let_def split: option.splits)

lemma stop_with_properties_eq:
  assumes "os_ok A" and "sessions_stop A" and "finite (os_blocks os)" and "h \<in> os_sessions os"
  shows "stop_with_new_properties A name h os = Some (os\<lparr>os_sessions := os_sessions os - {h}\<rparr>)"
proof -
  let ?n = "sizeof_EVENT_TRACE_PROPERTIES + (length name + 1) * 2"
  have "calloc_properties A os ?n \<noteq> None" using assms(2,3,4) unfolding sessions_stop_def by blast
  then obtain a where a: "calloc_properties A os ?n = Some a" by blast
  then have new: "a \<notin> os_blocks os" by (rule os_okD(1) [OF assms(1)])
  let ?os = "os\<lparr>os_blocks := insert a (os_blocks os)\<rparr>"
  have "ControlTraceW A ?os h = ERROR_SUCCESS" using sessions_stopD [OF assms(2)] assms(4) by simp
  then show ?thesis
    using a new
    by (simp add: stop_with_new_properties_def create_trace_properties_def Let_def stop_session_def free_block_def)
qed

text \<open>A monitor that is collecting, and the resources it owns.\<close>

definition etw_live :: "EtwProcessMonitor \<Rightarrow> os_state \<Rightarrow> bool" where
  "etw_live m os \<longleftrightarrow> em_enabled m \<and> em_running m \<and> em_last_error m = ERROR_SUCCESS \<and>
     em_session_handle m \<in> os_sessions os \<and>
     em_trace_handle m \<noteq> INVALID_PROCESSTRACE_HANDLE \<and> em_trace_handle m \<in> os_traces os \<and>
     (\<exists>th. em_thread m = Some th \<and> os_threads os th = Some (EtwConsumer (em_trace_handle m)))"

definition without_etw :: "EtwProcessMonitor \<Rightarrow> os_state \<Rightarrow> os_state" where
  "without_etw m os = os\<lparr>os_sessions := os_sessions os - {em_session_handle m},
     os_traces := os_traces os - {em_trace_handle m},
     os_threads := (os_threads os)(the (em_thread m) := None)\<rparr>"

lemma stop_releases:
  assumes "os_ok A" and "sessions_stop A" and "finite (os_blocks os)" and "etw_live m os"
  shows "etw_process_monitor_stop A (Some m) os = Some (Some zero_etw_monitor, without_etw m os)"
  using assms(4) stop_with_properties_eq [OF assms(1,2,3), of "em_session_handle m" "em_session_name m"]
  by (auto simp: etw_live_def etw_process_monitor_stop_def CloseTrace_def join_thread_def without_etw_def)

text \<open>A start either leaves a collecting monitor, or returns everything and says why.\<close>

fun start_outcome :: "os_state \<Rightarrow> bool \<times> EtwProcessMonitor \<times> os_state \<Rightarrow> bool" where
  "start_outcome os (ok, m, os') \<longleftrightarrow>
     (if ok then etw_live m os' \<and> without_etw m os' = os
      else os' = os \<and> \<not> em_enabled m \<and> em_last_error m \<noteq> ERROR_SUCCESS)"

lemma consumer_outcome:
  assumes "os_ok A" and "sessions_stop A" and "finite (os_blocks os)" and "em_trace_handle m \<noteq> INVALID_PROCESSTRACE_HANDLE"
    and "em_trace_handle m \<notin> os_traces os" and "em_session_handle m \<notin> os_sessions os" and "\<not> em_enabled m"
  shows "\<exists>r. start_consumer A m (os\<lparr>os_sessions := insert (em_session_handle m) (os_sessions os),
           os_traces := insert (em_trace_handle m) (os_traces os)\<rparr>) = Some r \<and> start_outcome os r"
proof -
  let ?os1 = "os\<lparr>os_sessions := insert (em_session_handle m) (os_sessions os),
           os_traces := insert (em_trace_handle m) (os_traces os)\<rparr>"
  obtain th err where c: "CreateThread A ?os1 = (th, err)" by fastforce
  show ?thesis
  proof (cases th)
    case None
    have "stop_with_new_properties A (em_session_name m) (em_session_handle m)
        (?os1\<lparr>os_traces := os_traces ?os1 - {em_trace_handle m}\<rparr>) = Some os"
      using stop_with_properties_eq [OF assms(1,2), of "?os1\<lparr>os_traces := os_traces ?os1 - {em_trace_handle m}\<rparr>" "em_session_handle m"]
        assms(3,5,6) by simp
    moreover have "CloseTrace (em_trace_handle m) ?os1 = Some (?os1\<lparr>os_traces := os_traces ?os1 - {em_trace_handle m}\<rparr>)"
      by (simp add: CloseTrace_def)
    moreover have "err \<noteq> ERROR_SUCCESS" using os_okD(5) [OF assms(1)] c None by blast
    ultimately show ?thesis
      using c None assms(7) by (simp add: start_consumer_def)
  next
    case (Some h)
    then have "os_threads os h = None" using os_okD(6) [OF assms(1)] c by fastforce
    then have "(os_threads os)(h := None) = os_threads os" by auto
    then show ?thesis
      using c Some assms(4-6) by (simp add: start_consumer_def etw_live_def without_etw_def)
  qed
qed

lemma provider_outcome:
  assumes "os_ok A" and "sessions_stop A" and "finite (os_blocks os)" and "a \<notin> os_blocks os" and "em_session_handle m \<notin> os_sessions os"
    and "\<not> em_enabled m"
  shows "\<exists>r. start_provider A m a (os\<lparr>os_blocks := insert a (os_blocks os),
           os_sessions := insert (em_session_handle m) (os_sessions os)\<rparr>) = Some r \<and> start_outcome os r"
proof -
  let ?os1 = "os\<lparr>os_blocks := insert a (os_blocks os), os_sessions := insert (em_session_handle m) (os_sessions os)\<rparr>"
  have undo: "free_block a (stop_session A (em_session_handle m) ?os1) = Some os"
    using sessions_stopD [OF assms(2), of "em_session_handle m" ?os1] assms(4,5)
    by (simp add: stop_session_def free_block_def)
  obtain t err where t: "OpenTraceW A ?os1 (em_session_name m) = (t, err)" by fastforce
  consider "EnableTraceEx2 A ?os1 (em_session_handle m) True \<noteq> ERROR_SUCCESS"
    | "EnableTraceEx2 A ?os1 (em_session_handle m) True = ERROR_SUCCESS" "t = INVALID_PROCESSTRACE_HANDLE"
    | "EnableTraceEx2 A ?os1 (em_session_handle m) True = ERROR_SUCCESS" "t \<noteq> INVALID_PROCESSTRACE_HANDLE" by blast
  then show ?thesis
  proof cases
    case 1 then show ?thesis using undo assms(6) by (simp add: start_provider_def)
  next
    case 2
    then have "err \<noteq> ERROR_SUCCESS" using os_okD(3) [OF assms(1)] t by blast
    then show ?thesis using 2 undo t assms(6) by (simp add: start_provider_def)
  next
    case 3
    have "t \<notin> os_traces os" using os_okD(4) [OF assms(1) t 3(2)] by simp
    then obtain r where "start_consumer A (m\<lparr>em_trace_handle := t\<rparr>)
        (os\<lparr>os_sessions := insert (em_session_handle m) (os_sessions os), os_traces := insert t (os_traces os)\<rparr>) = Some r"
        "start_outcome os r"
      using consumer_outcome [OF assms(1,2,3), of "m\<lparr>em_trace_handle := t\<rparr>"] 3(2) assms(5,6) by auto
    then show ?thesis using 3 t assms(4) by (simp add: start_provider_def free_block_def)
  qed
qed

lemma start_result:
  assumes "os_ok A" and "sessions_stop A" and "finite (os_blocks os)"
  shows "\<exists>ok m' os'. etw_process_monitor_start A W (Some m) True os = Some (ok, Some m', os') \<and> start_outcome os (ok, m', os')"
proof -
  let ?m = "fresh_etw_monitor A W"
  have off: "\<not> em_enabled ?m" by (simp add: fresh_etw_monitor_def zero_etw_monitor_def)
  obtain b os1 where c: "create_trace_properties A (em_session_name ?m) os = (b, os1)" by fastforce
  show ?thesis
  proof (cases b)
    case None
    then show ?thesis
      using c off by (auto simp: etw_process_monitor_start_def Let_def create_trace_properties_def ERROR_OUTOFMEMORY_def
          ERROR_SUCCESS_def split: option.splits)
  next
    case (Some ap)
    then obtain a p where ap: "b = Some (a, p)" by fastforce
    then have a: "a \<notin> os_blocks os" "os1 = os\<lparr>os_blocks := insert a (os_blocks os)\<rparr>"
      using c os_okD(1) [OF assms(1)] by (auto simp: create_trace_properties_def Let_def split: option.splits)
    obtain status h where s: "StartTraceW A os1 (em_session_name ?m) = (status, h)" by fastforce
    show ?thesis
    proof (cases "status = ERROR_SUCCESS")
      case False
      then show ?thesis
        using c ap a s off by (auto simp: etw_process_monitor_start_def Let_def free_block_def)
    next
      case True
      then have "h \<notin> os_sessions os" using os_okD(2) [OF assms(1)] s a(2) by fastforce
      then obtain ok m' os' where "start_provider A (?m\<lparr>em_session_handle := h\<rparr>) a
          (os\<lparr>os_blocks := insert a (os_blocks os), os_sessions := insert h (os_sessions os)\<rparr>) = Some (ok, m', os')"
          "start_outcome os (ok, m', os')"
        using provider_outcome [OF assms a(1), of "?m\<lparr>em_session_handle := h\<rparr>"] off by auto
      then show ?thesis
        using c ap a(2) s True by (auto simp: etw_process_monitor_start_def Let_def)
    qed
  qed
qed

text \<open>
  Without that memory, or when \<^verbatim>\<open>ControlTraceW\<close> fails, a stop gives the monitor up with its session
  still active: nothing holds the handle any more, and the system keeps the session until it is
  stopped from outside.
\<close>

lemma stop_without_memory_leaks:
  assumes "etw_live m os"
    and "(\<forall>n. calloc_properties A os n = None) \<or>
      (\<forall>n. \<exists>a. calloc_properties A os n = Some a) \<and>
      (\<forall>blocks. ControlTraceW A (os\<lparr>os_blocks := blocks\<rparr>) (em_session_handle m) \<noteq> ERROR_SUCCESS)"
  shows "\<exists>os'. etw_process_monitor_stop A (Some m) os = Some (Some zero_etw_monitor, os') \<and>
    em_session_handle m \<in> os_sessions os'"
proof -
  let ?n = "sizeof_EVENT_TRACE_PROPERTIES + (length (em_session_name m) + 1) * 2"
  have "\<exists>blocks. stop_with_new_properties A (em_session_name m) (em_session_handle m) os = Some (os\<lparr>os_blocks := blocks\<rparr>)"
  proof (cases "calloc_properties A os ?n")
    case None
    then show ?thesis
      by (intro exI [of _ "os_blocks os"]) (simp add: stop_with_new_properties_def create_trace_properties_def Let_def)
  next
    case (Some a)
    then have "ControlTraceW A (os\<lparr>os_blocks := insert a (os_blocks os)\<rparr>) (em_session_handle m) \<noteq> ERROR_SUCCESS"
      using assms(2) by auto
    then show ?thesis
      using Some by (simp add: stop_with_new_properties_def create_trace_properties_def Let_def stop_session_def free_block_def)
        (rule exI, rule refl)
  qed
  then show ?thesis
    using assms(1) by (auto simp: etw_live_def etw_process_monitor_stop_def CloseTrace_def join_thread_def)
qed

end
