(* ===== verification/TG_NetworkMonitor.thy ===== *)
theory TG_NetworkMonitor
  imports TG_ProcessMonitor
begin

text \<open>
  \<^verbatim>\<open>src/network_monitor.c\<close>: the polling TCP monitor. The array of connections of the previous poll is
  sorted and searched with the C library; every array access of the poll is bounds-checked
  (\<open>None\<close> is an access outside). The platform's answers during a call are parameters; log lines
  are not modelled.
\<close>

section \<open>Data\<close>

record NetworkConnectionKey =
  nk_pid :: dword
  nk_local_address :: dword
  nk_remote_address :: dword
  nk_local_port :: u16
  nk_remote_port :: u16

text \<open>The array \<^verbatim>\<open>previous\<close> points to, and how many of its entries are in use.\<close>

record NetworkMonitor =
  nm_previous :: "NetworkConnectionKey list"
  nm_previous_count :: nat
  nm_winsock_initialized :: bool

text \<open>The fields of \<^verbatim>\<open>MIB_TCPROW_OWNER_PID\<close>; a port is in network byte order in the low half.\<close>

record tcp_row =
  dwState :: dword
  dwLocalAddr :: dword
  dwLocalPort :: dword
  dwRemoteAddr :: dword
  dwRemotePort :: dword
  dwOwningPid :: dword

text \<open>
  \<^item> \<open>WSAStartup\<close>: the status. \<open>InetNtopW address n\<close>: the text, \<open>None\<close> for a failing call.
  \<^item> \<open>TcpTableSize\<close>: status and size of the sizing call of \<^verbatim>\<open>GetExtendedTcpTable\<close>;
    \<open>TcpTable size\<close>: status and rows of the call with a buffer of that size.
  \<^item> \<open>malloc_ok\<close>, \<open>calloc_ok\<close>: whether that many bytes, entries, can be allocated.
  \<^item> \<open>qsort_keys\<close>, \<open>bsearch_key\<close>: the C library over \<^verbatim>\<open>compare_connection_keys\<close>.
\<close>

record network_api =
  WSAStartup :: int
  InetNtopW :: "dword \<Rightarrow> nat \<Rightarrow> wstr option"
  TcpTableSize :: "dword \<times> dword"
  TcpTable :: "dword \<Rightarrow> dword \<times> tcp_row list"
  malloc_ok :: "dword \<Rightarrow> bool"
  calloc_ok :: "nat \<Rightarrow> bool"
  qsort_keys :: "NetworkConnectionKey list \<Rightarrow> NetworkConnectionKey list"
  bsearch_key :: "NetworkConnectionKey \<Rightarrow> NetworkConnectionKey list \<Rightarrow> nat option"

definition NO_ERROR :: dword where "NO_ERROR = 0"
definition ERROR_INSUFFICIENT_BUFFER :: dword where "ERROR_INSUFFICIENT_BUFFER = 122"
definition MIB_TCP_STATE_ESTAB :: dword where "MIB_TCP_STATE_ESTAB = 5"

section \<open>Ordering and searching\<close>

definition compare_connection_keys :: "NetworkConnectionKey \<Rightarrow> NetworkConnectionKey \<Rightarrow> int" where
  "compare_connection_keys left right =
     (if nk_pid left < nk_pid right then - 1
      else if nk_pid left > nk_pid right then 1
      else if nk_local_address left < nk_local_address right then - 1
      else if nk_local_address left > nk_local_address right then 1
      else if nk_local_port left < nk_local_port right then - 1
      else if nk_local_port left > nk_local_port right then 1
      else if nk_remote_address left < nk_remote_address right then - 1
      else if nk_remote_address left > nk_remote_address right then 1
      else if nk_remote_port left < nk_remote_port right then - 1
      else if nk_remote_port left > nk_remote_port right then 1 else 0)"

definition connection_exists ::
  "network_api \<Rightarrow> NetworkConnectionKey list \<Rightarrow> nat \<Rightarrow> NetworkConnectionKey \<Rightarrow> bool option" where
  "connection_exists N entries entry_count key =
     (if entry_count > length entries then None
      else Some (entry_count > 0 \<and> bsearch_key N key (take entry_count entries) \<noteq> None))"

section \<open>Events\<close>

text \<open>Winsock's \<^verbatim>\<open>ntohs\<close> on the little-endian hosts of Windows.\<close>

definition ntohs :: "u16 \<Rightarrow> u16" where
  "ntohs w = or (push_bit 8 w) (drop_bit 8 w)"

definition address_to_string :: "network_api \<Rightarrow> dword \<Rightarrow> nat \<Rightarrow> wstr" where
  "address_to_string N address buffer_count =
     (case InetNtopW N address buffer_count of
        Some s \<Rightarrow> s
      | None \<Rightarrow> wcopy buffer_count (wide ''0.0.0.0''))"

text \<open>The name of the owner: from its path, else from the process list.\<close>

definition owner_name :: "process_api \<Rightarrow> dword \<Rightarrow> wstr \<Rightarrow> wstr" where
  "owner_name P p path =
     (if path \<noteq> [] then wcopy MAX_PATH (path_basename (Some path))
      else (case query_process_name P p (Some []) MAX_PATH of
              (True, Some name) \<Rightarrow> name
            | _ \<Rightarrow> wcopy MAX_PATH (wide ''<unknown>'')))"

definition network_event ::
  "network_api \<Rightarrow> process_api \<Rightarrow> text_api \<Rightarrow> time_api \<Rightarrow> systemtime \<Rightarrow> NetworkConnectionKey \<Rightarrow> TraceGlassEvent" where
  "network_event N P W T utc key =
     (let (_, process, path_buffer) =
            query_process_identity P (nk_pid key) (Some (zero_key\<lparr>pid := nk_pid key\<rparr>)) (Some []) MAX_PATH;
          path = (case path_buffer of Some s \<Rightarrow> s | None \<Rightarrow> []);
          local_address = address_to_string N (nk_local_address key) TRACEGLASS_ADDRESS_LENGTH;
          remote_address = address_to_string N (nk_remote_address key) TRACEGLASS_ADDRESS_LENGTH
      in zero_event\<lparr>ev_type := EVENT_NETWORK,
           ev_process := (case process of Some k \<Rightarrow> k | None \<Rightarrow> zero_key),
           ev_executable_path := wcopy MAX_PATH path,
           ev_process_name := owner_name P (nk_pid key) path,
           ev_protocol := wcopy TRACEGLASS_PROTOCOL_LENGTH (wide ''TCP''),
           ev_network_state := wcopy TRACEGLASS_STATE_LENGTH (wide ''ESTABLISHED''),
           ev_local_address := local_address,
           ev_remote_address := remote_address,
           ev_local_port := nk_local_port key,
           ev_remote_port := nk_remote_port key,
           ev_timestamp := get_local_system_time T utc,
           ev_details := cch_printf W TRACEGLASS_DETAIL_LENGTH
             ''Established TCP connection; local %s:%u; remote %s:%u''
             [FStr local_address, FNum (unat (nk_local_port key)),
              FStr remote_address, FNum (unat (nk_remote_port key))]\<rparr>)"

definition emit_network_event ::
  "network_api \<Rightarrow> process_api \<Rightarrow> text_api \<Rightarrow> time_api \<Rightarrow> systemtime \<Rightarrow> (node_heap \<Rightarrow> nat option) \<Rightarrow>
     NetworkConnectionKey \<Rightarrow> node_heap \<times> EventQueue \<Rightarrow> (node_heap \<times> EventQueue) option" where
  "emit_network_event N P W T utc M key q = emit_event M (network_event N P W T utc key) q"

section \<open>The monitor\<close>

text \<open>Both operations also return how many Winsock startups are not yet cleaned up.\<close>

definition network_monitor_initialize ::
  "network_api \<Rightarrow> NetworkMonitor option \<Rightarrow> nat \<Rightarrow> bool \<times> NetworkMonitor option \<times> nat" where
  "network_monitor_initialize N monitor startups =
     (case monitor of
        None \<Rightarrow> (False, None, startups)
      | Some _ \<Rightarrow>
          (let m = \<lparr>nm_previous = [], nm_previous_count = 0, nm_winsock_initialized = False\<rparr> in
           if WSAStartup N \<noteq> 0 then (False, Some m, startups)
           else (True, Some (m\<lparr>nm_winsock_initialized := True\<rparr>), startups + 1)))"

definition network_monitor_destroy :: "NetworkMonitor option \<Rightarrow> nat \<Rightarrow> NetworkMonitor option \<times> nat" where
  "network_monitor_destroy monitor startups =
     (case monitor of
        None \<Rightarrow> (None, startups)
      | Some m \<Rightarrow>
          (Some \<lparr>nm_previous = [], nm_previous_count = 0, nm_winsock_initialized = False\<rparr>,
           if nm_winsock_initialized m then startups - 1 else startups))"

definition key_of_row :: "tcp_row \<Rightarrow> NetworkConnectionKey" where
  "key_of_row row =
     \<lparr>nk_pid = dwOwningPid row, nk_local_address = dwLocalAddr row, nk_remote_address = dwRemoteAddr row,
      nk_local_port = ntohs (ucast (dwLocalPort row)), nk_remote_port = ntohs (ucast (dwRemotePort row))\<rparr>"

text \<open>The loop over the rows; \<open>emit\<close> is \<open>emit_network_event\<close> with the platform's answers.\<close>

fun poll_rows ::
  "network_api \<Rightarrow> (NetworkConnectionKey \<Rightarrow> node_heap \<times> EventQueue \<Rightarrow> (node_heap \<times> EventQueue) option) \<Rightarrow>
     NetworkMonitor \<Rightarrow> tcp_row list \<Rightarrow> NetworkConnectionKey list \<Rightarrow> nat \<Rightarrow> node_heap \<times> EventQueue \<Rightarrow>
     (NetworkConnectionKey list \<times> nat \<times> node_heap \<times> EventQueue) option" where
  "poll_rows N emit m [] current current_count q = Some (current, current_count, q)"
| "poll_rows N emit m (row # rows) current current_count q =
     (if dwState row \<noteq> MIB_TCP_STATE_ESTAB then poll_rows N emit m rows current current_count q
      else do {
        current' \<leftarrow> buf_put current current_count (key_of_row row);
        known \<leftarrow> connection_exists N (nm_previous m) (nm_previous_count m) (key_of_row row);
        q' \<leftarrow> (if \<not> known then emit (key_of_row row) q else Some q);
        poll_rows N emit m rows current' (current_count + 1) q' })"

definition zero_connection :: NetworkConnectionKey where
  "zero_connection = \<lparr>nk_pid = 0, nk_local_address = 0, nk_remote_address = 0, nk_local_port = 0, nk_remote_port = 0\<rparr>"

definition network_monitor_poll ::
  "network_api \<Rightarrow> process_api \<Rightarrow> text_api \<Rightarrow> time_api \<Rightarrow> systemtime \<Rightarrow> (node_heap \<Rightarrow> nat option) \<Rightarrow>
     NetworkMonitor option \<Rightarrow> (node_heap \<times> EventQueue) option \<Rightarrow>
     (bool \<times> NetworkMonitor option \<times> (node_heap \<times> EventQueue) option) option" where
  "network_monitor_poll N P W T utc M monitor queue =
     (case (monitor, queue) of
        (Some m, Some q) \<Rightarrow>
          (let (status, table_size) = TcpTableSize N in
           if status \<noteq> ERROR_INSUFFICIENT_BUFFER \<or> table_size = 0 then Some (False, monitor, queue)
           else if \<not> malloc_ok N table_size then Some (False, monitor, queue)
           else (let (status2, table) = TcpTable N table_size in
             if status2 \<noteq> NO_ERROR then Some (False, monitor, queue)
             else if length table > 0 \<and> \<not> calloc_ok N (length table) then Some (False, monitor, queue)
             else (do {
               (current, current_count, q') \<leftarrow>
                 poll_rows N (emit_network_event N P W T utc M) m table
                   (replicate (length table) zero_connection) 0 q;
               Some (True,
                 Some (m\<lparr>nm_previous := (if current_count > 1
                            then qsort_keys N (take current_count current) @ drop current_count current
                            else current),
                         nm_previous_count := current_count\<rparr>),
                 Some q') })))
      | _ \<Rightarrow> Some (False, monitor, queue))"

section \<open>The comparator\<close>

definition same_connection :: "NetworkConnectionKey \<Rightarrow> NetworkConnectionKey \<Rightarrow> bool" where
  "same_connection a b \<longleftrightarrow> compare_connection_keys a b = 0"

lemma same_connection_eq: "same_connection a b \<longleftrightarrow> a = b"
  unfolding same_connection_def compare_connection_keys_def field_equal
  by (cases a; cases b) auto

interpretation connection_order: comparator compare_connection_keys
  unfolding compare_connection_keys_def [abs_def]
  by (intro comparator_field comparator_constant)

interpretation connection_identity: snapshot_identity same_connection
  by unfold_locales (simp_all add: same_connection_eq)

section \<open>The poll\<close>

definition established :: "tcp_row list \<Rightarrow> NetworkConnectionKey list" where
  "established rows = map key_of_row (filter (\<lambda>row. dwState row = MIB_TCP_STATE_ESTAB) rows)"

definition known_connections :: "NetworkMonitor \<Rightarrow> NetworkConnectionKey list" where
  "known_connections m = take (nm_previous_count m) (nm_previous m)"

definition network_wf :: "NetworkMonitor \<Rightarrow> bool" where
  "network_wf m \<longleftrightarrow> nm_previous_count m \<le> length (nm_previous m) \<and>
     sorted_by compare_connection_keys (known_connections m)"

definition new_connections :: "NetworkMonitor \<Rightarrow> tcp_row list \<Rightarrow> NetworkConnectionKey list" where
  "new_connections m rows = missing same_connection (known_connections m) (established rows)"

definition clib_ok :: "network_api \<Rightarrow> bool" where
  "clib_ok N \<longleftrightarrow> qsort_ok compare_connection_keys (qsort_keys N) \<and>
     bsearch_ok compare_connection_keys (bsearch_key N)"

text \<open>The calls of the poll all succeed, with these rows.\<close>

definition tcp_table :: "network_api \<Rightarrow> tcp_row list \<Rightarrow> bool" where
  "tcp_table N rows \<longleftrightarrow>
     fst (TcpTableSize N) = ERROR_INSUFFICIENT_BUFFER \<and> snd (TcpTableSize N) \<noteq> 0 \<and>
     malloc_ok N (snd (TcpTableSize N)) \<and> TcpTable N (snd (TcpTableSize N)) = (NO_ERROR, rows) \<and>
     (rows \<noteq> [] \<longrightarrow> calloc_ok N (length rows))"

lemma connection_exists_known:
  assumes "clib_ok N" and "network_wf m"
  shows "connection_exists N (nm_previous m) (nm_previous_count m) key
    = Some (list_ex (\<lambda>y. same_connection y key) (known_connections m))"
proof -
  have "bsearch_key N key (known_connections m) \<noteq> None \<longleftrightarrow> (\<exists>x \<in> set (known_connections m). same_connection key x)"
    using bsearch_found [of compare_connection_keys "bsearch_key N" "known_connections m" key] assms
    by (simp add: clib_ok_def network_wf_def same_connection_def)
  then have found: "bsearch_key N key (known_connections m) \<noteq> None \<longleftrightarrow> key \<in> set (known_connections m)"
    by (simp add: same_connection_eq)
  have in_known: "list_ex (\<lambda>y. same_connection y key) (known_connections m) \<longleftrightarrow> key \<in> set (known_connections m)"
    by (auto simp: list_ex_iff same_connection_eq)
  have "nm_previous_count m = 0 \<Longrightarrow> known_connections m = []" by (simp add: known_connections_def)
  then show ?thesis
    unfolding in_known connection_exists_def using assms(2) found
    by (cases "nm_previous_count m = 0") (auto simp: network_wf_def known_connections_def)
qed

lemma missing_Cons: "missing same others (x # xs)
    = (if list_ex (\<lambda>y. same y x) others then missing same others xs else x # missing same others xs)"
  by (simp add: missing_def)

lemma poll_rows_run:
  assumes "clib_ok N" and "network_wf m" and "n + length (established rows) \<le> length cur"
  shows "poll_rows N (\<lambda>k. emit_event M (f k)) m rows cur n q =
    do { q' \<leftarrow> emit_events M (map f (new_connections m rows)) q;
         Some (take n cur @ established rows @ drop (n + length (established rows)) cur,
               n + length (established rows), q') }"
  using assms(3)
proof (induction rows arbitrary: cur n q)
  case Nil
  then show ?case by (simp add: established_def new_connections_def missing_def)
next
  case (Cons row rows)
  show ?case
  proof (cases "dwState row = MIB_TCP_STATE_ESTAB")
    case False
    then show ?thesis using Cons by (simp add: established_def new_connections_def)
  next
    case True
    let ?k = "key_of_row row"
    have e: "established (row # rows) = ?k # established rows" using True by (simp add: established_def)
    then have n: "n < length cur" and le: "n + 1 + length (established rows) \<le> length (cur[n := ?k])"
      using Cons.prems by auto
    have new: "new_connections m (row # rows)
        = (if list_ex (\<lambda>y. same_connection y ?k) (known_connections m) then new_connections m rows
           else ?k # new_connections m rows)"
      by (simp add: new_connections_def e missing_Cons)
    have t: "take (n + 1) (cur[n := ?k]) = take n cur @ [?k]"
      using take_Suc_update [OF n] by simp
    show ?thesis
      using True n le t e
      by (cases "emit_event M (f ?k) q")
        (simp_all add: new buf_simps connection_exists_known [OF assms(1,2)] Cons.IH)
  qed
qed

definition network_after :: "network_api \<Rightarrow> NetworkMonitor \<Rightarrow> tcp_row list \<Rightarrow> NetworkMonitor" where
  "network_after N m rows =
     (let now = established rows;
          rest = replicate (length rows - length now) zero_connection
      in m\<lparr>nm_previous := (if length now > 1 then qsort_keys N now else now) @ rest,
           nm_previous_count := length now\<rparr>)"

lemma length_established: "length (established rows) \<le> length rows"
  by (simp add: established_def)

lemma network_poll_run:
  assumes "clib_ok N" and "network_wf m" and "tcp_table N rows"
  shows "network_monitor_poll N P W T utc M (Some m) (Some q) =
    do { q' \<leftarrow> emit_events M (map (network_event N P W T utc) (new_connections m rows)) q;
         Some (True, Some (network_after N m rows), Some q') }"
  using assms(3) length_established [of rows]
  by (auto simp: network_monitor_poll_def tcp_table_def case_prod_unfold emit_network_event_def [abs_def]
      poll_rows_run [OF assms(1,2)] network_after_def Let_def)

lemma network_after_facts:
  assumes "clib_ok N"
  shows "network_wf (network_after N m rows)"
    and "mset (known_connections (network_after N m rows)) = mset (established rows)"
proof -
  note q = qsort_okD [of compare_connection_keys "qsort_keys N" "established rows"]
  have "length (established rows) \<le> 1 \<Longrightarrow> sorted_by compare_connection_keys (established rows)"
    by (cases "established rows") (auto simp: sorted_by_def)
  then show "network_wf (network_after N m rows)"
    "mset (known_connections (network_after N m rows)) = mset (established rows)"
    using q assms by (auto simp: network_wf_def known_connections_def network_after_def clib_ok_def Let_def)
qed

lemma network_poll_fails:
  assumes "\<nexists>rows. tcp_table N rows"
  shows "network_monitor_poll N P W T utc M (Some m) (Some q) = Some (False, Some m, Some q)"
proof -
  obtain status size where s: "TcpTableSize N = (status, size)" by fastforce
  obtain status2 rows where t: "TcpTable N size = (status2, rows)" by fastforce
  have "\<not> tcp_table N rows" using assms by blast
  then show ?thesis using s t by (auto simp: network_monitor_poll_def tcp_table_def)
qed

text \<open>Whatever the platform answers, a poll returns and leaves a usable monitor and queue.\<close>

lemma network_poll_total:
  assumes "clib_ok N" and "network_wf m" and "malloc_fresh M" and "holds q es"
  shows "\<exists>ok m' q' kept. network_monitor_poll N P W T utc M (Some m) (Some q) = Some (ok, Some m', Some q') \<and>
    holds q' (es @ kept) \<and> network_wf m' \<and> nm_winsock_initialized m' = nm_winsock_initialized m"
proof (cases "\<exists>rows. tcp_table N rows")
  case True
  then obtain rows where t: "tcp_table N rows" by blast
  obtain q' kept where "emit_events M (map (network_event N P W T utc) (new_connections m rows)) q = Some q'"
      "holds q' (es @ kept)"
    using emit_events_hold [OF assms(3,4)] by blast
  moreover have "nm_winsock_initialized (network_after N m rows) = nm_winsock_initialized m"
    by (simp add: network_after_def Let_def)
  ultimately show ?thesis
    using network_poll_run [OF assms(1,2) t] network_after_facts(1) [OF assms(1)] by auto
next
  case False
  then show ?thesis
    using network_poll_fails assms(2,4)
    by (intro exI [of _ False] exI [of _ m] exI [of _ q] exI [of _ "[]"]) simp
qed

section \<open>What the events say\<close>

text \<open>Documented: the address text is a C string that fits the buffer.\<close>

definition network_api_ok :: "network_api \<Rightarrow> bool" where
  "network_api_ok N \<longleftrightarrow> (\<forall>a n s. InetNtopW N a n = Some s \<longrightarrow> str_fits n s)"

lemma ntohs_swaps: "unat (ntohs w) = 256 * (unat w mod 256) + unat w div 256"
proof -
  have bound: "unat w < 65536" using unsigned_less [of w] by simp
  have low: "\<not> bit (push_bit 8 w) n \<or> \<not> bit (drop_bit 8 w) n" for n
    using bit_imp_le_length [of w "8 + n"] by (auto simp: bit_simps)
  have "push_bit 8 w = w * 256" by (simp add: push_bit_eq_mult)
  then have "unat (push_bit 8 w) = 256 * (unat w mod 256)" using mult_mod_right [of 256 "unat w" 256]
    by (simp add: unat_word_ariths mult.commute)
  moreover have "unat (drop_bit 8 w) = unat w div 256"
    by (simp add: drop_bit_eq_div unat_div)
  moreover have "ntohs w = push_bit 8 w + drop_bit 8 w"
    using disjunctive_add_eq_or [of "push_bit 8 w" "drop_bit 8 w"] low by (auto simp: ntohs_def bit_eq_iff bit_simps)
  moreover have "256 * (unat w mod 256) + unat w div 256 < 65536"
  proof -
    have "unat w mod 256 < 256" "unat w div 256 < 256" using bound by auto
    then show ?thesis by linarith
  qed
  ultimately show ?thesis by (simp add: unat_word_ariths)
qed

lemma port_of_row:
  "unat (ntohs (ucast (d :: dword))) = 256 * (unat d mod 256) + unat d div 256 mod 256"
proof -
  have "unat d mod 65536 div 256 = unat d div 256 mod 256"
    using div_mult2_eq [of "unat d" 256 256] mod_mult2_eq [of "unat d" 256 256] by simp
  then show ?thesis
    by (simp add: ntohs_swaps unsigned_ucast_eq take_bit_eq_mod mod_mod_cancel)
qed

lemma detail_pos: "0 < TRACEGLASS_DETAIL_LENGTH"
  by (simp add: array_lengths)

lemma address_fits: "network_api_ok N \<Longrightarrow> 1 < n \<Longrightarrow> str_fits n (address_to_string N a n)"
  by (auto simp: address_to_string_def network_api_ok_def str_simps wide_no_nul split: option.splits)

lemma owner_name_fits:
  assumes "process_api_ok P" and "0 \<notin> set path"
  shows "str_fits MAX_PATH (owner_name P p path)"
proof -
  have "str_fits MAX_PATH (wcopy MAX_PATH (wide ''<unknown>''))"
    by (rule str_fits_wcopy) (simp_all add: wide_no_nul)
  moreover obtain ok name where "query_process_name P p (Some []) MAX_PATH = (ok, Some name)" "str_fits MAX_PATH name"
    using listed_name_fits [OF assms(1)] by blast
  ultimately show ?thesis
    using basename_no_nul [OF assms(2)]
    by (cases ok) (simp_all add: owner_name_def str_fits_wcopy)
qed

lemma network_event:
  assumes "strsafe_ok W" and "network_api_ok N" and "process_api_ok P"
    and "e = network_event N P W T utc (key_of_row row)"
  shows "event_wf e \<and> ev_type e = EVENT_NETWORK \<and> pid (ev_process e) = dwOwningPid row
    \<and> ev_protocol e = wide ''TCP'' \<and> ev_network_state e = wide ''ESTABLISHED''
    \<and> unat (ev_local_port e) = 256 * (unat (dwLocalPort row) mod 256) + unat (dwLocalPort row) div 256 mod 256
    \<and> unat (ev_remote_port e) = 256 * (unat (dwRemotePort row) mod 256) + unat (dwRemotePort row) div 256 mod 256
    \<and> ev_details e = wide ''Established TCP connection; local '' @ ev_local_address e @ wide '':'' @
        dec (unat (ev_local_port e)) @ wide ''; remote '' @ ev_remote_address e @ wide '':'' @
        dec (unat (ev_remote_port e))"
proof -
  let ?p = "dwOwningPid row"
  obtain ok k path where q: "query_process_identity P ?p (Some (zero_key\<lparr>pid := ?p\<rparr>)) (Some []) MAX_PATH
      = (ok, Some k, Some path)" "pid k = ?p" "str_fits MAX_PATH path"
    using query_path_fits [OF assms(3) max_path_pos, of "[]" ?p] by fastforce
  let ?la = "address_to_string N (dwLocalAddr row) TRACEGLASS_ADDRESS_LENGTH"
  let ?ra = "address_to_string N (dwRemoteAddr row) TRACEGLASS_ADDRESS_LENGTH"
  let ?text = "wide ''Established TCP connection; local '' @ ?la @ wide '':'' @
    dec (unat (ntohs (ucast (dwLocalPort row)))) @ wide ''; remote '' @ ?ra @ wide '':'' @
    dec (unat (ntohs (ucast (dwRemotePort row))))"
  have fits: "str_fits TRACEGLASS_ADDRESS_LENGTH ?la" "str_fits TRACEGLASS_ADDRESS_LENGTH ?ra"
    using address_fits [OF assms(2)] by (simp_all add: array_lengths)
  then have "length ?la < 64" "length ?ra < 64" by (simp_all add: str_fits_def array_lengths)
  then have len: "length ?text < TRACEGLASS_DETAIL_LENGTH"
    using port_length [of "ntohs (ucast (dwLocalPort row))"] port_length [of "ntohs (ucast (dwRemotePort row))"]
    by (simp add: array_lengths)
  have rendered: "vformat ''Established TCP connection; local %s:%u; remote %s:%u''
      [FStr ?la, FNum (unat (ntohs (ucast (dwLocalPort row)))), FStr ?ra, FNum (unat (ntohs (ucast (dwRemotePort row))))] = ?text"
    by (simp add: conversion_spec_def wide_def zero_pad_def)
  have nul: "0 \<notin> set ?text"
    using fits digits_no_nul [OF dec_digits] by (auto simp: str_fits_def wide_no_nul)
  have details: "cch_printf W TRACEGLASS_DETAIL_LENGTH ''Established TCP connection; local %s:%u; remote %s:%u''
      [FStr ?la, FNum (unat (ntohs (ucast (dwLocalPort row)))), FStr ?ra, FNum (unat (ntohs (ucast (dwRemotePort row))))] = ?text"
    unfolding cch_printf_take [OF assms(1) detail_pos] rendered using len by simp
  have e: "e = zero_event\<lparr>ev_type := EVENT_NETWORK, ev_process := k,
      ev_process_name := owner_name P ?p path, ev_executable_path := wcopy MAX_PATH path,
      ev_protocol := wide ''TCP'', ev_local_address := ?la, ev_remote_address := ?ra,
      ev_network_state := wide ''ESTABLISHED'', ev_local_port := ntohs (ucast (dwLocalPort row)),
      ev_remote_port := ntohs (ucast (dwRemotePort row)), ev_timestamp := get_local_system_time T utc,
      ev_details := ?text\<rparr>"
    using q(1) details
    by (simp add: assms(4) network_event_def key_of_row_def wcopy_fits array_lengths Let_def)
  have "event_wf e"
    unfolding e event_wf_def
    using zero_event_wf q(3) fits len nul owner_name_fits [OF assms(3), of path ?p]
    by (simp add: event_wf_def wcopy_ident) (simp add: str_fits_def array_lengths wide_no_nul)
  then show ?thesis using q(2) by (simp add: e port_of_row)
qed

text \<open>
  \<^bold>\<open>C25\<close>. The event of an established row is a well-formed TCP event about the row's owner: the
  ports are the row's low halves with their bytes swapped to host order, and the details name both
  endpoints in full (the text is never cut).
\<close>

theorem network_event_facts:
  assumes "strsafe_ok W" and "network_api_ok N" and "process_api_ok P"
    and "e = network_event N P W T utc (key_of_row row)"
  shows "event_wf e \<and> ev_type e = EVENT_NETWORK \<and> pid (ev_process e) = dwOwningPid row
    \<and> ev_protocol e = wide ''TCP'' \<and> ev_network_state e = wide ''ESTABLISHED''
    \<and> unat (ev_local_port e) = 256 * (unat (dwLocalPort row) mod 256) + unat (dwLocalPort row) div 256 mod 256
    \<and> unat (ev_remote_port e) = 256 * (unat (dwRemotePort row) mod 256) + unat (dwRemotePort row) div 256 mod 256
    \<and> ev_details e = wide ''Established TCP connection; local '' @ ev_local_address e @ wide '':'' @
        dec (unat (ev_local_port e)) @ wide ''; remote '' @ ev_remote_address e @ wide '':'' @
        dec (unat (ev_remote_port e))"
  by (rule network_event [OF assms])

section \<open>Properties of the poll\<close>

text \<open>A platform with one established connection and one listening socket, for the witnesses.\<close>

definition web_row :: tcp_row where
  "web_row = \<lparr>dwState = 5, dwLocalAddr = 1, dwLocalPort = 0x5000, dwRemoteAddr = 2, dwRemotePort = 0xBB01, dwOwningPid = 4\<rparr>"

definition listening_row :: tcp_row where
  "listening_row = web_row\<lparr>dwState := 2\<rparr>"

definition one_connection :: network_api where
  "one_connection =
     \<lparr>WSAStartup = 0, InetNtopW = (\<lambda>a n. None), TcpTableSize = (122, 64),
      TcpTable = (\<lambda>n. (0, [listening_row, web_row])), malloc_ok = (\<lambda>n. True), calloc_ok = (\<lambda>n. True),
      qsort_keys = sort_by compare_connection_keys, bsearch_key = search_by compare_connection_keys\<rparr>"

definition idle_network :: NetworkMonitor where
  "idle_network = \<lparr>nm_previous = [], nm_previous_count = 0, nm_winsock_initialized = True\<rparr>"

lemma idle_network_wf: "network_wf idle_network"
  by (simp add: network_wf_def idle_network_def known_connections_def sorted_by_def)

lemma one_connection_clib: "clib_ok one_connection"
  by (simp add: clib_ok_def one_connection_def connection_order.sort_by_ok search_by_ok)

lemma one_connection_table: "tcp_table one_connection [listening_row, web_row]"
  by (simp add: tcp_table_def one_connection_def ERROR_INSUFFICIENT_BUFFER_def NO_ERROR_def)

lemma one_connection_new: "new_connections idle_network [listening_row, web_row] = [key_of_row web_row]"
  by (simp add: new_connections_def idle_network_def known_connections_def established_def missing_def
      listening_row_def web_row_def MIB_TCP_STATE_ESTAB_def)

theorem network_event_facts_witness:
  "unat (ev_local_port (network_event one_connection one_process ascii_text no_clock zero_time (key_of_row web_row))) = 80"
proof -
  have "network_api_ok one_connection" "process_api_ok one_process"
    by (simp_all add: network_api_ok_def one_connection_def process_api_ok_def one_process_def wide_no_nul)
  then show ?thesis
    using network_event_facts [OF ascii_text_strsafe _ _ refl, of one_connection one_process no_clock zero_time web_row]
    by (simp add: web_row_def)
qed



text \<open>
  \<^bold>\<open>C24\<close>. Whatever the platform answers (a failing query, no memory, an empty table), a poll
  performs no access outside an array and keeps the monitor sorted, and a poll that returns
  \<^verbatim>\<open>FALSE\<close> leaves both the snapshot and the queue untouched, so that the next successful poll
  still reports what changed meanwhile.
\<close>

theorem network_poll_errors_change_nothing:
  assumes "clib_ok N" and "network_wf m" and "malloc_fresh M" and "holds q es"
  shows "\<exists>ok m' q'. network_monitor_poll N P W T utc M (Some m) (Some q) = Some (ok, Some m', Some q') \<and>
    network_wf m' \<and> (\<not> ok \<longrightarrow> m' = m \<and> q' = q) \<and> (ok \<longleftrightarrow> (\<exists>rows. tcp_table N rows))"
proof (cases "\<exists>rows. tcp_table N rows")
  case True
  then obtain rows where t: "tcp_table N rows" by blast
  obtain q' where "emit_events M (map (network_event N P W T utc) (new_connections m rows)) q = Some q'"
    using emit_events_hold [OF assms(3,4)] by blast
  then show ?thesis
    using network_poll_run [OF assms(1,2) t] network_after_facts [OF assms(1)] True by auto
next
  case False
  then show ?thesis using network_poll_fails assms(2) by auto
qed

theorem network_poll_errors_change_nothing_witness:
  "network_monitor_poll (one_connection\<lparr>malloc_ok := (\<lambda>n. False)\<rparr>) one_process ascii_text no_clock zero_time
      two_slots (Some idle_network) (Some (Map.empty, fresh_queue)) = Some (False, Some idle_network, Some (Map.empty, fresh_queue))"
proof -
  let ?N = "one_connection\<lparr>malloc_ok := (\<lambda>n. False)\<rparr>"
  have "clib_ok ?N" using one_connection_clib by (simp add: clib_ok_def)
  moreover have "\<nexists>rows. tcp_table ?N rows" by (simp add: tcp_table_def)
  ultimately show ?thesis
    using network_poll_errors_change_nothing [OF _ idle_network_wf two_slots_fresh fresh_queue_holds, of ?N one_process
      ascii_text no_clock zero_time] by auto
qed

end
