(* ===== verification/TG_Telemetry.thy ===== *)
theory TG_Telemetry
  imports TG_EtwSession TG_NetworkMonitor
begin

text \<open>
  \<^verbatim>\<open>src/telemetry.c\<close>: the engine that owns the two polling monitors, the ETW monitor, the worker
  thread and its stop event. The lifecycle works on the resources of \<open>TG_EtwSession\<close>; the worker
  is a loop over rounds of polls, with the answers of its waits as a parameter.
\<close>

section \<open>The engine\<close>

record TelemetryEngine =
  te_worker_thread :: "nat option"
  te_stop_event :: "nat option"
  te_queue :: bool
  te_process_monitor :: ProcessMonitor
  te_network_monitor :: NetworkMonitor
  te_etw_monitor :: EtwProcessMonitor
  te_network_available :: bool
  te_running :: bool

definition zero_process_monitor :: ProcessMonitor where
  "zero_process_monitor = \<lparr>pm_previous = [], pm_previous_count = 0, pm_initialized = False\<rparr>"

definition zero_network_monitor :: NetworkMonitor where
  "zero_network_monitor = \<lparr>nm_previous = [], nm_previous_count = 0, nm_winsock_initialized = False\<rparr>"

definition zero_engine :: TelemetryEngine where
  "zero_engine = \<lparr>te_worker_thread = None, te_stop_event = None, te_queue = False,
     te_process_monitor = zero_process_monitor, te_network_monitor = zero_network_monitor,
     te_etw_monitor = zero_etw_monitor, te_network_available = False, te_running = False\<rparr>"

definition initialize_network :: "network_api \<Rightarrow> TelemetryEngine \<Rightarrow> os_state \<Rightarrow> TelemetryEngine \<times> os_state" where
  "initialize_network N e os =
     (let (available, monitor, startups) = network_monitor_initialize N (Some (te_network_monitor e)) (os_winsock os)
      in (e\<lparr>te_network_monitor := the monitor, te_network_available := available\<rparr>, os\<lparr>os_winsock := startups\<rparr>))"

definition destroy_network :: "TelemetryEngine \<Rightarrow> os_state \<Rightarrow> TelemetryEngine \<times> os_state" where
  "destroy_network e os =
     (let (monitor, startups) = network_monitor_destroy (Some (te_network_monitor e)) (os_winsock os)
      in (e\<lparr>te_network_monitor := the monitor\<rparr>, os\<lparr>os_winsock := startups\<rparr>))"

definition initialize_telemetry ::
  "os_api \<Rightarrow> network_api \<Rightarrow> TelemetryEngine option \<Rightarrow> bool \<Rightarrow> os_state \<Rightarrow> bool \<times> TelemetryEngine option \<times> os_state" where
  "initialize_telemetry A N engine queue_given os =
     (if engine = None \<or> \<not> queue_given then (False, engine, os)
      else (let e0 = zero_engine\<lparr>te_queue := True\<rparr>;
                e1 = e0\<lparr>te_process_monitor := the (process_monitor_initialize (Some (te_process_monitor e0)))\<rparr>;
                (e2, os1) = initialize_network N e1 os
            in case CreateEventW A os1 of
                 (None, err) \<Rightarrow>
                   (let (e3, os2) = (if te_network_available e2 then destroy_network e2 os1 else (e2, os1))
                    in (False, Some e3, os2))
               | (Some event, _) \<Rightarrow>
                   (True, Some (e2\<lparr>te_stop_event := Some event\<rparr>), os1\<lparr>os_events := (os_events os1)(event \<mapsto> False)\<rparr>)))"

definition start_telemetry ::
  "os_api \<Rightarrow> text_api \<Rightarrow> TelemetryEngine option \<Rightarrow> os_state \<Rightarrow> (bool \<times> TelemetryEngine option \<times> os_state) option" where
  "start_telemetry A W engine os =
     (case engine of
        None \<Rightarrow> Some (False, None, os)
      | Some e \<Rightarrow>
          (case te_stop_event e of
             None \<Rightarrow> Some (False, Some e, os)
           | Some event \<Rightarrow>
               if te_running e then Some (False, Some e, os)
               else (do {
                 (_, etw, os1) \<leftarrow> etw_process_monitor_start A W (Some (te_etw_monitor e)) (te_queue e)
                   (os\<lparr>os_events := (os_events os)(event \<mapsto> False)\<rparr>);
                 (let e1 = e\<lparr>te_etw_monitor := the etw\<rparr> in
                  case CreateThread A os1 of
                    (Some th, _) \<Rightarrow>
                      Some (True, Some (e1\<lparr>te_running := True, te_worker_thread := Some th\<rparr>),
                            os1\<lparr>os_threads := (os_threads os1)(th \<mapsto> TelemetryWorker event)\<rparr>)
                  | (None, err) \<Rightarrow> (do {
                      (etw', os2) \<leftarrow> etw_process_monitor_stop A (Some (te_etw_monitor e1)) os1;
                      Some (False, Some (e1\<lparr>te_running := False, te_worker_thread := None, te_etw_monitor := the etw'\<rparr>), os2) })) })))"

text \<open>Signalling or closing an event that is not open is undefined here.\<close>

definition SetEvent :: "nat \<Rightarrow> os_state \<Rightarrow> os_state option" where
  "SetEvent event os =
     (if os_events os event = None then None else Some (os\<lparr>os_events := (os_events os)(event \<mapsto> True)\<rparr>))"

definition CloseEvent :: "nat \<Rightarrow> os_state \<Rightarrow> os_state option" where
  "CloseEvent event os =
     (if os_events os event = None then None else Some (os\<lparr>os_events := (os_events os)(event := None)\<rparr>))"

definition stop_worker :: "TelemetryEngine \<Rightarrow> os_state \<Rightarrow> (TelemetryEngine \<times> os_state) option" where
  "stop_worker e os =
     (if \<not> te_running e then Some (e, os)
      else (do {
        os1 \<leftarrow> (case te_stop_event e of Some event \<Rightarrow> SetEvent event os | None \<Rightarrow> None);
        os2 \<leftarrow> (case te_worker_thread e of Some th \<Rightarrow> join_thread th os1 | None \<Rightarrow> Some os1);
        Some (e\<lparr>te_worker_thread := None, te_running := False\<rparr>, os2) }))"

definition shutdown_telemetry ::
  "os_api \<Rightarrow> TelemetryEngine option \<Rightarrow> os_state \<Rightarrow> (TelemetryEngine option \<times> os_state) option" where
  "shutdown_telemetry A engine os =
     (case engine of
        None \<Rightarrow> Some (None, os)
      | Some e0 \<Rightarrow> (do {
          (e, os1) \<leftarrow> stop_worker e0 os;
          (etw, os2) \<leftarrow> etw_process_monitor_stop A (Some (te_etw_monitor e)) os1;
          (let e1 = e\<lparr>te_etw_monitor := the etw,
                      te_process_monitor := the (process_monitor_destroy (Some (te_process_monitor e)))\<rparr>;
               (e2, os3) = (if te_network_available e1 then destroy_network e1 os2 else (e1, os2));
               e3 = e2\<lparr>te_network_available := False\<rparr>
           in case te_stop_event e3 of
                None \<Rightarrow> Some (Some e3, os3)
              | Some event \<Rightarrow> (do {
                  os4 \<leftarrow> CloseEvent event os3;
                  Some (Some (e3\<lparr>te_stop_event := None\<rparr>), os4) })) }))"

definition telemetry_etw_enabled :: "TelemetryEngine option \<Rightarrow> bool" where
  "telemetry_etw_enabled engine = (case engine of Some e \<Rightarrow> em_enabled (te_etw_monitor e) | None \<Rightarrow> False)"

definition ERROR_INVALID_HANDLE :: dword where "ERROR_INVALID_HANDLE = 6"

definition telemetry_etw_error :: "TelemetryEngine option \<Rightarrow> dword" where
  "telemetry_etw_error engine =
     (case engine of Some e \<Rightarrow> em_last_error (te_etw_monitor e) | None \<Rightarrow> ERROR_INVALID_HANDLE)"

definition telemetry_mode_name :: "TelemetryEngine option \<Rightarrow> wstr" where
  "telemetry_mode_name engine = (if telemetry_etw_enabled engine then wide ''ETW'' else wide ''Win32 Fallback'')"

section \<open>The worker\<close>

text \<open>What the platform answers during one round of polls.\<close>

record poll_env =
  pe_process :: process_api
  pe_network :: network_api
  pe_process_time :: systemtime
  pe_network_time :: systemtime
  pe_malloc :: "node_heap \<Rightarrow> nat option"

text \<open>The body of the loop; the results of the polls are ignored.\<close>

definition worker_round ::
  "text_api \<Rightarrow> time_api \<Rightarrow> poll_env \<Rightarrow> TelemetryEngine \<times> node_heap \<times> EventQueue \<Rightarrow>
     (TelemetryEngine \<times> node_heap \<times> EventQueue) option" where
  "worker_round W T env st = (case st of (e, q) \<Rightarrow> do {
     (_, pm, q1) \<leftarrow> process_monitor_poll (pe_process env) W T (pe_process_time env) (pe_malloc env)
       (Some (te_process_monitor e)) (if te_queue e then Some q else None);
     (if te_network_available e
      then do {
        (_, nm, q2) \<leftarrow> network_monitor_poll (pe_network env) (pe_process env) W T (pe_network_time env) (pe_malloc env)
          (Some (te_network_monitor e)) q1;
        Some (e\<lparr>te_process_monitor := the pm, te_network_monitor := the nm\<rparr>, case q2 of Some q' \<Rightarrow> q' | None \<Rightarrow> q) }
      else Some (e\<lparr>te_process_monitor := the pm\<rparr>, case q1 of Some q' \<Rightarrow> q' | None \<Rightarrow> q)) })"

text \<open>
  \<open>signalled i\<close> says whether the \<open>i\<close>-th wait finds the stop event signalled, \<open>env k\<close> what the
  platform answers in round \<open>k\<close>. \<open>None\<close> is undefined behaviour in a poll, or a worker that never
  sees the event.
\<close>

partial_function (option) telemetry_worker ::
  "text_api \<Rightarrow> time_api \<Rightarrow> (nat \<Rightarrow> bool) \<Rightarrow> (nat \<Rightarrow> poll_env) \<Rightarrow> nat \<Rightarrow> TelemetryEngine \<times> node_heap \<times> EventQueue \<Rightarrow>
     (TelemetryEngine \<times> node_heap \<times> EventQueue) option" where
  "telemetry_worker W T signalled env k st =
     (if signalled (2 * k) then Some st
      else Option.bind (worker_round W T (env k) st)
        (\<lambda>st'. if signalled (2 * k + 1) then Some st' else telemetry_worker W T signalled env (k + 1) st'))"

section \<open>The lifecycle\<close>

text \<open>The stop event and the Winsock startup of an initialized engine, on top of \<open>base\<close>.\<close>

definition engine_base :: "os_state \<Rightarrow> TelemetryEngine \<Rightarrow> nat \<Rightarrow> bool \<Rightarrow> os_state" where
  "engine_base base e event flag =
     base\<lparr>os_events := (os_events base)(event \<mapsto> flag),
          os_winsock := os_winsock base + (if te_network_available e then 1 else 0)\<rparr>"

text \<open>The worker and the ETW monitor of a running engine, on top of \<open>mid\<close>.\<close>

definition threads_owned :: "os_state \<Rightarrow> TelemetryEngine \<Rightarrow> nat \<Rightarrow> os_state \<Rightarrow> bool" where
  "threads_owned mid e event os \<longleftrightarrow>
     (if te_running e
      then (\<exists>th os1. te_worker_thread e = Some th \<and> os_threads os1 th = None \<and>
             os = os1\<lparr>os_threads := (os_threads os1)(th \<mapsto> TelemetryWorker event)\<rparr> \<and>
             start_outcome mid (em_enabled (te_etw_monitor e), te_etw_monitor e, os1))
      else te_worker_thread e = None \<and> \<not> em_enabled (te_etw_monitor e) \<and> os = mid)"

text \<open>An engine that owns exactly what distinguishes \<open>os\<close> from \<open>base\<close>.\<close>

definition engine_owns :: "os_state \<Rightarrow> TelemetryEngine \<Rightarrow> os_state \<Rightarrow> bool" where
  "engine_owns base e os \<longleftrightarrow>
     (\<exists>event flag. te_stop_event e = Some event \<and> os_events base event = None \<and>
        nm_winsock_initialized (te_network_monitor e) = te_network_available e \<and>
        threads_owned (engine_base base e event flag) e event os)"

lemma engine_ownsI:
  "te_stop_event e = Some event \<Longrightarrow> os_events base event = None \<Longrightarrow>
   nm_winsock_initialized (te_network_monitor e) = te_network_available e \<Longrightarrow>
   threads_owned (engine_base base e event flag) e event os \<Longrightarrow> engine_owns base e os"
  unfolding engine_owns_def by blast

text \<open>What shutting down leaves of an engine; only a failed ETW start may still show its error.\<close>

definition engine_closed :: "TelemetryEngine \<Rightarrow> bool" where
  "engine_closed e \<longleftrightarrow> te_worker_thread e = None \<and> te_stop_event e = None \<and> \<not> te_running e \<and>
     \<not> te_network_available e \<and> \<not> em_enabled (te_etw_monitor e) \<and>
     te_process_monitor e = zero_process_monitor \<and> \<not> nm_winsock_initialized (te_network_monitor e)"

lemma initialize_owns:
  assumes "os_ok A"
  shows "\<exists>ok e' os'. initialize_telemetry A N (Some e) True os = (ok, Some e', os') \<and>
    (if ok then engine_owns os e' os' \<and> \<not> te_running e' \<and> te_queue e' \<and> te_process_monitor e' = zero_process_monitor
     else os' = os)"
proof -
  let ?os1 = "os\<lparr>os_winsock := os_winsock os + (if WSAStartup N = 0 then 1 else 0)\<rparr>"
  obtain event err where c: "CreateEventW A ?os1 = (event, err)" by fastforce
  have eq: "initialize_network N (zero_engine\<lparr>te_queue := True, te_process_monitor := zero_process_monitor\<rparr>) os =
      (zero_engine\<lparr>te_queue := True, te_process_monitor := zero_process_monitor,
         te_network_monitor := zero_network_monitor\<lparr>nm_winsock_initialized := (WSAStartup N = 0)\<rparr>,
         te_network_available := (WSAStartup N = 0)\<rparr>, ?os1)"
    by (simp add: initialize_network_def network_monitor_initialize_def zero_network_monitor_def Let_def)
  show ?thesis
  proof (cases event)
    case None
    then show ?thesis
      using c eq
      by (intro exI [of _ False])
        (simp add: initialize_telemetry_def process_monitor_initialize_def zero_process_monitor_def [symmetric] Let_def
          destroy_network_def network_monitor_destroy_def zero_engine_def)
  next
    case (Some h)
    then have "os_events os h = None" using os_okD(8) [OF assms] c by fastforce
    then show ?thesis
      using c eq Some
      by (intro exI [of _ True])
        (auto simp: initialize_telemetry_def process_monitor_initialize_def zero_process_monitor_def [symmetric] Let_def
          threads_owned_def engine_base_def zero_engine_def zero_etw_monitor_def
          intro!: engine_ownsI [where flag = False])
  qed
qed

text \<open>Stopping undoes a start, whatever came of it.\<close>

lemma stop_outcome:
  assumes "os_ok A" and "sessions_stop A" and "finite (os_blocks mid)" and "start_outcome mid (em_enabled m, m, os)"
  shows "\<exists>m'. etw_process_monitor_stop A (Some m) os = Some (Some m', mid) \<and> \<not> em_enabled m'"
proof (cases "em_enabled m")
  case True
  then have m: "etw_live m os" "without_etw m os = mid" using assms(4) by simp_all
  moreover from this have "finite (os_blocks os)" using assms(3) by (auto simp: without_etw_def)
  ultimately have "etw_process_monitor_stop A (Some m) os = Some (Some zero_etw_monitor, mid)"
    using stop_releases [OF assms(1,2)] by simp
  then show ?thesis by (simp add: zero_etw_monitor_def)
next
  case False
  then show ?thesis using assms(4) by (simp add: etw_process_monitor_stop_def)
qed

lemma start_owns:
  assumes "os_ok A" and "sessions_stop A" and "finite (os_blocks base)" and "engine_owns base e os" and "\<not> te_running e" and "te_queue e"
  shows "\<exists>ok e' os'. start_telemetry A W (Some e) os = Some (ok, Some e', os') \<and>
    engine_owns base e' os' \<and> te_running e' = ok \<and>
    te_process_monitor e' = te_process_monitor e \<and> te_network_monitor e' = te_network_monitor e \<and>
    te_network_available e' = te_network_available e"
proof -
  obtain event flag where ev: "te_stop_event e = Some event" "os_events base event = None"
      "nm_winsock_initialized (te_network_monitor e) = te_network_available e"
      "os = engine_base base e event flag"
    using assms(4,5) by (auto simp: engine_owns_def threads_owned_def)
  let ?mid = "engine_base base e event False"
  have fin: "finite (os_blocks ?mid)" using assms(3) by (simp add: engine_base_def)
  have mid: "os\<lparr>os_events := (os_events os)(event \<mapsto> False)\<rparr> = ?mid"
    unfolding ev(4) by (simp add: engine_base_def)
  obtain b m os1 where s: "etw_process_monitor_start A W (Some (te_etw_monitor e)) True ?mid = Some (b, Some m, os1)"
      "start_outcome ?mid (b, m, os1)"
    using start_result [OF assms(1,2)] fin by blast
  have on: "em_enabled m = b" using s(2) by (auto simp: etw_live_def split: if_splits)
  obtain th err where c: "CreateThread A os1 = (th, err)" by fastforce
  show ?thesis
  proof (cases th)
    case None
    obtain m' where m': "etw_process_monitor_stop A (Some m) os1 = Some (Some m', ?mid)" "\<not> em_enabled m'"
      using stop_outcome [OF assms(1,2) fin, of m os1] s(2) on by blast
    let ?e = "e\<lparr>te_running := False, te_worker_thread := None, te_etw_monitor := m'\<rparr>"
    have "start_telemetry A W (Some e) os = Some (False, Some ?e, ?mid)"
      using s(1) c None ev(1) mid assms(5,6) m'(1) by (simp add: start_telemetry_def)
    moreover have "engine_owns base ?e ?mid"
      using ev(1-3) m'(2) by (intro engine_ownsI [where flag = False]) (auto simp: threads_owned_def engine_base_def)
    ultimately show ?thesis by (intro exI [of _ False]) simp
  next
    case (Some h)
    let ?e = "e\<lparr>te_etw_monitor := m, te_running := True, te_worker_thread := Some h\<rparr>"
    let ?os = "os1\<lparr>os_threads := (os_threads os1)(h \<mapsto> TelemetryWorker event)\<rparr>"
    have "os_threads os1 h = None" using os_okD(6) [OF assms(1)] c Some by blast
    then have "threads_owned (engine_base base ?e event False) ?e event ?os"
      using s(2) on by (auto simp: threads_owned_def engine_base_def)
    then have "engine_owns base ?e ?os"
      using ev(1-3) by (intro engine_ownsI [where flag = False]) auto
    moreover have "start_telemetry A W (Some e) os = Some (True, Some ?e, ?os)"
      using s(1) c Some ev(1) mid assms(5,6) by (simp add: start_telemetry_def)
    ultimately show ?thesis by (intro exI [of _ True]) simp
  qed
qed

lemma start_outcome_events:
  "start_outcome mid (b, m, os) \<Longrightarrow> os_events os = os_events mid \<and> start_outcome (mid\<lparr>os_events := f\<rparr>) (b, m, os\<lparr>os_events := f\<rparr>)"
  by (cases b) (auto simp: etw_live_def without_etw_def)

text \<open>Stopping the worker and the ETW monitor leaves the event, signalled if the worker ran.\<close>

lemma stop_threads:
  assumes "os_ok A" and "sessions_stop A" and "finite (os_blocks base)" and "te_stop_event e = Some event"
    and "threads_owned (engine_base base e event flag) e event os"
  shows "\<exists>flag' m. stop_worker e os \<bind> (\<lambda>(e1, os1). map_option (\<lambda>(m, os2). (e1, m, os2))
        (etw_process_monitor_stop A (Some (te_etw_monitor e1)) os1))
      = Some (e\<lparr>te_worker_thread := None, te_running := False\<rparr>, Some m, engine_base base e event flag') \<and> \<not> em_enabled m"
proof (cases "te_running e")
  case False
  moreover from this have "e = e\<lparr>te_worker_thread := None, te_running := False\<rparr>"
    using assms(5) by (simp add: threads_owned_def)
  ultimately show ?thesis
    using assms(5) by (auto simp: threads_owned_def stop_worker_def etw_process_monitor_stop_def)
next
  case True
  let ?m = "te_etw_monitor e" and ?mid = "engine_base base e event flag"
  obtain th os1 where o: "te_worker_thread e = Some th" "os_threads os1 th = None"
      "os = os1\<lparr>os_threads := (os_threads os1)(th \<mapsto> TelemetryWorker event)\<rparr>"
      "start_outcome ?mid (em_enabled ?m, ?m, os1)"
    using assms(5) True by (auto simp: threads_owned_def)
  let ?f = "(os_events ?mid)(event \<mapsto> True)"
  have ev: "os_events os1 = os_events ?mid" "start_outcome (?mid\<lparr>os_events := ?f\<rparr>) (em_enabled ?m, ?m, os1\<lparr>os_events := ?f\<rparr>)"
    using start_outcome_events [OF o(4), of ?f] by auto
  have mid: "?mid\<lparr>os_events := ?f\<rparr> = engine_base base e event True" by (simp add: engine_base_def)
  have "(os_threads os1)(th := None) = os_threads os1" using o(2) by auto
  then have w: "stop_worker e os = Some (e\<lparr>te_worker_thread := None, te_running := False\<rparr>, os1\<lparr>os_events := ?f\<rparr>)"
    using True o(1,3) assms(4) ev(1) by (simp add: stop_worker_def SetEvent_def join_thread_def engine_base_def)
  have "finite (os_blocks (engine_base base e event True))" using assms(3) by (simp add: engine_base_def)
  then obtain m where "etw_process_monitor_stop A (Some ?m) (os1\<lparr>os_events := ?f\<rparr>) = Some (Some m, engine_base base e event True)"
      "\<not> em_enabled m"
    using stop_outcome [OF assms(1,2)] ev(2) unfolding mid by blast
  then show ?thesis using w by auto
qed

lemma shutdown_owns:
  assumes "os_ok A" and "sessions_stop A" and "finite (os_blocks base)" and "engine_owns base e os"
  shows "\<exists>e'. shutdown_telemetry A (Some e) os = Some (Some e', base) \<and> engine_closed e'"
proof -
  obtain event flag where ev: "te_stop_event e = Some event" "os_events base event = None"
      "nm_winsock_initialized (te_network_monitor e) = te_network_available e"
      "threads_owned (engine_base base e event flag) e event os"
    using assms(4) unfolding engine_owns_def by blast
  obtain flag' m where "stop_worker e os \<bind> (\<lambda>(e1, os1). map_option (\<lambda>(m, os2). (e1, m, os2))
        (etw_process_monitor_stop A (Some (te_etw_monitor e1)) os1))
      = Some (e\<lparr>te_worker_thread := None, te_running := False\<rparr>, Some m, engine_base base e event flag')" "\<not> em_enabled m"
    using stop_threads [OF assms(1,2,3) ev(1,4)] by blast
  moreover from this(1) obtain os1 where "stop_worker e os = Some (e\<lparr>te_worker_thread := None, te_running := False\<rparr>, os1)"
      "etw_process_monitor_stop A (Some (te_etw_monitor e)) os1 = Some (Some m, engine_base base e event flag')"
    by (auto split: Option.bind_splits)
  moreover have "(os_events base)(event := None) = os_events base" using ev(2) by auto
  ultimately show ?thesis
    using ev(1,3)
    by (auto simp: shutdown_telemetry_def destroy_network_def network_monitor_destroy_def engine_base_def CloseEvent_def
        engine_closed_def process_monitor_destroy_def zero_process_monitor_def Let_def)
qed

lemma shutdown_closed:
  "engine_closed e \<Longrightarrow> shutdown_telemetry A (Some e) os = Some (Some e, os)"
  by (simp add: engine_closed_def shutdown_telemetry_def stop_worker_def etw_process_monitor_stop_def
      process_monitor_destroy_def zero_process_monitor_def Let_def)

section \<open>The worker's rounds\<close>

primrec run_rounds ::
  "text_api \<Rightarrow> time_api \<Rightarrow> (nat \<Rightarrow> poll_env) \<Rightarrow> nat \<Rightarrow> nat \<Rightarrow> TelemetryEngine \<times> node_heap \<times> EventQueue \<Rightarrow>
     (TelemetryEngine \<times> node_heap \<times> EventQueue) option" where
  "run_rounds W T env k 0 st = Some st"
| "run_rounds W T env k (Suc n) st = Option.bind (worker_round W T (env k) st) (run_rounds W T env (Suc k) n)"

definition poll_env_ok :: "poll_env \<Rightarrow> bool" where
  "poll_env_ok env \<longleftrightarrow> qsort_ok compare_snapshot_entries (qsort_entries (pe_process env)) \<and>
     clib_ok (pe_network env) \<and> malloc_fresh (pe_malloc env)"

definition engine_polls :: "TelemetryEngine \<Rightarrow> bool" where
  "engine_polls e \<longleftrightarrow> te_queue e \<and> monitor_wf (te_process_monitor e) \<and> network_wf (te_network_monitor e)"

text \<open>What the worker leaves alone: everything but the snapshots of the two monitors.\<close>

definition same_but_snapshots :: "TelemetryEngine \<Rightarrow> TelemetryEngine \<Rightarrow> bool" where
  "same_but_snapshots e e' \<longleftrightarrow>
     e' = e\<lparr>te_process_monitor := te_process_monitor e', te_network_monitor := te_network_monitor e'\<rparr> \<and>
     nm_winsock_initialized (te_network_monitor e') = nm_winsock_initialized (te_network_monitor e)"

lemma same_but_snapshots_trans:
  "same_but_snapshots a b \<Longrightarrow> same_but_snapshots b c \<Longrightarrow> same_but_snapshots a c"
  unfolding same_but_snapshots_def by (cases a; cases b; cases c) auto

lemma round_total:
  assumes "poll_env_ok env" and "engine_polls e" and "holds q es"
  shows "\<exists>e' q' kept. worker_round W T env (e, q) = Some (e', q') \<and> holds q' (es @ kept) \<and>
    engine_polls e' \<and> same_but_snapshots e e'"
proof -
  have env: "qsort_ok compare_snapshot_entries (qsort_entries (pe_process env))" "clib_ok (pe_network env)"
      "malloc_fresh (pe_malloc env)"
    using assms(1) by (simp_all add: poll_env_ok_def)
  have e: "te_queue e" "monitor_wf (te_process_monitor e)" "network_wf (te_network_monitor e)"
    using assms(2) by (simp_all add: engine_polls_def)
  obtain ok m q1 k1 where p: "process_monitor_poll (pe_process env) W T (pe_process_time env) (pe_malloc env)
       (Some (te_process_monitor e)) (Some q) = Some (ok, Some m, Some q1)" "holds q1 (es @ k1)" "monitor_wf m"
    using poll_total [OF e(2) env(1,3) assms(3)] by blast
  obtain ok2 nm q2 k2 where n: "network_monitor_poll (pe_network env) (pe_process env) W T (pe_network_time env)
       (pe_malloc env) (Some (te_network_monitor e)) (Some q1) = Some (ok2, Some nm, Some q2)"
      "holds q2 ((es @ k1) @ k2)" "network_wf nm" "nm_winsock_initialized nm = nm_winsock_initialized (te_network_monitor e)"
    using network_poll_total [OF env(2) e(3) env(3) p(2)] by blast
  show ?thesis
  proof (cases "te_network_available e")
    case True
    then show ?thesis
      using p(1,3) n e(1)
      by (intro exI [of _ "e\<lparr>te_process_monitor := m, te_network_monitor := nm\<rparr>"] exI [of _ q2] exI [of _ "k1 @ k2"])
        (simp add: worker_round_def engine_polls_def same_but_snapshots_def)
  next
    case False
    then show ?thesis
      using p e
      by (intro exI [of _ "e\<lparr>te_process_monitor := m\<rparr>"] exI [of _ q1] exI [of _ k1])
        (simp add: worker_round_def engine_polls_def same_but_snapshots_def)
  qed
qed

lemma rounds_total:
  assumes "\<And>k. poll_env_ok (env k)"
  shows "engine_polls e \<Longrightarrow> holds q es \<Longrightarrow> \<exists>e' q' kept. run_rounds W T env k n (e, q) = Some (e', q') \<and>
    holds q' (es @ kept) \<and> engine_polls e' \<and> same_but_snapshots e e'"
proof (induction n arbitrary: k e q es)
  case 0
  then show ?case by (auto simp: same_but_snapshots_def intro: exI [of _ "[]"])
next
  case (Suc n)
  obtain e1 q1 k1 where r: "worker_round W T (env k) (e, q) = Some (e1, q1)" "holds q1 (es @ k1)"
      "engine_polls e1" "same_but_snapshots e e1"
    using round_total [OF assms Suc.prems] by blast
  obtain e' q' k2 where "run_rounds W T env (Suc k) n (e1, q1) = Some (e', q')" "holds q' ((es @ k1) @ k2)"
      "engine_polls e'" "same_but_snapshots e1 e'"
    using Suc.IH [OF r(3,2)] by blast
  then show ?case
    using r same_but_snapshots_trans by (intro exI [of _ e'] exI [of _ q'] exI [of _ "k1 @ k2"]) auto
qed

text \<open>The first signalled wait decides the number of rounds: every second wait is followed by one.\<close>

lemma worker_rounds:
  assumes "signalled n" and "\<And>i. i < n \<Longrightarrow> \<not> signalled i" and "2 * k \<le> n"
  shows "telemetry_worker W T signalled env k st = run_rounds W T env k ((n + 1) div 2 - k) st"
  using assms(3)
proof (induction "n - 2 * k" arbitrary: k st rule: less_induct)
  case less
  consider "n = 2 * k" | "n = 2 * k + 1" | "2 * k + 2 \<le> n" using less.prems by linarith
  then show ?case
  proof cases
    case 1 then show ?thesis using assms(1) by (simp add: telemetry_worker.simps)
  next
    case 2
    then have "\<not> signalled (2 * k)" "(n + 1) div 2 - k = Suc 0" using assms(2) [of "2 * k"] by auto
    then show ?thesis using 2 assms(1) by (subst telemetry_worker.simps) (simp cong: Option.bind_cong)
  next
    case 3
    then have off: "\<not> signalled (2 * k)" "\<not> signalled (2 * k + 1)" using assms(2) by auto
    have "(n + 1) div 2 - k = Suc ((n + 1) div 2 - (k + 1))" using 3 by linarith
    moreover have "telemetry_worker W T signalled env (k + 1) st' = run_rounds W T env (k + 1) ((n + 1) div 2 - (k + 1)) st'" for st'
      using less.hyps [of "k + 1" st'] 3 by simp
    ultimately show ?thesis using off by (subst telemetry_worker.simps) simp
  qed
qed

section \<open>Properties\<close>

lemma owns_same_but_snapshots:
  assumes "engine_owns base e os" and "same_but_snapshots e e'"
  shows "engine_owns base e' os"
proof -
  have "te_worker_thread e' = te_worker_thread e" "te_stop_event e' = te_stop_event e" "te_running e' = te_running e"
      "te_etw_monitor e' = te_etw_monitor e" "te_network_available e' = te_network_available e"
      "nm_winsock_initialized (te_network_monitor e') = nm_winsock_initialized (te_network_monitor e)"
    using assms(2) unfolding same_but_snapshots_def by (cases e; cases e'; simp)+
  then show ?thesis
    using assms(1) by (simp add: engine_owns_def threads_owned_def engine_base_def cong: if_cong)
qed

text \<open>
  \<^bold>\<open>C31\<close>. As long as an active trace session can be stopped (there is memory for the block of
  properties it takes, and \<^verbatim>\<open>ControlTraceW\<close> succeeds), the engine's lifecycle returns every
  resource exactly once, whichever other call of the system fails: a failing \<^verbatim>\<open>initialize_telemetry\<close> leaves nothing behind; after a successful one,
  \<^verbatim>\<open>start_telemetry\<close> (whether or not it succeeds, with or without ETW) followed by
  \<^verbatim>\<open>shutdown_telemetry\<close>, the worker having polled meanwhile, restores the system's state:
  sessions, trace handles, memory blocks, threads, events and the Winsock startup. No wait lasts
  for ever, nothing is closed twice, and a second shutdown does nothing. When the session cannot be
  stopped, the sources leak it (\<open>stop_without_memory_leaks\<close>).
\<close>

theorem telemetry_lifecycle:
  assumes "os_ok A" and "sessions_stop A" and "finite (os_blocks os)"
  shows "\<exists>ok e1 os1. initialize_telemetry A N (Some e) True os = (ok, Some e1, os1) \<and>
    (if \<not> ok then os1 = os
     else (\<exists>started e2 os2. start_telemetry A W (Some e1) os1 = Some (started, Some e2, os2) \<and>
       (\<forall>e3. same_but_snapshots e2 e3 \<longrightarrow>
         (\<exists>e4. shutdown_telemetry A (Some e3) os2 = Some (Some e4, os) \<and>
           shutdown_telemetry A (Some e4) os = Some (Some e4, os)))))"
proof -
  obtain ok e1 os1 where i: "initialize_telemetry A N (Some e) True os = (ok, Some e1, os1)"
      "if ok then engine_owns os e1 os1 \<and> \<not> te_running e1 \<and> te_queue e1 \<and> te_process_monitor e1 = zero_process_monitor
       else os1 = os"
    using initialize_owns [OF assms(1)] by blast
  show ?thesis
  proof (cases ok)
    case False
    then show ?thesis using i by auto
  next
    case True
    then have own: "engine_owns os e1 os1" "\<not> te_running e1" "te_queue e1" using i(2) by simp_all
    obtain started e2 os2 where s: "start_telemetry A W (Some e1) os1 = Some (started, Some e2, os2)" "engine_owns os e2 os2"
      using start_owns [OF assms own] by blast
    have "\<exists>e4. shutdown_telemetry A (Some e3) os2 = Some (Some e4, os) \<and>
        shutdown_telemetry A (Some e4) os = Some (Some e4, os)" if "same_but_snapshots e2 e3" for e3
      using shutdown_owns [OF assms owns_same_but_snapshots [OF s(2) that]] shutdown_closed by blast
    then show ?thesis using i(1) s(1) True by auto
  qed
qed

text \<open>A system with some free handles, on which everything succeeds while they last.\<close>

definition free_system :: os_api where
  "free_system =
     \<lparr>calloc_properties = (\<lambda>os n. if finite (os_blocks os) then Some (Suc (Max (insert 0 (os_blocks os)))) else None),
      StartTraceW = (\<lambda>os name. if 7 \<in> os_sessions os then (183, 0) else (ERROR_SUCCESS, 7)),
      EnableTraceEx2 = (\<lambda>os h enable. ERROR_SUCCESS), ControlTraceW = (\<lambda>os h. ERROR_SUCCESS),
      OpenTraceW = (\<lambda>os name. if 8 \<in> os_traces os then (INVALID_PROCESSTRACE_HANDLE, 5) else (8, ERROR_SUCCESS)),
      CreateThread = (\<lambda>os. if os_threads os 20 = None \<and> os_events os 20 = None then (Some 20, ERROR_SUCCESS)
        else if os_threads os 24 = None \<and> os_events os 24 = None then (Some 24, ERROR_SUCCESS) else (None, 8)),
      CreateEventW = (\<lambda>os. if os_threads os 28 = None \<and> os_events os 28 = None then (Some 28, ERROR_SUCCESS) else (None, 8)),
      GetCurrentProcessId = 4711\<rparr>"

definition idle_system :: os_state where
  "idle_system = \<lparr>os_sessions = {}, os_traces = {}, os_blocks = {}, os_threads = Map.empty, os_events = Map.empty, os_winsock = 0\<rparr>"

lemma Suc_Max_fresh: "finite (X :: nat set) \<Longrightarrow> Suc (Max (insert 0 X)) \<notin> X"
  by (metis Max_ge Suc_n_not_le_n finite_insert insertCI)

lemma free_system_ok: "os_ok free_system" "sessions_stop free_system"
  by (auto simp: os_ok_def sessions_stop_def free_system_def ERROR_SUCCESS_def INVALID_PROCESSTRACE_HANDLE_def
      dest: Suc_Max_fresh split: if_splits)

theorem telemetry_lifecycle_witness:
  "\<exists>ok e1 os1. initialize_telemetry free_system one_connection (Some zero_engine) True idle_system = (ok, Some e1, os1) \<and>
    ok \<and> os_winsock os1 = 1 \<and>
    (\<exists>started e2 os2 e4. start_telemetry free_system ascii_text (Some e1) os1 = Some (started, Some e2, os2) \<and>
       shutdown_telemetry free_system (Some e2) os2 = Some (Some e4, idle_system))"
proof -
  have "finite (os_blocks idle_system)" by (simp add: idle_system_def)
  from telemetry_lifecycle [OF free_system_ok this, of one_connection zero_engine ascii_text]
  obtain ok e1 os1 where i: "initialize_telemetry free_system one_connection (Some zero_engine) True idle_system = (ok, Some e1, os1)"
      "if \<not> ok then os1 = idle_system
       else (\<exists>started e2 os2. start_telemetry free_system ascii_text (Some e1) os1 = Some (started, Some e2, os2) \<and>
         (\<forall>e3. same_but_snapshots e2 e3 \<longrightarrow>
           (\<exists>e4. shutdown_telemetry free_system (Some e3) os2 = Some (Some e4, idle_system) \<and>
             shutdown_telemetry free_system (Some e4) idle_system = Some (Some e4, idle_system))))"
    by blast
  moreover have "ok \<and> os_winsock os1 = 1"
    using i(1) by (auto simp: initialize_telemetry_def initialize_network_def network_monitor_initialize_def free_system_def
        idle_system_def one_connection_def Let_def)
  moreover have "same_but_snapshots e2 e2" for e2 by (simp add: same_but_snapshots_def)
  ultimately show ?thesis by (simp add: split: if_splits) blast
qed

text \<open>
  The worker ends as soon as a wait finds the stop event signalled, whatever the platform
  answered to its polls: it has then run one round of polls for every second wait, without leaving
  an array, has only appended to the queue, and has left its monitors usable and everything else
  in the engine alone.
\<close>

lemma telemetry_worker_stops:
  assumes "engine_polls e" and "\<And>k. poll_env_ok (env k)" and "holds q es"
    and "signalled n" and "\<And>i. i < n \<Longrightarrow> \<not> signalled i"
  shows "\<exists>e' q' kept. telemetry_worker W T signalled env 0 (e, q) = Some (e', q') \<and>
    run_rounds W T env 0 ((n + 1) div 2) (e, q) = Some (e', q') \<and>
    holds q' (es @ kept) \<and> engine_polls e' \<and> same_but_snapshots e e'"
  using rounds_total [OF assms(2,1,3), where k = 0 and n = "(n + 1) div 2"] worker_rounds [of signalled n 0, OF assms(4,5)] by simp

end
