(* ===== verification/TG_GuiState.thy ===== *)
theory TG_GuiState
  imports TG_Details TG_ProcessTree TG_Telemetry
begin

text \<open>
  \<^verbatim>\<open>src/gui.c\<close>, the state of the window: \<^verbatim>\<open>GuiState\<close> with the contents of its controls in place
  of their handles, and the operations on its labels, its status bar and the visible panel. The
  platform is a record of parameters; \<^verbatim>\<open>GetTickCount64\<close> answers the reads one after the other.
\<close>

section \<open>The state\<close>

datatype panel = OverviewPanel | TreePanel | NetworkPanel | TimelinePanel | AlertPanel

datatype sort_mark = NoMark | SortUp | SortDown

text \<open>
  The fields before \<open>g_queue_ready\<close> stand for controls: the rows of the five lists, the tree's items,
  the marks of the headers, the text of the search box, the selections of the filter and of the
  tabs, the shown texts, and what is visible and enabled. \<open>g_ticks\<close> counts the reads of the clock.
\<close>

record GuiState =
  g_timeline_list :: "list_row list"
  g_network_list :: "list_row list"
  g_alert_list :: "list_row list"
  g_recent_list :: "list_row list"
  g_recent_alert_list :: "list_row list"
  g_process_tree :: "tree_item list"
  g_headers :: "GuiView \<Rightarrow> sort_mark list"
  g_search_edit :: wstr
  g_event_filter :: int
  g_navigation :: int
  g_monitoring_label :: wstr
  g_pause_button :: wstr
  g_metric_values :: "wstr list"
  g_telemetry_note :: wstr
  g_status_bar :: "wstr list"
  g_shown :: "panel \<Rightarrow> bool"
  g_search_enabled :: bool
  g_filter_enabled :: bool
  g_clear_enabled :: bool
  g_queue :: "node_heap \<times> EventQueue"
  g_store :: EventStore
  g_telemetry :: TelemetryEngine
  g_sort_states :: "GuiView \<Rightarrow> SortState"
  g_view_floor :: "GuiView \<Rightarrow> u64"
  g_session_started_tick :: u64
  g_transient_until :: u64
  g_transient_status :: wstr
  g_queue_ready :: bool
  g_store_ready :: bool
  g_telemetry_ready :: bool
  g_rendering_paused :: bool
  g_render_dirty :: bool
  g_filter_timer_active :: bool
  g_shutting_down :: bool
  g_ticks :: nat

record gui_api =
  gui_list :: list_api
  gui_tree :: tree_api
  gui_text :: text_api
  gui_time :: time_api
  gui_store :: store_alloc
  GetTickCount64 :: "nat \<Rightarrow> u64"

definition read_tick :: "gui_api \<Rightarrow> GuiState \<Rightarrow> u64 \<times> GuiState" where
  "read_tick U g = (GetTickCount64 U (g_ticks g), g\<lparr>g_ticks := g_ticks g + 1\<rparr>)"

section \<open>Labels, metrics and the status bar\<close>

definition update_monitoring_label :: "GuiState \<Rightarrow> GuiState" where
  "update_monitoring_label g =
     g\<lparr>g_monitoring_label :=
         (if g_rendering_paused g then 0x25CF # wide '' Collecting '' @ 0xB7 # wide '' View Paused''
          else 0x25CF # wide '' Live Monitoring''),
       g_pause_button := wide (if g_rendering_paused g then ''Resume'' else ''Pause'')\<rparr>"

definition telemetry_note :: "text_api \<Rightarrow> TelemetryEngine \<Rightarrow> wstr" where
  "telemetry_note W e =
     (let note =
        (if telemetry_etw_enabled (Some e)
         then wcopy 640 (wide ''ETW process telemetry is active. Win32 snapshot reconciliation remains enabled to recover missed events.'')
         else (let error = telemetry_etw_error (Some e);
                   reason = (if error = ERROR_SUCCESS then wcopy 256 (wide ''Unavailable'') else format_windows_error W error 256)
               in cch_printf W 640
                    (''ETW unavailable: %s'' @ CRLF @ CRLF @
                     ''Some telemetry sources may require elevation. Win32 fallback remains active; TraceGlass will not request elevation automatically.'')
                    [FStr reason]))
      in if te_network_available e then note
         else fst (StringCchCatW W 640 note (wide (CRLF @ CRLF @ ''IPv4 TCP telemetry is unavailable in this session.''))))"

definition elapsed_text :: "text_api \<Rightarrow> u64 \<Rightarrow> wstr" where
  "elapsed_text W elapsed_seconds =
     cch_printf W 128 ''%02llu:%02llu:%02llu''
       [FNum (unat (elapsed_seconds div 3600)), FNum (unat ((elapsed_seconds mod 3600) div 60)), FNum (unat (elapsed_seconds mod 60))]"

definition update_overview_metrics :: "gui_api \<Rightarrow> GuiState \<Rightarrow> GuiState" where
  "update_overview_metrics U g =
     (let W = gui_text U; s = g_store g; (tick, g1) = read_tick U g;
          elapsed_seconds = (tick - g_session_started_tick g) div 1000
      in g1\<lparr>g_metric_values :=
           [telemetry_mode_name (Some (g_telemetry g)),
            cch_printf W 128 ''%zu'' [FNum (unat (st_event_count s))],
            cch_printf W 128 ''%zu'' [FNum (unat (st_active_process_count s))],
            cch_printf W 128 ''%zu'' [FNum (unat (st_network_count s))],
            cch_printf W 128 ''%zu'' [FNum (unat (st_alert_count s))],
            elapsed_text W elapsed_seconds],
          g_telemetry_note := telemetry_note W (g_telemetry g)\<rparr>)"

definition set_transient_status :: "gui_api \<Rightarrow> wstr \<Rightarrow> GuiState \<Rightarrow> GuiState" where
  "set_transient_status U message g =
     (let (tick, g1) = read_tick U g in g1\<lparr>g_transient_status := wcopy 128 message, g_transient_until := tick + 3500\<rparr>)"

definition update_status_bar :: "gui_api \<Rightarrow> GuiState \<Rightarrow> GuiState" where
  "update_status_bar U g =
     (let W = gui_text U; s = g_store g; (now, g1) = read_tick U g;
          transient = (g_transient_status g \<noteq> [] \<and> now < g_transient_until g)
      in g1\<lparr>g_transient_status := (if transient then g_transient_status g else []),
            g_status_bar :=
              [(if transient then g_transient_status g else cch_printf W 256 ''Events: %zu'' [FNum (unat (st_event_count s))]),
               cch_printf W 256 ''Processes: %zu'' [FNum (unat (st_active_process_count s))],
               cch_printf W 256 ''TCP: %zu'' [FNum (unat (st_network_count s))],
               cch_printf W 256 ''Alerts: %zu'' [FNum (unat (st_alert_count s))],
               cch_printf W 256 (if g_rendering_paused g then ''Telemetry: %s  |  View paused'' else ''Telemetry: %s'')
                 [FStr (telemetry_mode_name (Some (g_telemetry g)))]]\<rparr>)"

section \<open>The visible view\<close>

definition current_view :: "GuiState \<Rightarrow> GuiView" where
  "current_view g =
     (let selected = g_navigation g in
      if selected = 1 then VIEW_PROCESSES else if selected = 2 then VIEW_NETWORK
      else if selected = 3 then VIEW_TIMELINE else if selected = 4 then VIEW_ALERTS
      else VIEW_OVERVIEW)"

text \<open>The overview's controls are shown and hidden together.\<close>

definition set_overview_visible :: "bool \<Rightarrow> GuiState \<Rightarrow> GuiState" where
  "set_overview_visible visible g = g\<lparr>g_shown := (g_shown g)(OverviewPanel := visible)\<rparr>"

definition update_selected_view :: "GuiState \<Rightarrow> GuiState" where
  "update_selected_view g =
     (let view = current_view g; g1 = set_overview_visible (view = VIEW_OVERVIEW) g
      in g1\<lparr>g_shown := (g_shown g1)(TreePanel := (view = VIEW_PROCESSES), NetworkPanel := (view = VIEW_NETWORK),
                TimelinePanel := (view = VIEW_TIMELINE), AlertPanel := (view = VIEW_ALERTS)),
            g_search_enabled := (view \<noteq> VIEW_PROCESSES),
            g_filter_enabled := (view = VIEW_OVERVIEW \<or> view = VIEW_TIMELINE),
            g_clear_enabled := (view \<noteq> VIEW_PROCESSES)\<rparr>)"

end
