(* ===== verification/TG_Views.thy ===== *)
theory TG_Views
  imports TG_GuiState
begin

text \<open>
  \<^verbatim>\<open>src/gui.c\<close>, the views: how the lists and the tree are rebuilt and extended from the store, how
  the queue is drained into the store and the views, and what the commands of the user do. The
  message procedure is the function \<open>gui_step\<close>, one message at a time. \<open>None\<close> is undefined
  behaviour (an access outside an array) or a loop that never ends; it is shown not to occur.
\<close>

section \<open>Sorting\<close>

definition list_for_view :: "GuiView \<Rightarrow> GuiState \<Rightarrow> list_row list option" where
  "list_for_view view g =
     (case view of
        VIEW_NETWORK \<Rightarrow> Some (g_network_list g)
      | VIEW_TIMELINE \<Rightarrow> Some (g_timeline_list g)
      | VIEW_ALERTS \<Rightarrow> Some (g_alert_list g)
      | _ \<Rightarrow> None)"

definition set_list :: "GuiView \<Rightarrow> list_row list \<Rightarrow> GuiState \<Rightarrow> GuiState" where
  "set_list view rows g =
     (case view of
        VIEW_NETWORK \<Rightarrow> g\<lparr>g_network_list := rows\<rparr>
      | VIEW_TIMELINE \<Rightarrow> g\<lparr>g_timeline_list := rows\<rparr>
      | VIEW_ALERTS \<Rightarrow> g\<lparr>g_alert_list := rows\<rparr>
      | _ \<Rightarrow> g)"

definition update_sort_indicator :: "GuiView \<Rightarrow> GuiState \<Rightarrow> GuiState" where
  "update_sort_indicator view g =
     (case list_for_view view g of
        None \<Rightarrow> g
      | Some _ \<Rightarrow>
          (let so = g_sort_states g view;
               mark = (\<lambda>index. if so_active so \<and> int index = so_column so
                               then (if so_ascending so then SortUp else SortDown) else NoMark)
           in g\<lparr>g_headers := (g_headers g)(view := map mark [0..<length (g_headers g view)])\<rparr>))"

definition default_order :: "GuiView \<Rightarrow> SortState" where
  "default_order view = \<lparr>so_column = 0, so_ascending = True, so_active = False, so_view = view\<rparr>"

definition sort_view :: "gui_api \<Rightarrow> GuiView \<Rightarrow> bool \<Rightarrow> GuiState \<Rightarrow> GuiState" where
  "sort_view U view force_default g =
     (case list_for_view view g of
        None \<Rightarrow> g
      | Some rows \<Rightarrow>
          (let so = g_sort_states g view in
           if \<not> so_active so \<and> \<not> force_default then g
           else set_list view
             (ListView_SortItems (gui_list U)
               (compare_event_items (gui_text U) (gui_time U) (g_store g)
                 (Some (if so_active so then so else default_order view))) rows) g))"

definition handle_column_click :: "gui_api \<Rightarrow> list_control \<Rightarrow> int \<Rightarrow> GuiState \<Rightarrow> GuiState" where
  "handle_column_click U control column g =
     (let clicked = (\<lambda>view.
        (let so = g_sort_states g view;
             so' = (if so_active so \<and> so_column so = column then so\<lparr>so_ascending := \<not> so_ascending so\<rparr>
                    else so\<lparr>so_column := column, so_ascending := True, so_active := True\<rparr>)
         in sort_view U view False (update_sort_indicator view
              (g\<lparr>g_sort_states := (g_sort_states g)(view := so')\<rparr>))))
      in case control of
           NetworkList \<Rightarrow> clicked VIEW_NETWORK
         | TimelineList \<Rightarrow> clicked VIEW_TIMELINE
         | AlertList \<Rightarrow> clicked VIEW_ALERTS
         | _ \<Rightarrow> g)"

section \<open>Event lists\<close>

text \<open>
  The rows of one event, whose type is \<open>t\<close>: in the timeline, and in the list of its kind, unless
  the index lies below the floor that clearing the view has set.
\<close>

definition show_rows :: "gui_api \<Rightarrow> u64 \<Rightarrow> EventType \<Rightarrow> TraceGlassEvent \<Rightarrow> GuiState \<Rightarrow> GuiState" where
  "show_rows U index t e g =
     (let L = gui_list U; W = gui_text U;
          g1 = (if index \<ge> g_view_floor g VIEW_TIMELINE
                then g\<lparr>g_timeline_list := add_timeline_row L W (g_search_edit g) (g_event_filter g) e index (g_timeline_list g)\<rparr>
                else g)
      in if t = EVENT_NETWORK \<and> index \<ge> g_view_floor g VIEW_NETWORK
         then g1\<lparr>g_network_list := add_network_row L W (g_search_edit g) e index (g_network_list g)\<rparr>
         else if t = EVENT_ALERT \<and> index \<ge> g_view_floor g VIEW_ALERTS
         then g1\<lparr>g_alert_list := add_alert_row L W (g_search_edit g) e index (g_alert_list g)\<rparr>
         else g1)"

fun show_events :: "gui_api \<Rightarrow> nat list \<Rightarrow> GuiState \<Rightarrow> GuiState option" where
  "show_events U [] g = Some g"
| "show_events U (index # rest) g = do {
     e \<leftarrow> buf_get (st_events (g_store g)) index;
     show_events U rest (show_rows U (of_nat index) (ev_type e) e g) }"

definition rebuild_event_lists :: "gui_api \<Rightarrow> GuiState \<Rightarrow> GuiState option" where
  "rebuild_event_lists U g = do {
     g1 \<leftarrow> show_events U [0..<unat (st_event_count (g_store g))]
       (g\<lparr>g_timeline_list := [], g_network_list := [], g_alert_list := []\<rparr>);
     Some (sort_view U VIEW_ALERTS True (sort_view U VIEW_NETWORK True (sort_view U VIEW_TIMELINE True g1))) }"

section \<open>The overview\<close>

definition RECENT_EVENT_LIMIT :: nat where "RECENT_EVENT_LIMIT = 8"
definition RECENT_ALERT_LIMIT :: nat where "RECENT_ALERT_LIMIT = 5"

definition recent_alert_cells :: "text_api \<Rightarrow> TraceGlassEvent \<Rightarrow> wstr list" where
  "recent_alert_cells W e =
     [format_event_time W (ev_timestamp e) 32, alert_severity_name (ev_severity e), ev_rule_name e, ev_process_name e]"

definition recent_cells :: "text_api \<Rightarrow> TraceGlassEvent \<Rightarrow> wstr list" where
  "recent_cells W e = [format_event_time W (ev_timestamp e) 32, format_activity W e 1400]"

text \<open>A row, and the counter that only counts rows that could be inserted.\<close>

definition add_recent :: "list_api \<Rightarrow> wstr list \<Rightarrow> u64 \<Rightarrow> list_row list \<times> nat \<Rightarrow> list_row list \<times> nat" where
  "add_recent L cells event_index st =
     (case insert_list_item L (fst st) (hd cells) event_index of
        (rows, None) \<Rightarrow> (rows, snd st)
      | (rows, Some row) \<Rightarrow> (set_item_texts rows row (tl cells), snd st + 1))"

text \<open>The loop, over the indices it visits, with the two lists and their counters.\<close>

fun overview_loop ::
  "gui_api \<Rightarrow> (TraceGlassEvent \<Rightarrow> bool) \<Rightarrow> TraceGlassEvent list \<Rightarrow> nat list \<Rightarrow>
     list_row list \<times> nat \<Rightarrow> list_row list \<times> nat \<Rightarrow> (list_row list \<times> list_row list) option" where
  "overview_loop U matches events [] activity alert = Some (fst activity, fst alert)"
| "overview_loop U matches events (event_index # rest) activity alert = do {
     e \<leftarrow> buf_get events event_index;
     (if \<not> matches e then overview_loop U matches events rest activity alert
      else if ev_type e = EVENT_ALERT \<and> snd alert \<ge> RECENT_ALERT_LIMIT
        \<or> ev_type e \<noteq> EVENT_ALERT \<and> snd activity \<ge> RECENT_EVENT_LIMIT
      then overview_loop U matches events rest activity alert
      else (let W = gui_text U;
                alert' = (if ev_type e = EVENT_ALERT
                  then add_recent (gui_list U) (recent_alert_cells W e) (of_nat event_index) alert else alert);
                activity' = (if ev_type e = EVENT_ALERT then activity
                  else add_recent (gui_list U) (recent_cells W e) (of_nat event_index) activity)
            in if snd activity' \<ge> RECENT_EVENT_LIMIT \<and> snd alert' \<ge> RECENT_ALERT_LIMIT
               then Some (fst activity', fst alert')
               else overview_loop U matches events rest activity' alert')) }"

definition rebuild_overview_lists :: "gui_api \<Rightarrow> GuiState \<Rightarrow> GuiState option" where
  "rebuild_overview_lists U g = do {
     (recent, recent_alerts) \<leftarrow> overview_loop U
       (\<lambda>e. event_matches_search (gui_text U) (g_search_edit g) e \<and> event_matches_type_filter (g_event_filter g) e)
       (st_events (g_store g))
       (rev [unat (g_view_floor g VIEW_OVERVIEW)..<unat (st_event_count (g_store g))]) ([], 0) ([], 0);
     Some (g\<lparr>g_recent_list := recent, g_recent_alert_list := recent_alerts\<rparr>) }"

definition rebuild_tree :: "gui_api \<Rightarrow> GuiState \<Rightarrow> GuiState option" where
  "rebuild_tree U g = map_option (\<lambda>tree. g\<lparr>g_process_tree := tree\<rparr>)
     (rebuild_process_tree (gui_tree U) (gui_text U) (g_store g))"

section \<open>Draining the queue\<close>

text \<open>The result, the event as the store has numbered it, and the state.\<close>

definition add_accepted_event :: "gui_api \<Rightarrow> TraceGlassEvent \<Rightarrow> GuiState \<Rightarrow> (bool \<times> TraceGlassEvent \<times> GuiState) option" where
  "add_accepted_event U e g = do {
     (ok, accepted, store, e2) \<leftarrow> event_store_add (gui_store U) (Some (g_store g)) (Some e);
     (let g1 = g\<lparr>g_store := the store\<rparr>; e' = the e2 in
      if \<not> ok \<or> \<not> accepted then Some (False, e', g1)
      else (let event_index = st_event_count (g_store g1) - 1 in
        if g_rendering_paused g1 then Some (True, e', g1)
        else (do {
          stored \<leftarrow> buf_get (st_events (g_store g1)) (unat event_index);
          Some (True, e', show_rows U event_index (ev_type e') stored g1) }))) }"

record drain_state =
  dr_gui :: GuiState
  dr_alerts :: "TraceGlassEvent list"
  dr_tree_changed :: bool
  dr_any_accepted :: bool

fun add_alerts :: "gui_api \<Rightarrow> nat list \<Rightarrow> drain_state \<Rightarrow> drain_state option" where
  "add_alerts U [] d = Some d"
| "add_alerts U (alert_index # rest) d = do {
     alert \<leftarrow> buf_get (dr_alerts d) alert_index;
     (accepted, alert', g) \<leftarrow> add_accepted_event U alert (dr_gui d);
     add_alerts U rest (d\<lparr>dr_gui := g, dr_alerts := (dr_alerts d)[alert_index := alert'],
                          dr_any_accepted := dr_any_accepted d \<or> accepted\<rparr>) }"

text \<open>The body of the loop for one event.\<close>

definition drain_event :: "gui_api \<Rightarrow> TraceGlassEvent \<Rightarrow> drain_state \<Rightarrow> drain_state option" where
  "drain_event U e d = do {
     (accepted, e', g) \<leftarrow> add_accepted_event U e (dr_gui d);
     (if \<not> accepted then Some (d\<lparr>dr_gui := g\<rparr>)
      else (let d1 = d\<lparr>dr_gui := g, dr_any_accepted := True,
                       dr_tree_changed := dr_tree_changed d \<or> ev_type e' = EVENT_PROCESS_START \<or> ev_type e' = EVENT_PROCESS_STOP\<rparr>
            in do {
              (alert_count, alerts) \<leftarrow> detection_evaluate (gui_text U) (Some e') (Some (dr_alerts d1)) TRACEGLASS_MAX_ALERTS_PER_EVENT;
              add_alerts U [0..<alert_count] (d1\<lparr>dr_alerts := the alerts\<rparr>) })) }"

text \<open>\<open>alerts\<close> is what the uninitialised array happens to hold.\<close>

definition drain_events :: "gui_api \<Rightarrow> TraceGlassEvent list \<Rightarrow> GuiState \<Rightarrow> GuiState option" where
  "drain_events U alerts g =
     (let first_events = (st_event_count (g_store g) = 0) in do {
       (q, drained) \<leftarrow> drain_loop queue_pop (\<lambda>e d. Option.bind d (drain_event U e)) (g_queue g)
         (Some \<lparr>dr_gui = g, dr_alerts = alerts, dr_tree_changed = False, dr_any_accepted = False\<rparr>);
       d \<leftarrow> drained;
       (let g1 = (dr_gui d)\<lparr>g_queue := q\<rparr> in
        if \<not> dr_any_accepted d then Some g1
        else if g_rendering_paused g1 then Some (g1\<lparr>g_render_dirty := True\<rparr>)
        else (do {
          g2 \<leftarrow> (if dr_tree_changed d then rebuild_tree U g1 else Some g1);
          g3 \<leftarrow> rebuild_overview_lists U g2;
          Some (update_status_bar U (update_overview_metrics U
            (sort_view U VIEW_ALERTS first_events (sort_view U VIEW_NETWORK first_events
              (sort_view U VIEW_TIMELINE first_events g3))))) })) })"

section \<open>Commands\<close>

definition rebuild_filtered_views :: "gui_api \<Rightarrow> GuiState \<Rightarrow> GuiState option" where
  "rebuild_filtered_views U g =
     (if g_rendering_paused g then Some (g\<lparr>g_render_dirty := True\<rparr>)
      else do { g1 \<leftarrow> rebuild_event_lists U g; rebuild_overview_lists U g1 })"

definition toggle_pause :: "gui_api \<Rightarrow> GuiState \<Rightarrow> GuiState option" where
  "toggle_pause U g =
     (let g1 = update_monitoring_label (g\<lparr>g_rendering_paused := \<not> g_rendering_paused g\<rparr>) in do {
       g2 \<leftarrow> (if \<not> g_rendering_paused g1 \<and> g_render_dirty g1
         then do { a \<leftarrow> rebuild_event_lists U g1;
                   b \<leftarrow> rebuild_tree U a;
                   c \<leftarrow> rebuild_overview_lists U b;
                   Some (c\<lparr>g_render_dirty := False\<rparr>) }
         else Some g1);
       (let g3 = update_status_bar U (update_overview_metrics U g2);
            g4 = set_transient_status U
              (wide (if g_rendering_paused g3 then ''View paused; telemetry collection continues''
                     else ''View resumed; buffered events rendered'')) g3
        in Some (update_status_bar U g4)) })"

definition clear_current_view :: "gui_api \<Rightarrow> GuiState \<Rightarrow> GuiState" where
  "clear_current_view U g =
     (let view = current_view g;
          g1 = g\<lparr>g_view_floor := (g_view_floor g)(view := st_event_count (g_store g))\<rparr>
      in case view of
        VIEW_PROCESSES \<Rightarrow> g
      | VIEW_OVERVIEW \<Rightarrow> update_status_bar U (set_transient_status U
            (wide ''Overview activity cleared; collection continues'') (g1\<lparr>g_recent_list := [], g_recent_alert_list := []\<rparr>))
      | VIEW_NETWORK \<Rightarrow> update_status_bar U (set_transient_status U
            (wide ''Network view cleared; collection continues'') (g1\<lparr>g_network_list := []\<rparr>))
      | VIEW_TIMELINE \<Rightarrow> update_status_bar U (set_transient_status U
            (wide ''Timeline view cleared; collection continues'') (g1\<lparr>g_timeline_list := []\<rparr>))
      | VIEW_ALERTS \<Rightarrow> update_status_bar U (set_transient_status U
            (wide ''Alerts view cleared; collection continues'') (g1\<lparr>g_alert_list := []\<rparr>)))"

section \<open>The message procedure\<close>

text \<open>
  The messages that change this state. Where the user has changed a control, the message carries
  the control's new content; \<open>EventsReady\<close> carries what the local array of \<open>drain_events\<close> holds.
\<close>

datatype gui_message =
    EventsReady "TraceGlassEvent list"
  | SearchChanged wstr
  | FilterSelected int
  | FilterTimer
  | StatusTimer
  | PauseClicked
  | ClearClicked
  | TabSelected int
  | ColumnClicked list_control int

fun gui_step :: "gui_api \<Rightarrow> gui_message \<Rightarrow> GuiState \<Rightarrow> GuiState option" where
  "gui_step U (EventsReady alerts) g = (if g_queue_ready g then drain_events U alerts g else Some g)"
| "gui_step U (SearchChanged txt) g = Some (g\<lparr>g_search_edit := txt, g_filter_timer_active := True\<rparr>)"
| "gui_step U (FilterSelected selected) g = rebuild_filtered_views U (g\<lparr>g_event_filter := selected\<rparr>)"
| "gui_step U FilterTimer g = rebuild_filtered_views U (g\<lparr>g_filter_timer_active := False\<rparr>)"
| "gui_step U StatusTimer g =
     Some (if g_rendering_paused g then g else update_status_bar U (update_overview_metrics U g))"
| "gui_step U PauseClicked g = toggle_pause U g"
| "gui_step U ClearClicked g = Some (clear_current_view U g)"
| "gui_step U (TabSelected selected) g = Some (update_selected_view (g\<lparr>g_navigation := selected\<rparr>))"
| "gui_step U (ColumnClicked control column) g = Some (handle_column_click U control column g)"

end
