(* ===== verification/TG_ViewsCurrent.thy ===== *)
theory TG_ViewsCurrent
  imports TG_Views
begin

text \<open>
  What the views show. The event lists hold a row for every event of the store that passes the
  filters and was not cleared away, the overview the newest of them; each operation of \<open>TG_Views\<close>
  keeps this up, or leaves a mark (the dirty flag, the pending filter timer) that it has not.
\<close>

section \<open>The rows that belong to a log\<close>

definition shown_indices :: "(TraceGlassEvent \<Rightarrow> bool) \<Rightarrow> u64 \<Rightarrow> TraceGlassEvent list \<Rightarrow> nat list" where
  "shown_indices P floor_index evs = filter (\<lambda>i. unat floor_index \<le> i \<and> P (evs ! i)) [0..<length evs]"

definition rows_of :: "(TraceGlassEvent \<Rightarrow> wstr list) \<Rightarrow> TraceGlassEvent list \<Rightarrow> nat list \<Rightarrow> list_row list" where
  "rows_of cells evs is = map (\<lambda>i. \<lparr>row_param = of_nat i, row_cells = cells (evs ! i)\<rparr>) is"

definition found :: "text_api \<Rightarrow> GuiState \<Rightarrow> TraceGlassEvent \<Rightarrow> bool" where
  "found W g e \<longleftrightarrow> event_matches_search W (g_search_edit g) e"

definition listed :: "text_api \<Rightarrow> GuiState \<Rightarrow> TraceGlassEvent \<Rightarrow> bool" where
  "listed W g e \<longleftrightarrow> found W g e \<and> event_matches_type_filter (g_event_filter g) e"

definition lists_show :: "text_api \<Rightarrow> GuiState \<Rightarrow> TraceGlassEvent list \<Rightarrow> bool" where
  "lists_show W g evs \<longleftrightarrow>
     mset (g_timeline_list g) = mset (rows_of (timeline_cells W) evs
       (shown_indices (listed W g) (g_view_floor g VIEW_TIMELINE) evs)) \<and>
     mset (g_network_list g) = mset (rows_of (network_cells W) evs
       (shown_indices (\<lambda>e. ev_type e = EVENT_NETWORK \<and> found W g e) (g_view_floor g VIEW_NETWORK) evs)) \<and>
     mset (g_alert_list g) = mset (rows_of (alert_cells W) evs
       (shown_indices (\<lambda>e. ev_type e = EVENT_ALERT \<and> found W g e) (g_view_floor g VIEW_ALERTS) evs))"

definition overview_shows :: "text_api \<Rightarrow> GuiState \<Rightarrow> TraceGlassEvent list \<Rightarrow> bool" where
  "overview_shows W g evs \<longleftrightarrow>
     g_recent_list g = rows_of (recent_cells W) evs (take RECENT_EVENT_LIMIT (rev
       (shown_indices (\<lambda>e. ev_type e \<noteq> EVENT_ALERT \<and> listed W g e) (g_view_floor g VIEW_OVERVIEW) evs))) \<and>
     g_recent_alert_list g = rows_of (recent_alert_cells W) evs (take RECENT_ALERT_LIMIT (rev
       (shown_indices (\<lambda>e. ev_type e = EVENT_ALERT \<and> listed W g e) (g_view_floor g VIEW_OVERVIEW) evs)))"

lemma shown_indices_snoc:
  "shown_indices P f (evs @ [e]) = shown_indices P f evs @ (if unat f \<le> length evs \<and> P e then [length evs] else [])"
proof -
  have "filter (\<lambda>i. unat f \<le> i \<and> P ((evs @ [e]) ! i)) [0..<length evs] = shown_indices P f evs"
    unfolding shown_indices_def by (rule filter_cong) (auto simp: nth_append)
  then show ?thesis by (simp add: shown_indices_def)
qed

lemma rows_of_snoc:
  "rows_of cells (evs @ [e]) (shown_indices P f (evs @ [e])) =
   rows_of cells evs (shown_indices P f evs) @
     (if unat f \<le> length evs \<and> P e then [\<lparr>row_param = of_nat (length evs), row_cells = cells e\<rparr>] else [])"
proof -
  have "rows_of cells (evs @ [e]) (shown_indices P f evs) = rows_of cells evs (shown_indices P f evs)"
    unfolding rows_of_def by (rule map_cong) (auto simp: shown_indices_def nth_append)
  then show ?thesis by (simp add: shown_indices_snoc) (simp add: rows_of_def)
qed

lemma nothing_shown: "length evs \<le> unat f \<Longrightarrow> shown_indices P f evs = []"
  by (auto simp: shown_indices_def filter_empty_conv)

section \<open>What the operations leave alone\<close>

text \<open>What decides which rows belong into the lists, and the marks of what is outstanding.\<close>

definition controls :: "GuiState \<Rightarrow> wstr \<times> int \<times> (GuiView \<Rightarrow> u64) \<times> bool \<times> bool \<times> bool \<times> bool \<times> (panel \<Rightarrow> bool) \<times> int" where
  "controls g = (g_search_edit g, g_event_filter g, g_view_floor g, g_rendering_paused g, g_render_dirty g,
     g_filter_timer_active g, g_queue_ready g, g_shown g, g_navigation g)"

definition overview :: "GuiState \<Rightarrow> list_row list \<times> list_row list" where
  "overview g = (g_recent_list g, g_recent_alert_list g)"

definition event_lists :: "GuiState \<Rightarrow> list_row list \<times> list_row list \<times> list_row list" where
  "event_lists g = (g_timeline_list g, g_network_list g, g_alert_list g)"

lemma controlsD:
  assumes "controls g' = controls g"
  shows "g_search_edit g' = g_search_edit g" and "g_event_filter g' = g_event_filter g"
    and "g_view_floor g' = g_view_floor g" and "g_rendering_paused g' = g_rendering_paused g"
    and "g_render_dirty g' = g_render_dirty g" and "g_filter_timer_active g' = g_filter_timer_active g"
    and "g_queue_ready g' = g_queue_ready g" and "g_shown g' = g_shown g" and "g_navigation g' = g_navigation g"
  using assms by (simp_all add: controls_def)

text \<open>The views depend on the filters and floors alone.\<close>

lemma shows_cong:
  assumes "g_search_edit g = g_search_edit g'" and "g_event_filter g = g_event_filter g'" and "g_view_floor g = g_view_floor g'"
  shows "found W g = found W g'" and "listed W g = listed W g'"
    and "event_lists g = event_lists g' \<Longrightarrow> lists_show W g evs = lists_show W g' evs"
    and "overview g = overview g' \<Longrightarrow> overview_shows W g evs = overview_shows W g' evs"
proof -
  show same: "found W g = found W g'" "listed W g = listed W g'"
    using assms by (simp_all add: found_def listed_def fun_eq_iff)
  show "event_lists g = event_lists g' \<Longrightarrow> lists_show W g evs = lists_show W g' evs"
    using same assms(3) by (simp add: lists_show_def event_lists_def)
  show "overview g = overview g' \<Longrightarrow> overview_shows W g evs = overview_shows W g' evs"
    using same assms(3) by (simp add: overview_shows_def overview_def)
qed

lemma listed_controls:
  "controls g = controls g' \<Longrightarrow> found W g = found W g' \<and> listed W g = listed W g'"
  using shows_cong(1,2) controlsD(1-3) by blast

lemma overview_shows_cong:
  "controls g = controls g' \<Longrightarrow> overview g = overview g' \<Longrightarrow> overview_shows W g evs = overview_shows W g' evs"
  by (rule shows_cong(4) [OF controlsD(1-3)])

lemma lists_show_cong:
  "controls g = controls g' \<Longrightarrow> event_lists g = event_lists g' \<Longrightarrow> lists_show W g evs = lists_show W g' evs"
  by (rule shows_cong(3) [OF controlsD(1-3)])

lemmas view_parts = controls_def overview_def event_lists_def

lemma texts_frame [simp]:
  "controls (update_status_bar U g) = controls g" "controls (update_overview_metrics U g) = controls g"
  "controls (set_transient_status U m g) = controls g"
  "overview (update_status_bar U g) = overview g" "overview (update_overview_metrics U g) = overview g"
  "overview (set_transient_status U m g) = overview g"
  "event_lists (update_status_bar U g) = event_lists g" "event_lists (update_overview_metrics U g) = event_lists g"
  "event_lists (set_transient_status U m g) = event_lists g"
  "g_store (update_status_bar U g) = g_store g" "g_store (update_overview_metrics U g) = g_store g"
  "g_store (set_transient_status U m g) = g_store g"
  "g_queue (update_status_bar U g) = g_queue g" "g_queue (update_overview_metrics U g) = g_queue g"
  "g_queue (set_transient_status U m g) = g_queue g"
  by (simp_all add: update_status_bar_def update_overview_metrics_def set_transient_status_def read_tick_def Let_def view_parts)

lemma sort_view_frame [simp]:
  "controls (sort_view U v force g) = controls g" "overview (sort_view U v force g) = overview g"
  "g_store (sort_view U v force g) = g_store g" "g_queue (sort_view U v force g) = g_queue g"
  by (cases v; simp add: sort_view_def list_for_view_def set_list_def Let_def view_parts)+

lemma sort_view_shows:
  assumes "list_api_ok (gui_list U)"
  shows "lists_show W (sort_view U v force g) evs = lists_show W g evs"
proof -
  have "listed W (sort_view U v force g) = listed W g" "found W (sort_view U v force g) = found W g"
      "g_view_floor (sort_view U v force g) = g_view_floor g"
    using listed_controls [OF sort_view_frame(1)] sort_view_frame(1) [of U v force g] by (simp_all add: controls_def)
  moreover have "mset (g_timeline_list (sort_view U v force g)) = mset (g_timeline_list g)"
      "mset (g_network_list (sort_view U v force g)) = mset (g_network_list g)"
      "mset (g_alert_list (sort_view U v force g)) = mset (g_alert_list g)"
    using assms by (cases v; simp add: sort_view_def list_for_view_def set_list_def Let_def list_api_ok_def)+
  ultimately show ?thesis by (simp add: lists_show_def)
qed

lemma show_rows_frame [simp]:
  "controls (show_rows U i t e g) = controls g" "overview (show_rows U i t e g) = overview g"
  "g_store (show_rows U i t e g) = g_store g" "g_queue (show_rows U i t e g) = g_queue g"
  by (simp_all add: show_rows_def Let_def view_parts)

section \<open>Adding and rebuilding rows\<close>

lemma floor_reached:
  "length evs < 2 ^ 64 \<Longrightarrow> (f :: u64) \<le> of_nat (length evs) \<longleftrightarrow> unat f \<le> length evs"
  by (simp add: word_le_nat_alt unat_of_nat)

lemma show_rows_shows:
  assumes "list_api_ok (gui_list U)" and "length evs < 2 ^ 64" and "lists_show (gui_text U) g evs"
  shows "lists_show (gui_text U) (show_rows U (of_nat (length evs)) (ev_type e) e g) (evs @ [e])"
proof -
  let ?W = "gui_text U" and ?g = "show_rows U (of_nat (length evs)) (ev_type e) e g"
  have same: "listed ?W ?g = listed ?W g" "found ?W ?g = found ?W g" "g_view_floor ?g = g_view_floor g"
    using listed_controls [OF show_rows_frame(1)] show_rows_frame(1) [of U "of_nat (length evs)" "ev_type e" e g]
    by (simp_all add: controls_def)
  note rows = add_row_eq [OF assms(1)]
  have "g_timeline_list ?g = g_timeline_list g @
      (if unat (g_view_floor g VIEW_TIMELINE) \<le> length evs \<and> listed ?W g e
       then [\<lparr>row_param = of_nat (length evs), row_cells = timeline_cells ?W e\<rparr>] else [])"
    by (simp add: show_rows_def floor_reached [OF assms(2)] add_timeline_row_def rows timeline_cells_def listed_def found_def Let_def)
  moreover have "g_network_list ?g = g_network_list g @
      (if unat (g_view_floor g VIEW_NETWORK) \<le> length evs \<and> ev_type e = EVENT_NETWORK \<and> found ?W g e
       then [\<lparr>row_param = of_nat (length evs), row_cells = network_cells ?W e\<rparr>] else [])"
    by (simp add: show_rows_def floor_reached [OF assms(2)] add_network_row_def rows network_cells_def found_def Let_def)
  moreover have "g_alert_list ?g = g_alert_list g @
      (if unat (g_view_floor g VIEW_ALERTS) \<le> length evs \<and> ev_type e = EVENT_ALERT \<and> found ?W g e
       then [\<lparr>row_param = of_nat (length evs), row_cells = alert_cells ?W e\<rparr>] else [])"
    by (auto simp add: show_rows_def floor_reached [OF assms(2)] add_alert_row_def rows alert_cells_def found_def Let_def)
  ultimately show ?thesis
    using assms(3) unfolding lists_show_def rows_of_snoc same by simp
qed

lemma show_events_shows:
  assumes "list_api_ok (gui_list U)" and "length (st_events (g_store g)) < 2 ^ 64" and "k \<le> length (st_events (g_store g))"
    and "lists_show (gui_text U) g (take k (st_events (g_store g)))"
  shows "\<exists>g'. show_events U [k..<length (st_events (g_store g))] g = Some g' \<and>
    lists_show (gui_text U) g' (st_events (g_store g)) \<and>
    controls g' = controls g \<and> overview g' = overview g \<and> g_store g' = g_store g \<and> g_queue g' = g_queue g"
  using assms(2-4)
proof (induction "length (st_events (g_store g)) - k" arbitrary: k g)
  case 0
  then show ?case by simp
next
  case (Suc n)
  let ?evs = "st_events (g_store g)"
  have k: "k < length ?evs" using Suc.hyps(2) by simp
  have n: "n = length ?evs - Suc k" using Suc.hyps(2) by linarith
  let ?g = "show_rows U (of_nat k) (ev_type (?evs ! k)) (?evs ! k) g"
  have "lists_show (gui_text U) ?g (take (Suc k) ?evs)"
    using show_rows_shows [OF assms(1) _ Suc.prems(3), of "?evs ! k"] Suc.prems(1) k
    by (simp add: take_Suc_conv_app_nth)
  then obtain g' where "show_events U [Suc k..<length ?evs] ?g = Some g'" "lists_show (gui_text U) g' ?evs"
      "controls g' = controls g" "overview g' = overview g" "g_store g' = g_store g" "g_queue g' = g_queue g"
    using Suc.hyps(1) [of ?g "Suc k"] n Suc.prems(1) k by auto
  then show ?case using k by (simp add: upt_conv_Cons buf_get_in)
qed

lemma store_length:
  "store_wf s \<Longrightarrow> unat (st_event_count s) = length (st_events s) \<and> length (st_events s) < 2 ^ 64"
  using unsigned_less [of "st_event_count s", where ?'a = nat] by (auto simp: store_wf_def)

lemma rebuild_lists_shows:
  assumes "list_api_ok (gui_list U)" and "store_wf (g_store g)"
  shows "\<exists>g'. rebuild_event_lists U g = Some g' \<and> lists_show (gui_text U) g' (st_events (g_store g)) \<and>
    controls g' = controls g \<and> overview g' = overview g \<and> g_store g' = g_store g \<and> g_queue g' = g_queue g"
proof -
  let ?g = "g\<lparr>g_timeline_list := [], g_network_list := [], g_alert_list := []\<rparr>"
  have "lists_show (gui_text U) ?g (take 0 (st_events (g_store ?g)))"
    by (simp add: lists_show_def shown_indices_def rows_of_def)
  then obtain g' where "show_events U [0..<length (st_events (g_store g))] ?g = Some g'"
      "lists_show (gui_text U) g' (st_events (g_store g))"
      "controls g' = controls g" "overview g' = overview g" "g_store g' = g_store g" "g_queue g' = g_queue g"
    using show_events_shows [OF assms(1), of ?g 0] store_length [OF assms(2)] by (auto simp: view_parts)
  then show ?thesis
    using store_length [OF assms(2)] by (simp add: rebuild_event_lists_def sort_view_shows [OF assms(1)])
qed

text \<open>
  The loop of the overview over indices in descending order: the two lists receive the first
  matching events of each kind until they are full.
\<close>

lemma add_recent_eq:
  "list_api_ok L \<Longrightarrow> cells \<noteq> [] \<Longrightarrow>
   add_recent L cells i st = (fst st @ [\<lparr>row_param = i, row_cells = cells\<rparr>], snd st + 1)"
  by (cases cells) (simp_all add: add_recent_def insert_list_item_def list_api_ok_def set_item_texts_last)

lemma rows_of_append: "rows_of c evs (is @ js) = rows_of c evs is @ rows_of c evs js"
  by (simp add: rows_of_def)

lemma overview_loop_eq:
  assumes "list_api_ok (gui_list U)"
  shows "\<forall>i \<in> set is. i < length evs \<Longrightarrow>
    overview_loop U P evs is (ra, a) (rb, b) = Some
      (ra @ rows_of (recent_cells (gui_text U)) evs
         (take (RECENT_EVENT_LIMIT - a) (filter (\<lambda>i. ev_type (evs ! i) \<noteq> EVENT_ALERT \<and> P (evs ! i)) is)),
       rb @ rows_of (recent_alert_cells (gui_text U)) evs
         (take (RECENT_ALERT_LIMIT - b) (filter (\<lambda>i. ev_type (evs ! i) = EVENT_ALERT \<and> P (evs ! i)) is)))"
proof (induction "is" arbitrary: ra a rb b)
  case Nil
  then show ?case by (simp add: rows_of_def)
next
  case (Cons i "is")
  let ?e = "evs ! i" and ?W = "gui_text U"
  have i: "buf_get evs i = Some ?e" using Cons.prems by (simp add: buf_get_in)
  have cells: "add_recent (gui_list U) (recent_alert_cells ?W ?e) j st =
      (fst st @ [\<lparr>row_param = j, row_cells = recent_alert_cells ?W ?e\<rparr>], snd st + 1)"
    "add_recent (gui_list U) (recent_cells ?W ?e) j st =
      (fst st @ [\<lparr>row_param = j, row_cells = recent_cells ?W ?e\<rparr>], snd st + 1)" for j st
    using add_recent_eq [OF assms] by (simp_all add: recent_alert_cells_def recent_cells_def)
  have IH: "overview_loop U P evs is (ra', a') (rb', b') = Some
      (ra' @ rows_of (recent_cells ?W) evs
         (take (RECENT_EVENT_LIMIT - a') (filter (\<lambda>i. ev_type (evs ! i) \<noteq> EVENT_ALERT \<and> P (evs ! i)) is)),
       rb' @ rows_of (recent_alert_cells ?W) evs
         (take (RECENT_ALERT_LIMIT - b') (filter (\<lambda>i. ev_type (evs ! i) = EVENT_ALERT \<and> P (evs ! i)) is)))" for ra' a' rb' b'
    using Cons.IH Cons.prems by simp
  have step: "take (l - n) (x # xs) = x # take (l - Suc n) xs" if "\<not> l \<le> n" for l n :: nat and x :: nat and xs
    using that by (cases "l - n") (auto simp: take_Suc_conv_app_nth diff_Suc split: nat.splits)
  consider "\<not> P ?e" | "P ?e" "ev_type ?e = EVENT_ALERT" | "P ?e" "ev_type ?e \<noteq> EVENT_ALERT" by blast
  then show ?case
  proof cases
    case 1 then show ?thesis using i IH by simp
  next
    case 2
    then show ?thesis
      using i IH cells by (auto simp: step rows_of_def Let_def)
  next
    case 3
    then show ?thesis
      using i IH cells by (auto simp: step rows_of_def Let_def)
  qed
qed

lemma shown_from_floor: "shown_indices P f evs = filter (\<lambda>i. P (evs ! i)) [unat f..<length evs]"
proof (cases "unat f \<le> length evs")
  case True
  then have "[0..<length evs] = [0..<unat f] @ [unat f..<length evs]" by (metis le0 le_add_diff_inverse upt_add_eq_append)
  then show ?thesis by (auto simp: shown_indices_def filter_empty_conv intro!: filter_cong)
qed (simp add: nothing_shown)

lemma rebuild_overview_shows:
  assumes "list_api_ok (gui_list U)" and "store_wf (g_store g)"
  shows "\<exists>g'. rebuild_overview_lists U g = Some g' \<and> overview_shows (gui_text U) g' (st_events (g_store g)) \<and>
    controls g' = controls g \<and> event_lists g' = event_lists g \<and> g_store g' = g_store g \<and> g_queue g' = g_queue g"
proof -
  let ?evs = "st_events (g_store g)" and ?W = "gui_text U"
  let ?P = "\<lambda>e. event_matches_search ?W (g_search_edit g) e \<and> event_matches_type_filter (g_event_filter g) e"
  let ?is = "rev [unat (g_view_floor g VIEW_OVERVIEW)..<length ?evs]"
  have "\<forall>i \<in> set ?is. i < length ?evs" by simp
  note loop = overview_loop_eq [OF assms(1) this, of ?P "[]" 0 "[]" 0]
  let ?recent = "rows_of (recent_cells ?W) ?evs (take RECENT_EVENT_LIMIT (filter (\<lambda>i. ev_type (?evs ! i) \<noteq> EVENT_ALERT \<and> ?P (?evs ! i)) ?is))"
  let ?alerts = "rows_of (recent_alert_cells ?W) ?evs (take RECENT_ALERT_LIMIT (filter (\<lambda>i. ev_type (?evs ! i) = EVENT_ALERT \<and> ?P (?evs ! i)) ?is))"
  let ?g = "g\<lparr>g_recent_list := ?recent, g_recent_alert_list := ?alerts\<rparr>"
  have "rebuild_overview_lists U g = Some ?g"
    using loop store_length [OF assms(2)] by (simp add: rebuild_overview_lists_def)
  moreover have "overview_shows ?W ?g ?evs"
    unfolding overview_shows_def shown_from_floor by (simp add: rev_filter listed_def found_def)
  ultimately show ?thesis by (intro exI [of _ ?g]) (simp add: view_parts)
qed

text \<open>Rebuilding the tree changes nothing else.\<close>

lemma rebuild_tree_total:
  assumes "tree_api_ok (gui_tree U)" and "store_wf (g_store g)"
  shows "\<exists>g'. rebuild_tree U g = Some g' \<and> controls g' = controls g \<and> event_lists g' = event_lists g \<and>
    overview g' = overview g \<and> g_store g' = g_store g \<and> g_queue g' = g_queue g"
  using rebuild_forest [OF assms(2,1), of "gui_text U"] by (auto simp: rebuild_tree_def view_parts)

section \<open>Adding events\<close>

text \<open>The store has logged \<open>new\<close>, and unless rendering is paused the lists have followed.\<close>

definition extends :: "text_api \<Rightarrow> GuiState \<Rightarrow> GuiState \<Rightarrow> TraceGlassEvent list \<Rightarrow> bool" where
  "extends W g g' new \<longleftrightarrow> store_wf (g_store g') \<and> st_events (g_store g') = st_events (g_store g) @ new \<and>
     controls g' = controls g \<and> overview g' = overview g \<and> g_queue g' = g_queue g \<and>
     (g_rendering_paused g \<longrightarrow> event_lists g' = event_lists g) \<and>
     (\<not> g_rendering_paused g \<and> lists_show W g (st_events (g_store g)) \<longrightarrow> lists_show W g' (st_events (g_store g')))"

lemma extends_refl: "store_wf (g_store g) \<Longrightarrow> extends W g g []"
  by (simp add: extends_def)

lemma extends_trans: "extends W g g1 a \<Longrightarrow> extends W g1 g2 b \<Longrightarrow> extends W g g2 (a @ b)"
  by (auto simp: extends_def controls_def)

lemma add_accepted_extends:
  assumes "list_api_ok (gui_list U)" and "store_wf (g_store g)"
  shows "\<exists>acc e' g' store ok. add_accepted_event U e g = Some (acc, e', g') \<and>
    store_add (gui_store U) (g_store g) e = Some (ok, acc, store, e') \<and> g_store g' = store \<and>
    extends (gui_text U) g g' (if acc then [e'] else [])"
proof -
  obtain ok acc store e' where a: "store_add (gui_store U) (g_store g) e = Some (ok, acc, store, e')"
    using store_add_returns by metis
  note wf = store_add_wf [OF assms(2) a]
  note log = log_of_add [OF a]
  let ?g = "g\<lparr>g_store := store\<rparr>"
  have lists: "lists_show (gui_text U) ?g evs = lists_show (gui_text U) g evs" for evs
    by (rule lists_show_cong) (simp_all add: view_parts)
  show ?thesis
  proof (cases acc)
    case False
    then have "add_accepted_event U e g = Some (False, e', ?g)"
      using a by (simp add: add_accepted_event_def event_store_add_def)
    moreover have "extends (gui_text U) g ?g []"
      using wf log False lists by (simp add: extends_def view_parts)
    ultimately show ?thesis using a False by auto
  next
    case True
    then have l: "ok" "st_events store = st_events (g_store g) @ [e']" using log by simp_all
    let ?n = "length (st_events (g_store g))"
    have n: "unat (st_event_count store) = ?n + 1" "?n + 1 < 2 ^ 64" using store_length [OF wf] l(2) by simp_all
    have "unat (st_event_count store - 1) = ?n"
      using n(1) by (metis One_nat_def add.commute diff_Suc_1 le_add2 plus_1_eq_Suc unat_1 unat_sub word_le_nat_alt)
    moreover have "of_nat (unat (st_event_count store - 1)) = st_event_count store - 1" by simp
    ultimately have idx: "st_event_count store - 1 = of_nat ?n" and get: "buf_get (st_events store) (unat (st_event_count store - 1)) = Some e'"
      by (simp_all add: buf_get_def l(2))
    show ?thesis
    proof (cases "g_rendering_paused g")
      case True
      then have "add_accepted_event U e g = Some (True, e', ?g)"
        using a l(1) \<open>acc\<close> by (simp add: add_accepted_event_def event_store_add_def)
      moreover have "extends (gui_text U) g ?g [e']"
        using wf l(2) True by (simp add: extends_def view_parts)
      ultimately show ?thesis using a \<open>acc\<close> by auto
    next
      case False
      let ?h = "show_rows U (of_nat ?n) (ev_type e') e' ?g"
      have "add_accepted_event U e g = Some (True, e', ?h)"
        using a l(1) \<open>acc\<close> False get idx by (simp add: add_accepted_event_def event_store_add_def)
      moreover have "extends (gui_text U) g ?h [e']"
        using wf l(2) show_rows_shows [OF assms(1), of "st_events (g_store g)" ?g e'] n(2) lists False
        by (simp add: extends_def) (simp add: view_parts)
      ultimately show ?thesis using a \<open>acc\<close> by auto
    qed
  qed
qed

end
