(* ===== verification/TG_Drain.thy ===== *)
theory TG_Drain
  imports TG_ViewsCurrent
begin

text \<open>
  Draining the queue: every event is ingested as the abstract session of \<open>TG_Session\<close> says, with
  the alerts it raises, and the views follow or are marked as outdated.
\<close>

section \<open>Room\<close>

lemma room_mono: "room k ss \<Longrightarrow> j \<le> k \<Longrightarrow> room j ss"
  by (auto simp: room_def)

lemma room_report: "room (Suc k) ss \<Longrightarrow> room k (fst (spec_report ss e))"
  by (auto simp: room_def spec_report_def log_event_def Let_def split: EventType.split option.split)

lemma room_reports: "room (length as + k) ss \<Longrightarrow> room k (fold (\<lambda>a s. fst (spec_report s a)) as ss)"
proof (induction as arbitrary: ss)
  case (Cons a as)
  then show ?case using room_report [of "length as + k" ss a] by simp
qed simp

section \<open>One event\<close>

lemma add_accepted_ingests:
  assumes "list_api_ok (gui_list U)" and "store_wf (g_store g)"
  shows "\<exists>acc e' g'. add_accepted_event U e g = Some (acc, e', g') \<and> ev_type e' = ev_type e \<and>
    extends (gui_text U) g g' (if acc then [e'] else []) \<and>
    (unlimited (gui_store U) \<and> store_ok (g_store g) \<and> room 1 (session_of (g_store g)) \<longrightarrow>
     store_ok (g_store g') \<and>
     spec_report (session_of (g_store g)) e = (session_of (g_store g'), if acc then Some e' else None))"
proof -
  obtain acc e' g' store ok where a: "add_accepted_event U e g = Some (acc, e', g')"
      "store_add (gui_store U) (g_store g) e = Some (ok, acc, store, e')" "g_store g' = store"
      "extends (gui_text U) g g' (if acc then [e'] else [])"
    using add_accepted_extends [OF assms] by blast
  moreover have "ev_type e' = ev_type e" using log_of_add [OF a(2)] by (cases acc) auto
  moreover have "store_ok store \<and> spec_report (session_of (g_store g)) e = (session_of store, if acc then Some e' else None)"
    if "unlimited (gui_store U)" "store_ok (g_store g)" "room 1 (session_of (g_store g))"
    using store_add_session [OF that, of e] a(2) by auto
  ultimately show ?thesis by blast
qed

abbreviation drain_session :: "drain_state \<Rightarrow> session" where
  "drain_session d \<equiv> session_of (g_store (dr_gui d))"

text \<open>What a part of the draining has done; \<open>ingest\<close> is what it means for the session.\<close>

definition drains :: "gui_api \<Rightarrow> nat \<Rightarrow> (session \<Rightarrow> session) \<Rightarrow> drain_state \<Rightarrow> drain_state \<Rightarrow> bool" where
  "drains U k ingest d d' \<longleftrightarrow>
     (\<exists>new. extends (gui_text U) (dr_gui d) (dr_gui d') new \<and> dr_any_accepted d' = (dr_any_accepted d \<or> new \<noteq> [])) \<and>
     length (dr_alerts d') = length (dr_alerts d) \<and>
     (unlimited (gui_store U) \<and> store_ok (g_store (dr_gui d)) \<and> room k (drain_session d) \<longrightarrow>
      store_ok (g_store (dr_gui d')) \<and> drain_session d' = ingest (drain_session d))"

lemma drains_wf: "drains U k f d d' \<Longrightarrow> store_wf (g_store (dr_gui d'))"
  by (auto simp: drains_def extends_def)

lemma drains_refl: "store_wf (g_store (dr_gui d)) \<Longrightarrow> drains U k (\<lambda>s. s) d d"
  unfolding drains_def using extends_refl by fastforce

lemma drains_trans:
  assumes "drains U k f d d1" and "drains U j h d1 d2" and "\<And>s. room n s \<Longrightarrow> room k s \<and> room j (f s)"
  shows "drains U n (\<lambda>s. h (f s)) d d2"
proof -
  obtain a b where "extends (gui_text U) (dr_gui d) (dr_gui d1) a" "dr_any_accepted d1 = (dr_any_accepted d \<or> a \<noteq> [])"
      "extends (gui_text U) (dr_gui d1) (dr_gui d2) b" "dr_any_accepted d2 = (dr_any_accepted d1 \<or> b \<noteq> [])"
    using assms(1,2) unfolding drains_def by blast
  then have "\<exists>new. extends (gui_text U) (dr_gui d) (dr_gui d2) new \<and> dr_any_accepted d2 = (dr_any_accepted d \<or> new \<noteq> [])"
    using extends_trans by (intro exI [of _ "a @ b"]) auto
  then show ?thesis using assms unfolding drains_def by simp
qed

lemma add_alerts_drains:
  assumes "list_api_ok (gui_list U)"
  shows "store_wf (g_store (dr_gui d)) \<Longrightarrow> n \<le> length (dr_alerts d) \<Longrightarrow> k \<le> n \<Longrightarrow>
    \<exists>d'. add_alerts U [k..<n] d = Some d' \<and>
      drains U (n - k) (fold (\<lambda>a s. fst (spec_report s a)) (drop k (take n (dr_alerts d)))) d d'"
proof (induction "n - k" arbitrary: k d)
  case 0
  then show ?case using drains_refl [of d U 0] by simp
next
  case (Suc m)
  let ?a = "dr_alerts d ! k"
  have k: "k < n" using Suc.hyps(2) by linarith
  have m: "m = n - Suc k" "n - k = Suc m" using Suc.hyps(2) by linarith+
  obtain acc e' g' where a: "add_accepted_event U ?a (dr_gui d) = Some (acc, e', g')"
      "extends (gui_text U) (dr_gui d) g' (if acc then [e'] else [])"
      "unlimited (gui_store U) \<and> store_ok (g_store (dr_gui d)) \<and> room 1 (drain_session d) \<longrightarrow>
       store_ok (g_store g') \<and> spec_report (drain_session d) ?a = (session_of (g_store g'), if acc then Some e' else None)"
    using add_accepted_ingests [OF assms Suc.prems(1)] by blast
  let ?d = "d\<lparr>dr_gui := g', dr_alerts := (dr_alerts d)[k := e'], dr_any_accepted := dr_any_accepted d \<or> acc\<rparr>"
  have "\<exists>new. extends (gui_text U) (dr_gui d) (dr_gui ?d) new \<and> dr_any_accepted ?d = (dr_any_accepted d \<or> new \<noteq> [])"
    using a(2) by (intro exI [of _ "if acc then [e'] else []"]) simp
  then have one: "drains U 1 (\<lambda>s. fst (spec_report s ?a)) d ?d"
    using a(3) unfolding drains_def by simp
  obtain d' where rest: "add_alerts U [Suc k..<n] ?d = Some d'"
      "drains U m (fold (\<lambda>a s. fst (spec_report s a)) (drop (Suc k) (take n (dr_alerts ?d)))) ?d d'"
    using Suc.hyps(1) [of "Suc k" ?d] drains_wf [OF one] Suc.prems k m by auto
  have "drains U (Suc m) (\<lambda>s. fold (\<lambda>a s. fst (spec_report s a)) (drop (Suc k) (take n (dr_alerts ?d)))
      (fst (spec_report s ?a))) d d'"
    by (rule drains_trans [OF one rest(2)]) (auto intro: room_mono room_report)
  moreover have "drop k (take n (dr_alerts d)) = ?a # drop (Suc k) (take n (dr_alerts ?d))"
    using k Suc.prems(2) by (simp add: Cons_nth_drop_Suc [symmetric] take_update_swap)
  moreover have "buf_get (dr_alerts d) k = Some ?a" using k Suc.prems(2) by (simp add: buf_get_in)
  ultimately show ?case using a(1) rest(1) k m by (simp add: upt_conv_Cons comp_def)
qed

lemma drain_event_drains:
  assumes "list_api_ok (gui_list U)" and "store_wf (g_store (dr_gui d))"
    and "length (dr_alerts d) = TRACEGLASS_MAX_ALERTS_PER_EVENT"
  shows "\<exists>d'. drain_event U e d = Some d' \<and> drains U 3 (spec_ingest (gui_text U) e) d d'"
proof -
  let ?W = "gui_text U"
  obtain acc e' g' where a: "add_accepted_event U e (dr_gui d) = Some (acc, e', g')"
      "extends ?W (dr_gui d) g' (if acc then [e'] else [])"
      "unlimited (gui_store U) \<and> store_ok (g_store (dr_gui d)) \<and> room 1 (drain_session d) \<longrightarrow>
       store_ok (g_store g') \<and> spec_report (drain_session d) e = (session_of (g_store g'), if acc then Some e' else None)"
    using add_accepted_ingests [OF assms(1,2)] by blast
  show ?thesis
  proof (cases acc)
    case False
    then have "drains U 3 (spec_ingest ?W e) d (d\<lparr>dr_gui := g'\<rparr>)"
      using a(2,3) room_mono [of 3 "drain_session d" 1] by (auto simp: drains_def spec_ingest_def intro!: exI [of _ "[]"])
    then show ?thesis using a(1) False by (auto simp: drain_event_def)
  next
    case True
    let ?alerts = "rule_alerts ?W e'"
    let ?arr = "?alerts @ drop (length ?alerts) (dr_alerts d)"
    have n: "length ?alerts \<le> 2" by (rule rule_alerts_length)
    then have det: "detection_evaluate ?W (Some e') (Some (dr_alerts d)) TRACEGLASS_MAX_ALERTS_PER_EVENT = Some (length ?alerts, Some ?arr)"
      using detection_stores [of TRACEGLASS_MAX_ALERTS_PER_EVENT "dr_alerts d" ?W e'] assms(3)
      by (auto simp: TRACEGLASS_MAX_ALERTS_PER_EVENT_def)
    let ?d1 = "d\<lparr>dr_gui := g', dr_any_accepted := True,
      dr_tree_changed := dr_tree_changed d \<or> ev_type e' = EVENT_PROCESS_START \<or> ev_type e' = EVENT_PROCESS_STOP,
      dr_alerts := ?arr\<rparr>"
    have one: "drains U 1 (\<lambda>s. fst (spec_report s e)) d ?d1"
      using a(2,3) True n assms(3)
      by (auto simp: drains_def TRACEGLASS_MAX_ALERTS_PER_EVENT_def intro!: exI [of _ "[e']"])
    obtain d' where rest: "add_alerts U [0..<length ?alerts] ?d1 = Some d'"
        "drains U (length ?alerts) (fold (\<lambda>a s. fst (spec_report s a)) ?alerts) ?d1 d'"
      using add_alerts_drains [OF assms(1), of ?d1 "length ?alerts" 0] drains_wf [OF one] by auto
    have "room (length ?alerts) (fst (spec_report s e))" if "room 3 s" for s
      using room_mono [OF room_report [OF room_mono [OF that, of "Suc 2"]] n] by simp
    then have all: "drains U 3 (\<lambda>s. fold (\<lambda>a s. fst (spec_report s a)) ?alerts (fst (spec_report s e))) d d'"
      by (intro drains_trans [OF one rest(2)]) (auto intro: room_mono)
    have "spec_ingest ?W e (drain_session d) = fold (\<lambda>a s. fst (spec_report s a)) ?alerts (fst (spec_report (drain_session d) e))"
      if "unlimited (gui_store U) \<and> store_ok (g_store (dr_gui d)) \<and> room 3 (drain_session d)"
      using a(3) that True room_mono [of 3 "drain_session d" 1] by (simp add: spec_ingest_def)
    then have "drains U 3 (spec_ingest ?W e) d d'" using all unfolding drains_def by simp
    moreover have "drain_event U e d = Some d'"
      using a(1) True det rest(1) by (simp add: drain_event_def)
    ultimately show ?thesis by blast
  qed
qed

text \<open>An event and its alerts take at most three places.\<close>

lemma room_ingest:
  assumes "room (k + 3) ss"
  shows "room k (spec_ingest W e ss)"
proof -
  have one: "room (k + 2) (fst (spec_report ss e))" by (rule room_report, rule room_mono [OF assms]) simp
  show ?thesis
  proof (cases "spec_report ss e")
    case (Pair s' logged)
    show ?thesis
    proof (cases logged)
      case None
      then show ?thesis using one Pair by (simp add: spec_ingest_def room_mono)
    next
      case (Some e')
      have "room (length (rule_alerts W e') + k) s'"
        using one Pair rule_alerts_length [of W e'] by (auto intro: room_mono)
      then show ?thesis using Pair Some room_reports by (simp add: spec_ingest_def)
    qed
  qed
qed

lemma drain_all_drains:
  assumes "list_api_ok (gui_list U)"
  shows "store_wf (g_store (dr_gui d)) \<Longrightarrow> length (dr_alerts d) = TRACEGLASS_MAX_ALERTS_PER_EVENT \<Longrightarrow>
    \<exists>d'. fold (\<lambda>e d. Option.bind d (drain_event U e)) es (Some d) = Some d' \<and>
      drains U (3 * length es) (fold (spec_ingest (gui_text U)) es) d d'"
proof (induction es arbitrary: d)
  case Nil
  then show ?case using drains_refl [of d U 0] by (simp add: id_def)
next
  case (Cons e es)
  obtain d1 where 1: "drain_event U e d = Some d1" "drains U 3 (spec_ingest (gui_text U) e) d d1"
    using drain_event_drains [OF assms Cons.prems] by blast
  then have "length (dr_alerts d1) = TRACEGLASS_MAX_ALERTS_PER_EVENT" using Cons.prems(2) by (simp add: drains_def)
  then obtain d' where 2: "fold (\<lambda>e d. Option.bind d (drain_event U e)) es (Some d1) = Some d'"
      "drains U (3 * length es) (fold (spec_ingest (gui_text U)) es) d1 d'"
    using Cons.IH [OF drains_wf [OF 1(2)]] by blast
  have "drains U (3 * length (e # es)) (\<lambda>s. fold (spec_ingest (gui_text U)) es (spec_ingest (gui_text U) e s)) d d'"
    by (rule drains_trans [OF 1(2) 2(2)]) (auto intro: room_mono room_ingest simp: add.commute)
  then show ?case using 1(1) 2(1) by (simp add: comp_def)
qed

section \<open>The whole call\<close>

definition gui_api_ok :: "gui_api \<Rightarrow> bool" where
  "gui_api_ok U \<longleftrightarrow> list_api_ok (gui_list U) \<and> tree_api_ok (gui_tree U)"

text \<open>
  The lists and the overview show the store, unless the dirty flag or the pending filter timer
  says otherwise; while rendering is not paused the flag is not set.
\<close>

definition views_current :: "text_api \<Rightarrow> GuiState \<Rightarrow> bool" where
  "views_current W g \<longleftrightarrow>
     (\<not> g_rendering_paused g \<longrightarrow> \<not> g_render_dirty g) \<and>
     (\<not> g_filter_timer_active g \<and> \<not> g_render_dirty g \<longrightarrow>
        lists_show W g (st_events (g_store g)) \<and> overview_shows W g (st_events (g_store g)))"

lemma views_current_cong:
  assumes "controls g' = controls g" and "event_lists g' = event_lists g" and "overview g' = overview g"
    and "st_events (g_store g') = st_events (g_store g)"
  shows "views_current W g' = views_current W g"
  using assms(1,4) lists_show_cong [OF assms(1,2)] overview_shows_cong [OF assms(1,3)]
  by (simp add: views_current_def controls_def)

lemma sort_view_current: "list_api_ok (gui_list U) \<Longrightarrow> views_current W (sort_view U v force g) = views_current W g"
  using sort_view_shows [of U W v force g] overview_shows_cong [OF sort_view_frame(1,2)]
  by (simp add: views_current_def controlsD [OF sort_view_frame(1)])

lemma texts_current [simp]:
  "views_current W (update_status_bar U g) = views_current W g"
  "views_current W (update_overview_metrics U g) = views_current W g"
  "views_current W (set_transient_status U m g) = views_current W g"
  by (rule views_current_cong; simp)+

lemma extends_current:
  assumes "extends W g g' new" and "views_current W g"
  shows "new = [] \<Longrightarrow> views_current W g'"
    and "\<not> g_rendering_paused g \<Longrightarrow> \<not> g_filter_timer_active g \<Longrightarrow> lists_show W g' (st_events (g_store g'))"
proof -
  have c: "controls g' = controls g" "overview g' = overview g" using assms(1) by (simp_all add: extends_def)
  show "\<not> g_rendering_paused g \<Longrightarrow> \<not> g_filter_timer_active g \<Longrightarrow> lists_show W g' (st_events (g_store g'))"
    using assms by (auto simp: extends_def views_current_def)
  show "views_current W g'" if "new = []"
  proof (cases "g_rendering_paused g")
    case True
    then show ?thesis
      using assms that views_current_cong [of g' g W] by (simp add: extends_def)
  next
    case False
    then show ?thesis
      using assms that overview_shows_cong [OF c] c(1) by (auto simp: views_current_def extends_def controls_def)
  qed
qed

lemma drain_events_result:
  assumes "gui_api_ok U" and "store_wf (g_store g)" and "holds (g_queue g) es"
    and "length alerts = TRACEGLASS_MAX_ALERTS_PER_EVENT"
  shows "\<exists>g'. drain_events U alerts g = Some g' \<and> store_wf (g_store g') \<and> holds (g_queue g') [] \<and>
    g_queue_ready g' = g_queue_ready g \<and> g_shown g' = g_shown g \<and> g_navigation g' = g_navigation g \<and>
    (views_current (gui_text U) g \<longrightarrow> views_current (gui_text U) g') \<and>
    (unlimited (gui_store U) \<and> store_ok (g_store g) \<and> room (3 * length es) (session_of (g_store g)) \<longrightarrow>
     store_ok (g_store g') \<and>
     session_of (g_store g') = fold (spec_ingest (gui_text U)) es (session_of (g_store g)))"
proof -
  let ?W = "gui_text U" and ?first = "st_event_count (g_store g) = 0"
  have api: "list_api_ok (gui_list U)" "tree_api_ok (gui_tree U)" using assms(1) by (simp_all add: gui_api_ok_def)
  let ?d = "\<lparr>dr_gui = g, dr_alerts = alerts, dr_tree_changed = False, dr_any_accepted = False\<rparr>"
  let ?body = "\<lambda>e d. Option.bind d (drain_event U e)"
  obtain q where q: "drain_loop queue_pop ?body (g_queue g) (Some ?d) = Some (q, fold ?body es (Some ?d))" "holds q []"
    using event_fifo.drain_all [OF assms(3), of ?body "Some ?d"] by auto
  obtain d where d: "fold ?body es (Some ?d) = Some d" "drains U (3 * length es) (fold (spec_ingest ?W) es) ?d d"
    using drain_all_drains [OF api(1), of ?d es] assms(2,4) by auto
  then obtain new where new: "extends ?W g (dr_gui d) new" "dr_any_accepted d = (new \<noteq> [])"
    by (auto simp: drains_def)
  let ?g1 = "(dr_gui d)\<lparr>g_queue := q\<rparr>"
  have g1: "controls ?g1 = controls g" "g_store ?g1 = g_store (dr_gui d)" "g_queue ?g1 = q" "store_wf (g_store ?g1)"
    using new(1) by (simp_all add: extends_def view_parts)
  have cur: "views_current ?W ?g1 = views_current ?W (dr_gui d)" by (rule views_current_cong) (simp_all add: view_parts)
  have sess: "unlimited (gui_store U) \<and> store_ok (g_store g) \<and> room (3 * length es) (session_of (g_store g)) \<longrightarrow>
     store_ok (g_store ?g1) \<and> session_of (g_store ?g1) = fold (spec_ingest ?W) es (session_of (g_store g))"
    using d(2) by (simp add: drains_def)
  consider "new = []" | "new \<noteq> []" "g_rendering_paused g" | "new \<noteq> []" "\<not> g_rendering_paused g" by blast
  then show ?thesis
  proof cases
    case 1
    then have "drain_events U alerts g = Some ?g1" using q(1) d(1) new(2) by (simp add: drain_events_def)
    moreover have "views_current ?W g \<longrightarrow> views_current ?W ?g1" using extends_current(1) [OF new(1)] 1 cur by blast
    ultimately show ?thesis using g1 q(2) sess by (simp add: controls_def)
  next
    case 2
    let ?g2 = "?g1\<lparr>g_render_dirty := True\<rparr>"
    have p: "g_rendering_paused (dr_gui d)" using 2(2) g1(1) by (simp add: controls_def)
    then have "drain_events U alerts g = Some ?g2" using q(1) d(1) new(2) 2(1) by (simp add: drain_events_def)
    moreover have "views_current ?W ?g2" using p by (simp add: views_current_def)
    ultimately show ?thesis using g1 q(2) sess by (simp add: controls_def)
  next
    case 3
    have p: "\<not> g_rendering_paused (dr_gui d)" using 3(2) g1(1) by (simp add: controls_def)
    obtain g2 where g2: "(if dr_tree_changed d then rebuild_tree U ?g1 else Some ?g1) = Some g2"
        "controls g2 = controls g" "event_lists g2 = event_lists ?g1" "g_store g2 = g_store ?g1" "g_queue g2 = q"
    proof (cases "dr_tree_changed d")
      case True
      then show ?thesis using rebuild_tree_total [OF api(2) g1(4)] g1(1,3) that by auto
    next
      case False
      then show ?thesis using g1(1,3) that [of ?g1] by simp
    qed
    obtain g3 where g3: "rebuild_overview_lists U g2 = Some g3" "overview_shows ?W g3 (st_events (g_store g2))"
        "controls g3 = controls g2" "event_lists g3 = event_lists g2" "g_store g3 = g_store g2" "g_queue g3 = g_queue g2"
      using rebuild_overview_shows [OF api(1), of g2] g1(4) g2(4) by auto
    let ?h = "update_status_bar U (update_overview_metrics U (sort_view U VIEW_ALERTS ?first
      (sort_view U VIEW_NETWORK ?first (sort_view U VIEW_TIMELINE ?first g3))))"
    have "drain_events U alerts g = Some ?h"
      using q(1) d(1) new(2) 3(1) p g2(1) g3(1) by (simp add: drain_events_def Let_def)
    moreover have "views_current ?W g3" if "views_current ?W g"
    proof -
      have "lists_show ?W g3 evs = lists_show ?W (dr_gui d) evs" for evs
        using g2(2,3) g3(3,4) new(1) by (intro lists_show_cong) (simp_all add: extends_def event_lists_def)
      then show ?thesis
        using extends_current(2) [OF new(1) that] that 3(2) g3 g2(2,4) g1(2)
        by (simp add: views_current_def) (simp add: controls_def)
    qed
    moreover have "controls ?h = controls g" using g2(2) g3(3) by simp
    from controlsD(7-9) [OF this] have "g_queue_ready ?h = g_queue_ready g" "g_shown ?h = g_shown g" "g_navigation ?h = g_navigation g"
      by simp_all
    ultimately show ?thesis
      using g1 g2 g3 q(2) sess by (simp add: sort_view_current [OF api(1)])
  qed
qed

end
