(* ===== verification/TG_Window.thy ===== *)
theory TG_Window
  imports TG_Drain
begin

text \<open>
  \<^verbatim>\<open>src/gui.c\<close>, the window over its lifetime: creation (\<^verbatim>\<open>WM_CREATE\<close>), any sequence of messages with
  events pushed by the telemetry threads in between, and the shutdown. What the views show is an
  invariant of the reachable states, and draining implements the abstract session.
\<close>

section \<open>Creation and shutdown\<close>

definition TRACEGLASS_WM_EVENTS_READY :: dword where "TRACEGLASS_WM_EVENTS_READY = 0x8001"

text \<open>
  \<open>controls_ok\<close> says whether the fonts and the controls could be created. The message boxes of the
  failing paths are display only. The result -1 of \<^verbatim>\<open>WM_CREATE\<close> is \<open>False\<close>.
\<close>

definition create_window ::
  "gui_api \<Rightarrow> os_api \<Rightarrow> network_api \<Rightarrow> bool \<Rightarrow> nat \<Rightarrow> GuiState \<Rightarrow> os_state \<Rightarrow> (bool \<times> GuiState \<times> os_state) option" where
  "create_window U A N controls_ok window g os =
     (let (tick, g0) = read_tick U g;
          g1 = g0\<lparr>g_session_started_tick := tick,
                  g_sort_states := (\<lambda>view. (g_sort_states g view)\<lparr>so_column := 0, so_ascending := True, so_view := view\<rparr>)\<rparr>
      in if \<not> controls_ok then Some (False, g1, os)
         else (case event_store_initialize (Some (g_store g1)) of
           (True, Some store) \<Rightarrow>
             (let g2 = g1\<lparr>g_store := store, g_store_ready := True\<rparr> in
              case event_queue_initialize (Some (snd (g_queue g2))) (Some window) TRACEGLASS_WM_EVENTS_READY of
                (True, Some queue) \<Rightarrow>
                  (let g3 = g2\<lparr>g_queue := (fst (g_queue g2), queue), g_queue_ready := True\<rparr>;
                       (initialized, e, os1) = initialize_telemetry A N (Some (g_telemetry g3)) True os;
                       g4 = g3\<lparr>g_telemetry := the e\<rparr>
                   in if \<not> initialized then Some (False, g4, os1)
                      else (do {
                        (started, e2, os2) \<leftarrow> start_telemetry A (gui_text U) (Some (g_telemetry g4)) os1;
                        (let g5 = g4\<lparr>g_telemetry := the e2, g_telemetry_ready := True\<rparr> in
                         if \<not> started then Some (False, g5, os2)
                         else Some (True, update_status_bar U (update_overview_metrics U
                                (update_selected_view (update_monitoring_label g5))), os2)) }))
              | _ \<Rightarrow> Some (False, g2, os))
         | _ \<Rightarrow> Some (False, g1, os)))"

definition shutdown_gui_state :: "os_api \<Rightarrow> GuiState \<Rightarrow> os_state \<Rightarrow> (GuiState \<times> os_state) option" where
  "shutdown_gui_state A g os =
     (if g_shutting_down g then Some (g, os)
      else (let g0 = g\<lparr>g_shutting_down := True\<rparr> in do {
        (g1, os1) \<leftarrow> (if g_telemetry_ready g0 then do {
            (e, os1) \<leftarrow> shutdown_telemetry A (Some (g_telemetry g0)) os;
            Some (g0\<lparr>g_telemetry := the e, g_telemetry_ready := False\<rparr>, os1) }
          else Some (g0, os));
        g2 \<leftarrow> (if g_queue_ready g1 then do {
            (h, q) \<leftarrow> event_queue_destroy (fst (g_queue g1)) (event_queue_set_window (Some (snd (g_queue g1))) None);
            Some (g1\<lparr>g_queue := (h, the q), g_queue_ready := False\<rparr>) }
          else Some g1);
        (let g3 = (if g_store_ready g2 then g2\<lparr>g_store := the (event_store_destroy (Some (g_store g2))), g_store_ready := False\<rparr> else g2)
         in Some (g3, os1)) }))"

section \<open>Every message keeps the views\<close>

definition view_panel :: "GuiView \<Rightarrow> panel" where
  "view_panel view = (case view of VIEW_OVERVIEW \<Rightarrow> OverviewPanel | VIEW_PROCESSES \<Rightarrow> TreePanel
     | VIEW_NETWORK \<Rightarrow> NetworkPanel | VIEW_TIMELINE \<Rightarrow> TimelinePanel | VIEW_ALERTS \<Rightarrow> AlertPanel)"

definition panel_current :: "GuiState \<Rightarrow> bool" where
  "panel_current g \<longleftrightarrow> (\<forall>p. g_shown g p \<longleftrightarrow> p = view_panel (current_view g))"

definition gui_inv :: "text_api \<Rightarrow> GuiState \<Rightarrow> bool" where
  "gui_inv W g \<longleftrightarrow> store_wf (g_store g) \<and> (\<exists>es. holds (g_queue g) es) \<and> views_current W g \<and> panel_current g"

lemma panel_current_cong:
  assumes "controls g' = controls g"
  shows "panel_current g' = panel_current g"
  unfolding panel_current_def current_view_def controlsD(8) [OF assms] controlsD(9) [OF assms] ..

lemma gui_inv_cong:
  assumes "controls g' = controls g" and "event_lists g' = event_lists g" and "overview g' = overview g"
    and "g_store g' = g_store g" and "g_queue g' = g_queue g"
  shows "gui_inv W g' = gui_inv W g"
  using views_current_cong [OF assms(1-3)] assms(4,5) panel_current_cong [OF assms(1)] by (simp add: gui_inv_def)

lemma texts_inv [simp]:
  "gui_inv W (update_status_bar U g) = gui_inv W g"
  "gui_inv W (update_overview_metrics U g) = gui_inv W g"
  "gui_inv W (set_transient_status U m g) = gui_inv W g"
  by (rule gui_inv_cong; simp)+

lemma selected_view_shown: "panel_current (update_selected_view g)"
proof -
  have "current_view (update_selected_view g) = current_view g"
    by (simp add: update_selected_view_def set_overview_visible_def current_view_def Let_def)
  moreover have "g_shown (update_selected_view g) p \<longleftrightarrow> p = view_panel (current_view g)" for p
    by (cases p; cases "current_view g")
      (simp_all add: update_selected_view_def set_overview_visible_def view_panel_def Let_def)
  ultimately show ?thesis by (simp add: panel_current_def)
qed

text \<open>Rebuilding everything from the store, as the filters and the end of a pause do.\<close>

lemma rebuild_views:
  assumes "gui_api_ok U" and "store_wf (g_store g)"
  shows "\<exists>a g'. rebuild_event_lists U g = Some a \<and> rebuild_overview_lists U a = Some g' \<and>
    lists_show (gui_text U) g' (st_events (g_store g)) \<and> overview_shows (gui_text U) g' (st_events (g_store g)) \<and>
    controls g' = controls g \<and> g_store g' = g_store g \<and> g_queue g' = g_queue g"
proof -
  have api: "list_api_ok (gui_list U)" using assms(1) by (simp add: gui_api_ok_def)
  obtain a where a: "rebuild_event_lists U g = Some a" "lists_show (gui_text U) a (st_events (g_store g))"
      "controls a = controls g" "g_store a = g_store g" "g_queue a = g_queue g"
    using rebuild_lists_shows [OF api assms(2)] by blast
  obtain g' where b: "rebuild_overview_lists U a = Some g'" "overview_shows (gui_text U) g' (st_events (g_store a))"
      "controls g' = controls a" "event_lists g' = event_lists a" "g_store g' = g_store a" "g_queue g' = g_queue a"
    using rebuild_overview_shows [OF api, of a] assms(2) a(4) by auto
  then show ?thesis using a lists_show_cong [OF b(3,4)] by auto
qed

lemma rebuild_filtered_inv:
  assumes "gui_api_ok U" and "store_wf (g_store g)" and "\<exists>es. holds (g_queue g) es" and "panel_current g"
    and "\<not> g_rendering_paused g \<Longrightarrow> \<not> g_render_dirty g"
  shows "\<exists>h. rebuild_filtered_views U g = Some h \<and> gui_inv (gui_text U) h"
proof (cases "g_rendering_paused g")
  case True
  then show ?thesis
    using assms(2-4) by (simp add: rebuild_filtered_views_def gui_inv_def views_current_def panel_current_def current_view_def)
next
  case False
  obtain a h where h: "rebuild_event_lists U g = Some a" "rebuild_overview_lists U a = Some h"
      "lists_show (gui_text U) h (st_events (g_store g))" "overview_shows (gui_text U) h (st_events (g_store g))"
      "controls h = controls g" "g_store h = g_store g" "g_queue h = g_queue g"
    using rebuild_views [OF assms(1,2)] by blast
  have "gui_inv (gui_text U) h"
    using assms(2-5) False h(3,4,6,7) controlsD(4,5) [OF h(5)] panel_current_cong [OF h(5)]
    by (simp add: gui_inv_def views_current_def)
  then show ?thesis using False h(1,2) by (simp add: rebuild_filtered_views_def)
qed

lemma toggle_inv:
  assumes "gui_api_ok U" and "gui_inv (gui_text U) g"
  shows "\<exists>h. toggle_pause U g = Some h \<and> gui_inv (gui_text U) h"
proof -
  let ?W = "gui_text U"
  let ?g1 = "update_monitoring_label (g\<lparr>g_rendering_paused := \<not> g_rendering_paused g\<rparr>)"
  have g1: "g_rendering_paused ?g1 = (\<not> g_rendering_paused g)" "g_render_dirty ?g1 = g_render_dirty g"
      "g_store ?g1 = g_store g" "g_queue ?g1 = g_queue g" "panel_current ?g1 = panel_current g"
      "g_filter_timer_active ?g1 = g_filter_timer_active g"
    by (simp_all add: update_monitoring_label_def panel_current_def current_view_def)
  have same: "lists_show ?W ?g1 evs = lists_show ?W g evs" "overview_shows ?W ?g1 evs = overview_shows ?W g evs" for evs
    by (rule shows_cong; simp add: update_monitoring_label_def view_parts)+
  obtain g2 where g2: "(if \<not> g_rendering_paused ?g1 \<and> g_render_dirty ?g1
         then do { a \<leftarrow> rebuild_event_lists U ?g1;
                   b \<leftarrow> rebuild_tree U a;
                   c \<leftarrow> rebuild_overview_lists U b;
                   Some (c\<lparr>g_render_dirty := False\<rparr>) }
         else Some ?g1) = Some g2" "gui_inv ?W g2"
  proof (cases "\<not> g_rendering_paused ?g1 \<and> g_render_dirty ?g1")
    case False
    then have "gui_inv ?W ?g1" using assms(2) g1 same by (auto simp: gui_inv_def views_current_def)
    then show ?thesis using False by (intro that [of ?g1]) auto
  next
    case True
    have api: "list_api_ok (gui_list U)" "tree_api_ok (gui_tree U)" using assms(1) by (simp_all add: gui_api_ok_def)
    have wf: "store_wf (g_store ?g1)" using assms(2) g1(3) by (simp add: gui_inv_def)
    obtain a where a: "rebuild_event_lists U ?g1 = Some a" "lists_show ?W a (st_events (g_store ?g1))"
        "controls a = controls ?g1" "g_store a = g_store ?g1" "g_queue a = g_queue ?g1"
      using rebuild_lists_shows [OF api(1) wf] by blast
    obtain b where b: "rebuild_tree U a = Some b" "controls b = controls a" "event_lists b = event_lists a"
        "g_store b = g_store a" "g_queue b = g_queue a"
      using rebuild_tree_total [OF api(2), of a] wf a(4) by auto
    obtain c where c: "rebuild_overview_lists U b = Some c" "overview_shows ?W c (st_events (g_store b))"
        "controls c = controls b" "event_lists c = event_lists b" "g_store c = g_store b" "g_queue c = g_queue b"
      using rebuild_overview_shows [OF api(1), of b] wf a(4) b(4) by auto
    let ?c = "c\<lparr>g_render_dirty := False\<rparr>"
    have "controls c = controls ?g1" using a(3) b(2) c(3) by simp
    from panel_current_cong [OF this] have panel: "panel_current c" using g1(5) assms(2) by (simp add: gui_inv_def)
    have "lists_show ?W c (st_events (g_store ?g1))"
      using a(2) b(2,3) c(3,4) lists_show_cong [of c a] by simp
    moreover have "lists_show ?W ?c evs = lists_show ?W c evs" "overview_shows ?W ?c evs = overview_shows ?W c evs" for evs
      by (rule shows_cong; simp add: view_parts)+
    ultimately have "views_current ?W ?c"
      using c(2,5) b(4) a(4) by (simp add: views_current_def)
    then have "gui_inv ?W ?c"
      using panel wf c(5,6) b(4,5) a(4,5) g1(4) assms(2)
      by (simp add: gui_inv_def panel_current_def current_view_def)
    then show ?thesis using True a(1) b(1) c(1) by (intro that [of ?c]) auto
  qed
  then show ?thesis by (auto simp: toggle_pause_def Let_def)
qed

lemma filters_eq:
  "found W g = event_matches_search W (g_search_edit g)"
  "listed W g = (\<lambda>e. event_matches_search W (g_search_edit g) e \<and> event_matches_type_filter (g_event_filter g) e)"
  by (simp_all add: found_def listed_def fun_eq_iff)

lemma clear_inv:
  assumes "gui_inv W g"
  shows "gui_inv W (clear_current_view U g)"
proof -
  let ?evs = "st_events (g_store g)"
  let ?g1 = "g\<lparr>g_view_floor := (g_view_floor g)(current_view g := st_event_count (g_store g))\<rparr>"
  have wf: "store_wf (g_store g)" using assms by (simp add: gui_inv_def)
  have none: "rows_of c ?evs (shown_indices P (st_event_count (g_store g)) ?evs) = []"
    "rows_of c ?evs (take n (rev (shown_indices P (st_event_count (g_store g)) ?evs))) = []" for c P n
    using store_length [OF wf] by (simp_all add: nothing_shown rows_of_def)
  define h where "h = (case current_view g of VIEW_PROCESSES \<Rightarrow> g
      | VIEW_OVERVIEW \<Rightarrow> ?g1\<lparr>g_recent_list := [], g_recent_alert_list := []\<rparr>
      | VIEW_NETWORK \<Rightarrow> ?g1\<lparr>g_network_list := []\<rparr>
      | VIEW_TIMELINE \<Rightarrow> ?g1\<lparr>g_timeline_list := []\<rparr>
      | VIEW_ALERTS \<Rightarrow> ?g1\<lparr>g_alert_list := []\<rparr>)"
  have keep: "g_store h = g_store g" "g_queue h = g_queue g" "g_rendering_paused h = g_rendering_paused g"
      "g_render_dirty h = g_render_dirty g" "g_filter_timer_active h = g_filter_timer_active g"
      "g_shown h = g_shown g" "g_navigation h = g_navigation g"
    by (cases "current_view g"; simp add: h_def)+
  have "lists_show W g ?evs \<Longrightarrow> lists_show W h ?evs"
    by (cases "current_view g"; simp add: h_def lists_show_def filters_eq none)
  moreover have "overview_shows W g ?evs \<Longrightarrow> overview_shows W h ?evs"
    by (cases "current_view g"; simp add: h_def overview_shows_def filters_eq none)
  ultimately have "gui_inv W h"
    using assms keep by (simp add: gui_inv_def views_current_def panel_current_def current_view_def)
  moreover have "gui_inv W (clear_current_view U g) = gui_inv W h"
    by (cases "current_view g"; simp add: clear_current_view_def h_def Let_def)
  ultimately show ?thesis by simp
qed

lemma click_inv:
  assumes "gui_api_ok U" and "gui_inv W g"
  shows "gui_inv W (handle_column_click U control column g)"
proof -
  have marks: "controls (update_sort_indicator v h) = controls h" "event_lists (update_sort_indicator v h) = event_lists h"
    "overview (update_sort_indicator v h) = overview h" "g_store (update_sort_indicator v h) = g_store h"
    "g_queue (update_sort_indicator v h) = g_queue h" for v h
    by (cases v; simp add: update_sort_indicator_def list_for_view_def Let_def view_parts)+
  have "gui_inv W (sort_view U v False (update_sort_indicator v (g\<lparr>g_sort_states := so\<rparr>)))" for v so
  proof -
    let ?h = "update_sort_indicator v (g\<lparr>g_sort_states := so\<rparr>)"
    have "gui_inv W ?h = gui_inv W g" by (rule gui_inv_cong; simp only: marks; simp add: view_parts)
    moreover have "gui_inv W (sort_view U v False ?h) = gui_inv W ?h"
      using sort_view_current [of U W v False ?h] assms(1) panel_current_cong [OF sort_view_frame(1)]
      by (simp add: gui_inv_def gui_api_ok_def)
    ultimately show ?thesis using assms(2) by simp
  qed
  then show ?thesis using assms(2) by (cases control) (simp_all add: handle_column_click_def Let_def)
qed

text \<open>The local array of \<^verbatim>\<open>drain_events\<close> has its length; the other messages carry what they like.\<close>

fun message_ok :: "gui_message \<Rightarrow> bool" where
  "message_ok (EventsReady alerts) = (length alerts = TRACEGLASS_MAX_ALERTS_PER_EVENT)"
| "message_ok _ = True"

lemma step_inv:
  assumes "gui_api_ok U" and "gui_inv (gui_text U) g" and "message_ok msg"
  shows "\<exists>g'. gui_step U msg g = Some g' \<and> gui_inv (gui_text U) g'"
proof -
  let ?W = "gui_text U"
  have inv: "store_wf (g_store g)" "\<exists>es. holds (g_queue g) es" "views_current ?W g" "panel_current g"
      "\<not> g_rendering_paused g \<Longrightarrow> \<not> g_render_dirty g"
    using assms(2) by (simp_all add: gui_inv_def views_current_def)
  show ?thesis
  proof (cases msg)
    case (EventsReady alerts)
    show ?thesis
    proof (cases "g_queue_ready g")
      case True
      obtain es where "holds (g_queue g) es" using inv(2) by blast
      then obtain g' where g': "drain_events U alerts g = Some g'" "store_wf (g_store g')" "holds (g_queue g') []"
          "views_current ?W g'" "g_shown g' = g_shown g" "g_navigation g' = g_navigation g"
        using drain_events_result [OF assms(1) inv(1), of es alerts] assms(3) inv(3) EventsReady by auto
      then show ?thesis
        using EventsReady True inv(4) by (auto simp: gui_inv_def panel_current_def current_view_def)
    next
      case False
      then show ?thesis using EventsReady assms(2) by simp
    qed
  next
    case (SearchChanged needle)
    then show ?thesis
      using inv by (simp add: gui_inv_def views_current_def panel_current_def current_view_def)
  next
    case (FilterSelected selected)
    then show ?thesis
      using rebuild_filtered_inv [OF assms(1), of "g\<lparr>g_event_filter := selected\<rparr>"] inv
      by (simp add: panel_current_def current_view_def)
  next
    case FilterTimer
    then show ?thesis
      using rebuild_filtered_inv [OF assms(1), of "g\<lparr>g_filter_timer_active := False\<rparr>"] inv
      by (simp add: panel_current_def current_view_def)
  next
    case StatusTimer
    then show ?thesis using assms(2) by simp
  next
    case PauseClicked
    then show ?thesis using toggle_inv [OF assms(1,2)] by simp
  next
    case ClearClicked
    then show ?thesis using clear_inv [OF assms(2)] by simp
  next
    case (TabSelected selected)
    let ?g = "update_selected_view (g\<lparr>g_navigation := selected\<rparr>)"
    have "views_current ?W ?g = views_current ?W g"
      using shows_cong(3,4) [of ?g g ?W]
      by (simp add: views_current_def update_selected_view_def set_overview_visible_def Let_def view_parts)
    moreover have "g_store ?g = g_store g" "g_queue ?g = g_queue g"
      by (simp_all add: update_selected_view_def set_overview_visible_def Let_def)
    ultimately show ?thesis
      using TabSelected inv selected_view_shown by (simp add: gui_inv_def)
  next
    case (ColumnClicked control column)
    then show ?thesis using click_inv [OF assms(1,2)] by simp
  qed
qed

section \<open>Reachable states\<close>

text \<open>The cleared state, with the controls as they are created: five lists, three of them with headers.\<close>

definition zero_queue :: EventQueue where
  "zero_queue = \<lparr>q_head = None, q_tail = None, q_window = None, q_message = 0, q_pending = False, q_initialized = False\<rparr>"

definition zero_gui :: GuiState where
  "zero_gui = \<lparr>g_timeline_list = [], g_network_list = [], g_alert_list = [], g_recent_list = [], g_recent_alert_list = [],
     g_process_tree = [],
     g_headers = (\<lambda>view. case view of VIEW_TIMELINE \<Rightarrow> replicate 5 NoMark | VIEW_NETWORK \<Rightarrow> replicate 7 NoMark
       | VIEW_ALERTS \<Rightarrow> replicate 5 NoMark | _ \<Rightarrow> []),
     g_search_edit = [], g_event_filter = 0, g_navigation = 0, g_monitoring_label = [], g_pause_button = wide ''Pause'',
     g_metric_values = [], g_telemetry_note = [], g_status_bar = [], g_shown = (\<lambda>p. True),
     g_search_enabled = True, g_filter_enabled = True, g_clear_enabled = True,
     g_queue = (Map.empty, zero_queue), g_store = zero_store, g_telemetry = zero_engine,
     g_sort_states = (\<lambda>view. \<lparr>so_column = 0, so_ascending = False, so_active = False, so_view = VIEW_OVERVIEW\<rparr>),
     g_view_floor = (\<lambda>view. 0), g_session_started_tick = 0, g_transient_until = 0, g_transient_status = [],
     g_queue_ready = False, g_store_ready = False, g_telemetry_ready = False, g_rendering_paused = False,
     g_render_dirty = False, g_filter_timer_active = False, g_shutting_down = False, g_ticks = 0\<rparr>"

text \<open>
  The states of a created window: its messages are handled one at a time, whatever the clock, the
  memory and the controls answer, and between them the telemetry threads push events.
\<close>

inductive gui_reachable :: "text_api \<Rightarrow> GuiState \<Rightarrow> bool" for W where
  created: "gui_text U = W \<Longrightarrow> create_window U A N True window zero_gui os = Some (True, g, os') \<Longrightarrow> gui_reachable W g"
| handled: "gui_reachable W g \<Longrightarrow> gui_api_ok U \<Longrightarrow> gui_text U = W \<Longrightarrow> message_ok msg \<Longrightarrow>
    gui_step U msg g = Some g' \<Longrightarrow> gui_reachable W g'"
| pushed: "gui_reachable W g \<Longrightarrow> malloc_fresh M \<Longrightarrow> emit_event M e (g_queue g) = Some q \<Longrightarrow>
    gui_reachable W (g\<lparr>g_queue := q\<rparr>)"

lemma initialized_queue_holds:
  "event_queue_initialize (Some q) window m = (True, Some q') \<Longrightarrow> holds (Map.empty, q') []"
  by (auto simp: event_queue_initialize_def holds.simps queue_rep_def chain_events_def)

lemma fresh_gui_inv:
  assumes "controls g = controls (zero_gui\<lparr>g_queue_ready := True\<rparr>)" and "event_lists g = event_lists zero_gui" and "overview g = overview zero_gui"
    and "st_events (g_store g) = []" and "store_wf (g_store g)" and "holds (g_queue g) []"
  shows "gui_inv W (update_selected_view g)"
proof -
  let ?g = "update_selected_view g"
  have same: "g_store ?g = g_store g" "g_queue ?g = g_queue g" "event_lists ?g = event_lists g" "overview ?g = overview g"
      "g_rendering_paused ?g = g_rendering_paused g" "g_render_dirty ?g = g_render_dirty g"
    by (simp_all add: update_selected_view_def set_overview_visible_def Let_def view_parts)
  have "lists_show W ?g []" "overview_shows W ?g []"
    using same(3,4) assms(2,3)
    by (simp_all add: lists_show_def overview_shows_def shown_indices_def rows_of_def event_lists_def overview_def zero_gui_def)
  then show ?thesis
    using same assms controlsD(4,5) [OF assms(1)] selected_view_shown
    by (auto simp: gui_inv_def views_current_def zero_gui_def)
qed

text \<open>The window that \<^verbatim>\<open>WM_CREATE\<close> leaves, up to the texts it shows.\<close>

lemma created_shape:
  assumes "create_window U A N True window zero_gui os = Some (True, g, os')"
  obtains h where "g = update_status_bar U (update_overview_metrics U (update_selected_view h))"
    and "controls h = controls (zero_gui\<lparr>g_queue_ready := True\<rparr>)" and "event_lists h = event_lists zero_gui"
    and "overview h = overview zero_gui" and "st_events (g_store h) = []" and "store_wf (g_store h)" and "holds (g_queue h) []"
proof -
  obtain store where s: "event_store_initialize (Some zero_store) = (True, Some store)" "st_events store = []" "store_wf store"
    using store_wf_initial [of zero_store] by (auto simp: event_store_initialize_def zero_store_def)
  obtain queue where q: "event_queue_initialize (Some zero_queue) (Some window) TRACEGLASS_WM_EVENTS_READY = (True, Some queue)"
      "holds (Map.empty, queue) []"
    using initialized_queue_holds by (auto simp: event_queue_initialize_def)
  obtain ok e os1 where i: "initialize_telemetry A N (Some zero_engine) True os = (ok, e, os1)" by (metis prod_cases3)
  define g3 where "g3 = zero_gui\<lparr>g_ticks := 1, g_session_started_tick := GetTickCount64 U 0,
    g_sort_states := (\<lambda>view. \<lparr>so_column = 0, so_ascending = True, so_active = False, so_view = view\<rparr>),
    g_store := store, g_store_ready := True, g_queue := (Map.empty, queue), g_queue_ready := True, g_telemetry := the e\<rparr>"
  have ok: "ok"
    using assms s(1) q(1) i by (auto simp: create_window_def read_tick_def Let_def zero_gui_def split: if_splits)
  then obtain e2 where g: "g = update_status_bar U (update_overview_metrics U (update_selected_view (update_monitoring_label
      (g3\<lparr>g_telemetry := e2, g_telemetry_ready := True\<rparr>))))"
    using assms s(1) q(1) i
    by (auto simp: create_window_def read_tick_def Let_def zero_gui_def g3_def split: if_splits Option.bind_splits)
  show thesis
  proof (rule that [OF g])
  qed (use s q in \<open>simp_all add: g3_def update_monitoring_label_def zero_gui_def view_parts\<close>)
qed

lemma created_inv:
  assumes "create_window U A N True window zero_gui os = Some (True, g, os')"
  shows "gui_inv W g"
proof -
  obtain h where "g = update_status_bar U (update_overview_metrics U (update_selected_view h))"
      "gui_inv W (update_selected_view h)"
    using created_shape [OF assms] fresh_gui_inv by metis
  then show ?thesis by simp
qed

lemma reachable_inv: "gui_reachable W g \<Longrightarrow> gui_inv W g"
proof (induction rule: gui_reachable.induct)
  case (created U A N window os g os')
  then show ?case by (intro created_inv)
next
  case (handled g U msg g')
  then show ?case using step_inv [of U g msg] by simp
next
  case (pushed g M e q)
  then obtain es where "holds (g_queue g) es" by (auto simp: gui_inv_def)
  then have "\<exists>es. holds q es" using emit_event_holds [OF pushed.hyps(2), of "g_queue g" es e] pushed.hyps(3) by auto
  moreover have "views_current W (g\<lparr>g_queue := q\<rparr>) = views_current W g"
    by (rule views_current_cong) (simp_all add: view_parts)
  ultimately show ?case
    using pushed.IH by (simp add: gui_inv_def panel_current_def current_view_def)
qed

section \<open>Properties\<close>

text \<open>
  \<^bold>\<open>C32\<close>. Whatever the user does and whatever is pushed meanwhile, and as long as items can be
  inserted into the lists and the tree, the window shows what the store holds: the three lists have exactly one row for every logged event that passes the filters and
  was not cleared away, and the overview lists the eight newest of them and the five newest
  alerts, newest first; unless rendering is paused with the dirty flag set, or the timer that
  applies a changed search text is still running. While rendering is not paused the flag is not
  set, so resuming catches up. Exactly the panel of the selected tab is visible, and every message
  is handled without an access outside an array and in finite time.
\<close>

theorem views_stay_current:
  assumes "gui_reachable W g"
  shows "views_current W g \<and> panel_current g \<and>
    (\<forall>U msg. gui_api_ok U \<and> gui_text U = W \<and> message_ok msg \<longrightarrow> (\<exists>g'. gui_step U msg g = Some g'))"
proof -
  note inv = reachable_inv [OF assms]
  have "\<exists>g'. gui_step U msg g = Some g'" if "gui_api_ok U" "gui_text U = W" "message_ok msg" for U msg
    using step_inv [OF that(1) _ that(3), of g] that(2) inv by auto
  then show ?thesis using inv by (simp add: gui_inv_def)
qed

text \<open>A window on a system where everything succeeds, for the witnesses.\<close>

definition plain_gui :: gui_api where
  "plain_gui = \<lparr>gui_list = \<lparr>ListView_InsertItem = (\<lambda>rows. True), ListView_SortItems = (\<lambda>cmp rows. rows)\<rparr>,
     gui_tree = plain_tree, gui_text = ascii_text, gui_time = no_clock, gui_store = ample_memory,
     GetTickCount64 = (\<lambda>n. of_nat n)\<rparr>"

lemma plain_gui_ok: "gui_api_ok plain_gui"
  by (simp add: gui_api_ok_def plain_gui_def list_api_ok_def tree_api_ok_def plain_tree_def)

lemma free_system_starts:
  "\<exists>e1 os1 e2 os2. initialize_telemetry free_system one_connection (Some zero_engine) True idle_system = (True, Some e1, os1) \<and>
     start_telemetry free_system ascii_text (Some e1) os1 = Some (True, Some e2, os2)"
  by (simp add: initialize_telemetry_def initialize_network_def network_monitor_initialize_def process_monitor_initialize_def
      free_system_def idle_system_def one_connection_def zero_engine_def start_telemetry_def etw_process_monitor_start_def
      create_trace_properties_def start_provider_def start_consumer_def free_block_def zero_etw_monitor_def fresh_etw_monitor_def
      ERROR_SUCCESS_def INVALID_PROCESSTRACE_HANDLE_def Let_def)

lemma plain_gui_created: "\<exists>g os. create_window plain_gui free_system one_connection True 7 zero_gui idle_system = Some (True, g, os)"
  using free_system_starts
  by (auto simp: create_window_def read_tick_def zero_gui_def plain_gui_def event_store_initialize_def
      event_queue_initialize_def zero_store_def Let_def)

theorem views_stay_current_witness:
  "\<exists>g g'. gui_reachable ascii_text g \<and> views_current ascii_text g \<and> gui_step plain_gui PauseClicked g = Some g'"
proof -
  obtain g os where "create_window plain_gui free_system one_connection True 7 zero_gui idle_system = Some (True, g, os)"
    using plain_gui_created by blast
  then have "gui_reachable ascii_text g" by (intro gui_reachable.created [of plain_gui]) (simp_all add: plain_gui_def)
  moreover have "gui_text plain_gui = ascii_text" "message_ok PauseClicked" by (simp_all add: plain_gui_def)
  ultimately have "gui_reachable ascii_text g" "views_current ascii_text g" "\<exists>g'. gui_step plain_gui PauseClicked g = Some g'"
    using views_stay_current plain_gui_ok by blast+
  then show ?thesis by blast
qed

text \<open>
  \<^bold>\<open>C33\<close>. Handling the notification drains the queue into the store as the abstract session says:
  as long as memory can be had, the log and the process records become those of ingesting the
  queued events one after the other, each followed by the alerts of the rules it matches, in
  whatever state the views are; the queue is empty afterwards and the counters are exact.
\<close>

theorem drain_refines_session:
  assumes "gui_api_ok U" and "unlimited (gui_store U)" and "holds (g_queue g) es" and "store_ok (g_store g)"
    and "room (3 * length es) (session_of (g_store g))" and "length alerts = TRACEGLASS_MAX_ALERTS_PER_EVENT"
  shows "\<exists>g'. drain_events U alerts g = Some g' \<and> holds (g_queue g') [] \<and> store_ok (g_store g') \<and>
    session_of (g_store g') = fold (spec_ingest (gui_text U)) es (session_of (g_store g))"
proof -
  have "store_wf (g_store g)" using assms(4) by (simp add: store_ok_def)
  then show ?thesis using drain_events_result [OF assms(1) _ assms(3,6)] assms(2,4,5) by blast
qed

theorem drain_refines_session_witness:
  "\<exists>g'. drain_events plain_gui (replicate 3 zero_event)
      (zero_gui\<lparr>g_queue := (two_heap, two_queue), g_store := empty_store\<rparr>) = Some g' \<and>
    session_of (g_store g') = fold (spec_ingest ascii_text) [zero_event, stop_event] (session_of empty_store)"
proof -
  let ?g = "zero_gui\<lparr>g_queue := (two_heap, two_queue), g_store := empty_store\<rparr>"
  have "unlimited (gui_store plain_gui)" "gui_text plain_gui = ascii_text"
    using ample_memory_unlimited by (simp_all add: plain_gui_def)
  moreover have "room (3 * length [zero_event, stop_event]) (session_of (g_store ?g))"
    by (simp add: room_def session_of_def example_simps)
  moreover have "holds (g_queue ?g) [zero_event, stop_event]" "store_ok (g_store ?g)"
    using two_holds empty_store_ok by simp_all
  moreover have "length (replicate 3 zero_event) = TRACEGLASS_MAX_ALERTS_PER_EVENT"
    by (simp add: TRACEGLASS_MAX_ALERTS_PER_EVENT_def)
  ultimately show ?thesis using drain_refines_session [OF plain_gui_ok] by fastforce
qed

section \<open>The window's lifetime\<close>

text \<open>
  A later state of the same window: the queue may hold other events, the store have grown and the
  worker have polled; what has been set up is the same.
\<close>

definition later :: "GuiState \<Rightarrow> GuiState \<Rightarrow> bool" where
  "later g g' \<longleftrightarrow> g_queue_ready g' = g_queue_ready g \<and> g_store_ready g' = g_store_ready g \<and>
     g_telemetry_ready g' = g_telemetry_ready g \<and> g_shutting_down g' = g_shutting_down g \<and>
     same_but_snapshots (g_telemetry g) (g_telemetry g') \<and>
     (if g_queue_ready g then \<exists>es. holds (g_queue g') es else g_queue g' = g_queue g) \<and>
     (g_store_ready g \<or> g_store g' = g_store g)"

lemma set_window_holds: "holds (h, q) es \<Longrightarrow> \<exists>q'. event_queue_set_window (Some q) w = Some q' \<and> holds (h, q') es"
  by (auto simp: event_queue_set_window_def holds.simps queue_rep_def)

lemma shutdown_releases:
  assumes "os_ok A" and "sessions_stop A" and "finite (os_blocks base)" and "\<not> g_shutting_down g"
    and "if g_telemetry_ready g then engine_owns base (g_telemetry g) os else os = base"
    and "if g_queue_ready g then \<exists>es. holds (g_queue g) es else fst (g_queue g) = Map.empty"
    and "g_store_ready g \<or> g_store g = zero_store"
  shows "\<exists>g'. shutdown_gui_state A g os = Some (g', base) \<and> g_shutting_down g' \<and> fst (g_queue g') = Map.empty \<and> g_store g' = zero_store"
proof -
  let ?g0 = "g\<lparr>g_shutting_down := True\<rparr>"
  obtain e where e: "(if g_telemetry_ready ?g0 then do {
            (e, os1) \<leftarrow> shutdown_telemetry A (Some (g_telemetry ?g0)) os;
            Some (?g0\<lparr>g_telemetry := the e, g_telemetry_ready := False\<rparr>, os1) }
          else Some (?g0, os)) = Some (?g0\<lparr>g_telemetry := e, g_telemetry_ready := False\<rparr>, base)"
  proof (cases "g_telemetry_ready g")
    case True
    then show ?thesis
      using shutdown_owns [OF assms(1-3), of "g_telemetry g" os] assms(5) that by auto
  next
    case False
    then show ?thesis using assms(5) that [of "g_telemetry g"] by simp
  qed
  show ?thesis
  proof (cases "g_queue_ready g")
    case True
    then obtain es where "holds (fst (g_queue g), snd (g_queue g)) es" using assms(6) by auto
    then obtain q where "event_queue_set_window (Some (snd (g_queue g))) None = Some q" "holds (fst (g_queue g), q) es"
      using set_window_holds by blast
    moreover obtain q' where "event_queue_destroy (fst (g_queue g)) (Some q) = Some (Map.empty, Some q')"
      using destroy_empties [OF calculation(2)] by blast
    ultimately show ?thesis
      using e True assms(4,7) by (auto simp: shutdown_gui_state_def event_store_destroy_def Let_def)
  next
    case False
    then show ?thesis
      using e assms(4,6,7) by (auto simp: shutdown_gui_state_def event_store_destroy_def Let_def)
  qed
qed

lemma create_owns:
  assumes "os_ok A" and "sessions_stop A" and "finite (os_blocks os)"
  shows "\<exists>ok g os'. create_window U A N controls_ok window zero_gui os = Some (ok, g, os') \<and> \<not> g_shutting_down g \<and>
    (if g_telemetry_ready g then engine_owns os (g_telemetry g) os' else os' = os) \<and>
    (g_queue_ready g \<or> fst (g_queue g) = Map.empty) \<and> (g_store_ready g \<or> g_store g = zero_store)"
proof -
  obtain ok e os1 where i: "initialize_telemetry A N (Some zero_engine) True os = (ok, Some e, os1)"
      "if ok then engine_owns os e os1 \<and> \<not> te_running e \<and> te_queue e \<and> te_process_monitor e = zero_process_monitor
       else os1 = os"
    using initialize_owns [OF assms(1)] by blast
  have st: "event_store_initialize (Some zero_store) = (True, Some (zero_store\<lparr>st_next_sequence := 1\<rparr>))"
    by (simp add: event_store_initialize_def)
  obtain queue where q: "event_queue_initialize (Some zero_queue) (Some window) TRACEGLASS_WM_EVENTS_READY = (True, Some queue)"
    by (auto simp: event_queue_initialize_def)
  let ?frame = "\<lambda>g. update_status_bar U (update_overview_metrics U (update_selected_view (update_monitoring_label g)))"
  have frame: "g_shutting_down (?frame g) = g_shutting_down g" "g_telemetry_ready (?frame g) = g_telemetry_ready g"
    "g_telemetry (?frame g) = g_telemetry g" "g_queue_ready (?frame g) = g_queue_ready g" "g_store_ready (?frame g) = g_store_ready g" for g
    by (simp_all add: update_status_bar_def update_overview_metrics_def update_selected_view_def update_monitoring_label_def
        set_overview_visible_def read_tick_def Let_def)
  show ?thesis
  proof (cases "controls_ok \<and> ok")
    case False
    then show ?thesis
      using i st q by (auto simp: create_window_def read_tick_def zero_gui_def Let_def)
  next
    case True
    then have own: "engine_owns os e os1" "\<not> te_running e" "te_queue e" using i(2) by simp_all
    obtain started e2 os2 where s: "start_telemetry A (gui_text U) (Some e) os1 = Some (started, Some e2, os2)"
        "engine_owns os e2 os2"
      using start_owns [OF assms own] by blast
    show ?thesis
    proof (cases started)
      case False
      then show ?thesis
        using True i(1) st q s by (auto simp: create_window_def read_tick_def zero_gui_def Let_def)
    next
      case started: True
      then show ?thesis
        using True i(1) st q s by (auto simp: create_window_def read_tick_def zero_gui_def Let_def frame)
    qed
  qed
qed

text \<open>
  \<^bold>\<open>C34\<close>. As long as an active trace session can be stopped (memory for its block of properties, and
  a successful \<^verbatim>\<open>ControlTraceW\<close>), a window that is created, completely or not, and shut down leaves
  nothing behind, wherever else the creation failed and whatever was collected in between: every resource of the system is
  returned, every queued node freed and the store released, and a second shutdown (the one after
  the message loop) does nothing.
\<close>

theorem window_lifecycle:
  assumes "os_ok A" and "sessions_stop A" and "finite (os_blocks os)"
  shows "\<exists>ok g os'. create_window U A N controls_ok window zero_gui os = Some (ok, g, os') \<and>
    (\<forall>g'. later g g' \<longrightarrow>
      (\<exists>g2. shutdown_gui_state A g' os' = Some (g2, os) \<and> fst (g_queue g2) = Map.empty \<and> g_store g2 = zero_store \<and>
        shutdown_gui_state A g2 os = Some (g2, os)))"
proof -
  obtain ok g os' where c: "create_window U A N controls_ok window zero_gui os = Some (ok, g, os')" "\<not> g_shutting_down g"
      "if g_telemetry_ready g then engine_owns os (g_telemetry g) os' else os' = os"
      "g_queue_ready g \<or> fst (g_queue g) = Map.empty" "g_store_ready g \<or> g_store g = zero_store"
    using create_owns [OF assms] by blast
  have "\<exists>g2. shutdown_gui_state A g' os' = Some (g2, os) \<and> fst (g_queue g2) = Map.empty \<and> g_store g2 = zero_store \<and>
      shutdown_gui_state A g2 os = Some (g2, os)" if "later g g'" for g'
  proof -
    have l: "g_queue_ready g' = g_queue_ready g" "g_store_ready g' = g_store_ready g" "\<not> g_shutting_down g'"
        "g_telemetry_ready g' = g_telemetry_ready g" "same_but_snapshots (g_telemetry g) (g_telemetry g')"
        "if g_queue_ready g then \<exists>es. holds (g_queue g') es else g_queue g' = g_queue g"
        "g_store_ready g \<or> g_store g' = g_store g"
      using that c(2) by (simp_all add: later_def)
    have "if g_telemetry_ready g' then engine_owns os (g_telemetry g') os' else os' = os"
      using c(3) l(4) owns_same_but_snapshots [OF _ l(5)] by (auto split: if_splits)
    moreover have "if g_queue_ready g' then \<exists>es. holds (g_queue g') es else fst (g_queue g') = Map.empty"
      using c(4) l(1,6) by (auto split: if_splits)
    moreover have "g_store_ready g' \<or> g_store g' = zero_store" using c(5) l(2,7) by auto
    ultimately obtain g2 where "shutdown_gui_state A g' os' = Some (g2, os)" "g_shutting_down g2"
        "fst (g_queue g2) = Map.empty" "g_store g2 = zero_store"
      using shutdown_releases [OF assms l(3)] by blast
    then show ?thesis by (auto simp: shutdown_gui_state_def)
  qed
  then show ?thesis using c(1) by blast
qed

theorem window_lifecycle_witness:
  "\<exists>g os'. create_window plain_gui free_system one_connection False 7 zero_gui idle_system = Some (False, g, os') \<and>
    (\<exists>g2. shutdown_gui_state free_system g os' = Some (g2, idle_system))"
proof -
  have "finite (os_blocks idle_system)" by (simp add: idle_system_def)
  from window_lifecycle [OF free_system_ok this, of plain_gui one_connection False 7]
  obtain ok g os' where g: "create_window plain_gui free_system one_connection False 7 zero_gui idle_system = Some (ok, g, os')"
      "\<forall>g'. later g g' \<longrightarrow> (\<exists>g2. shutdown_gui_state free_system g' os' = Some (g2, idle_system))"
    by blast
  moreover have "\<not> ok" "later g g"
    using g(1) by (auto simp: create_window_def later_def same_but_snapshots_def zero_gui_def read_tick_def Let_def)
  ultimately show ?thesis by auto
qed

end
