(* ===== verification/TG_ContextMenu.thy ===== *)
theory TG_ContextMenu
  imports TG_Window
begin

text \<open>
  \<^verbatim>\<open>src/gui.c\<close>, the context menu of the event lists. It keeps a pointer to the selected event while
  \<^verbatim>\<open>TrackPopupMenuEx\<close> runs the message loop, in which further messages are handled. A pointer into the
  store's array is the capacity of the block it points into, with the index: growing the array
  moves it to a block of another capacity, and following a pointer into the old one is \<open>None\<close>.
\<close>

section \<open>The selected event\<close>

type_synonym event_ptr = "u64 \<times> nat"

definition event_at :: "GuiState \<Rightarrow> event_ptr \<Rightarrow> TraceGlassEvent option" where
  "event_at g p = (if fst p = st_event_capacity (g_store g) then buf_get (st_events (g_store g)) (snd p) else None)"

fun control_rows :: "list_control \<Rightarrow> GuiState \<Rightarrow> list_row list" where
  "control_rows TimelineList g = g_timeline_list g"
| "control_rows NetworkList g = g_network_list g"
| "control_rows AlertList g = g_alert_list g"
| "control_rows RecentList g = g_recent_list g"
| "control_rows RecentAlertList g = g_recent_alert_list g"

text \<open>\<open>selected\<close> is the answer of \<^verbatim>\<open>ListView_GetNextItem(list, -1, LVNI_SELECTED)\<close>, \<open>None\<close> for -1.\<close>

definition selected_event_from_list :: "list_control option \<Rightarrow> nat option \<Rightarrow> GuiState \<Rightarrow> event_ptr option" where
  "selected_event_from_list control selected g =
     (case (control, selected) of
        (Some c, Some row) \<Rightarrow>
          (case buf_get (control_rows c g) row of
             None \<Rightarrow> None
           | Some item \<Rightarrow>
               (let index = row_param item in
                if index \<ge> st_event_count (g_store g) then None
                else Some (st_event_capacity (g_store g), unat index)))
      | _ \<Rightarrow> None)"

section \<open>The menu\<close>

datatype menu_command = CopyRow | CopyProcess | CopyPid | CopyRemote | NoCommand

definition menu_text :: "text_api \<Rightarrow> list_control \<Rightarrow> TraceGlassEvent \<Rightarrow> menu_command \<Rightarrow> wstr option" where
  "menu_text W control e command =
     (case command of
        CopyRow \<Rightarrow> Some (format_event_row W control e 2048)
      | CopyProcess \<Rightarrow> Some (wcopy 2048 (ev_process_name e))
      | CopyPid \<Rightarrow> Some (cch_printf W 2048 ''%lu'' [FNum (unat (pid (ev_process e)))])
      | CopyRemote \<Rightarrow> Some (cch_printf W 2048 ''%s:%u'' [FStr (ev_remote_address e), FNum (unat (ev_remote_port e))])
      | NoCommand \<Rightarrow> None)"

text \<open>The commands the menu offers, from the first reads of the event.\<close>

definition menu_items :: "TraceGlassEvent \<Rightarrow> menu_command list" where
  "menu_items e = [CopyRow] @ (if ev_process_name e \<noteq> [] then [CopyProcess] else []) @
     (if pid (ev_process e) \<noteq> 0 then [CopyPid] else []) @ (if ev_remote_address e \<noteq> [] then [CopyRemote] else [])"

text \<open>The messages that the menu's loop dispatches to the window.\<close>

fun run_messages :: "(gui_api \<times> gui_message) list \<Rightarrow> GuiState \<Rightarrow> GuiState option" where
  "run_messages [] g = Some g"
| "run_messages ((U, msg) # rest) g = do { g' \<leftarrow> gui_step U msg g; run_messages rest g' }"

text \<open>
  \<open>menu_ok\<close>: whether the menu can be created; \<open>messages\<close> and \<open>chosen\<close>: what is handled while it is
  open and which of its items the user picks, if any.
\<close>

definition show_context_menu ::
  "gui_api \<Rightarrow> clipboard_api \<Rightarrow> bool \<Rightarrow> (gui_api \<times> gui_message) list \<Rightarrow> (menu_command list \<Rightarrow> menu_command) \<Rightarrow>
     list_control \<Rightarrow> nat option \<Rightarrow> clip_state \<Rightarrow> GuiState \<Rightarrow> (clip_state \<times> GuiState) option" where
  "show_context_menu U C menu_ok messages chosen control selected clip g =
     (case selected_event_from_list (Some control) selected g of
        None \<Rightarrow> Some (clip, g)
      | Some p \<Rightarrow>
          if \<not> menu_ok then Some (clip, g)
          else (do {
            e0 \<leftarrow> event_at g p;
            g1 \<leftarrow> run_messages messages g;
            (let command = chosen (menu_items e0) in
             if command = NoCommand then Some (clip, g1)
             else (do {
               e \<leftarrow> event_at g1 p;
               (copied, clip') \<leftarrow> copy_text_to_clipboard C (menu_text (gui_text U) control e command) clip;
               Some (clip', if copied then update_status_bar U (set_transient_status U (wide ''Copied to clipboard'') g1) else g1) })) }))"

section \<open>The pointer over the loop\<close>

text \<open>As long as the array stays where it is, the menu is fine.\<close>

lemma menu_without_growth:
  assumes "gui_inv W g" and "run_messages messages g = Some g1"
    and "st_event_capacity (g_store g1) = st_event_capacity (g_store g)" and "st_events (g_store g1) = st_events (g_store g) @ new"
    and "\<not> cb_open clip" and "cb_block clip \<noteq> OwnedBySelf"
  shows "\<exists>clip' g'. show_context_menu U C menu_ok messages chosen control selected clip g = Some (clip', g')"
proof (cases "selected_event_from_list (Some control) selected g")
  case None
  then show ?thesis by (simp add: show_context_menu_def)
next
  case (Some p)
  have "unat (st_event_count (g_store g)) = length (st_events (g_store g))"
    using assms(1) by (simp add: gui_inv_def store_wf_def)
  then have "fst p = st_event_capacity (g_store g)" "snd p < length (st_events (g_store g))"
    using Some by (auto simp: selected_event_from_list_def Let_def not_le word_less_nat_alt split: option.splits if_splits)
  then have "event_at g p = Some (st_events (g_store g) ! snd p)" "event_at g1 p = Some (st_events (g_store g) ! snd p)"
    using assms(3,4) by (simp_all add: event_at_def buf_get_def nth_append)
  moreover obtain ok clip' where "copy_text_to_clipboard C (menu_text (gui_text U) control (st_events (g_store g) ! snd p)
      (chosen (menu_items (st_events (g_store g) ! snd p)))) clip = Some (ok, clip')"
    using clipboard_balanced [OF assms(5,6)] by blast
  ultimately show ?thesis using Some assms(2) by (simp add: show_context_menu_def Let_def)
qed

text \<open>One logged event makes a full array grow.\<close>

lemma full_store_moves:
  assumes "gui_api_ok U" and "unlimited (gui_store U)" and "holds (g_queue g) [e]" and "store_ok (g_store g)"
    and "room 3 (session_of (g_store g))" and "length alerts = TRACEGLASS_MAX_ALERTS_PER_EVENT"
    and "ev_type e = EVENT_NETWORK" and "st_event_count (g_store g) = st_event_capacity (g_store g)"
  shows "\<exists>g'. drain_events U alerts g = Some g' \<and> st_event_capacity (g_store g') \<noteq> st_event_capacity (g_store g)"
proof -
  have wf: "store_wf (g_store g)" using assms(4) by (simp add: store_ok_def)
  obtain g' where g': "drain_events U alerts g = Some g'" "store_wf (g_store g')"
      "session_of (g_store g') = spec_ingest (gui_text U) e (session_of (g_store g))"
    using drain_events_result [OF assms(1) wf assms(3,6)] assms(2,4,5) by auto
  have grows: "length (ss_log ss) \<le> length (ss_log (fst (spec_report ss a)))" for ss a
    by (auto simp: spec_report_def log_event_def Let_def split: EventType.split option.split)
  have all: "length (ss_log ss) \<le> length (ss_log (fold (\<lambda>a s. fst (spec_report s a)) as ss))" for as ss
    by (induction as arbitrary: ss) (auto intro: order_trans [OF grows])
  have "Suc (length (ss_log ss)) \<le> length (ss_log (spec_ingest (gui_text U) e ss))" for ss
    using assms(7) all [of "ss\<lparr>ss_log := ss_log ss @ [x]\<rparr>" for x]
    by (auto simp: spec_ingest_def spec_report_def log_event_def Let_def)
  then have "length (st_events (g_store g)) < length (st_events (g_store g'))"
    using g'(3) by (metis Suc_le_eq session.select_convs(1) session_of_def)
  moreover have "unat (st_event_count (g_store g')) = length (st_events (g_store g'))"
      "st_event_count (g_store g') \<le> st_event_capacity (g_store g')"
      "unat (st_event_count (g_store g)) = length (st_events (g_store g))"
    using g'(2) wf by (simp_all add: store_wf_def)
  ultimately have "st_event_capacity (g_store g') \<noteq> st_event_capacity (g_store g)"
    using assms(8) by (auto simp: word_le_nat_alt)
  then show ?thesis using g'(1) by blast
qed

section \<open>Properties\<close>

text \<open>
  \<^bold>\<open>C35\<close>. The menu follows a dangling pointer: if one network event arrives while the menu is open and
  the array is full, handling the notification in the menu's message loop moves the array, and
  whichever command is chosen then reads the selected event through the pointer into the old block.
\<close>

theorem context_menu_use_after_free:
  assumes "gui_api_ok U" and "unlimited (gui_store U)" and "g_queue_ready g" and "holds (g_queue g) [e]" and "store_ok (g_store g)"
    and "room 3 (session_of (g_store g))" and "length alerts = TRACEGLASS_MAX_ALERTS_PER_EVENT"
    and "ev_type e = EVENT_NETWORK" and "st_event_count (g_store g) = st_event_capacity (g_store g)"
    and "selected_event_from_list (Some control) selected g = Some p" and "\<forall>items. chosen items \<noteq> NoCommand"
  shows "show_context_menu U C True [(U, EventsReady alerts)] chosen control selected clip g = None"
proof -
  have moved: "fst p = st_event_capacity (g_store g)"
    using assms(10) by (auto simp: selected_event_from_list_def Let_def split: option.splits if_splits)
  obtain g' where "drain_events U alerts g = Some g'" "st_event_capacity (g_store g') \<noteq> st_event_capacity (g_store g)"
    using full_store_moves [OF assms(1,2,4-9)] by blast
  then show ?thesis
    using moved assms(3,10,11) by (auto simp: show_context_menu_def event_at_def Let_def split: Option.bind_split)
qed

text \<open>A store whose first block is full, its first event selected in the timeline, and a connection in the queue.\<close>

definition full_store :: EventStore where
  "full_store = empty_store\<lparr>
     st_events := map (\<lambda>i. stop_event\<lparr>ev_sequence := of_nat (i + 1)\<rparr>) [0..<256],
     st_event_count := 256, st_event_capacity := 256, st_next_sequence := 257\<rparr>"

definition connection_event :: TraceGlassEvent where
  "connection_event = zero_event\<lparr>ev_type := EVENT_NETWORK\<rparr>"

definition full_gui :: GuiState where
  "full_gui = zero_gui\<lparr>g_queue_ready := True, g_store := full_store,
     g_queue := ([3 \<mapsto> \<lparr>node_event = connection_event, node_next = None\<rparr>],
       fresh_queue\<lparr>q_head := Some 3, q_tail := Some 3, q_pending := True\<rparr>),
     g_timeline_list := [\<lparr>row_param = 0, row_cells = []\<rparr>]\<rparr>"

lemma full_store_ok: "store_ok full_store"
proof -
  have "map (\<lambda>e. unat (ev_sequence e)) (st_events full_store) = [1..<length (st_events full_store) + 1]"
  proof (rule nth_equalityI)
    fix i
    assume "i < length (map (\<lambda>e. unat (ev_sequence e)) (st_events full_store))"
    moreover have "unat (of_nat (Suc i) :: u64) = Suc i" if "i < 256" using that by (simp only: unat_of_nat) simp
    ultimately show "map (\<lambda>e. unat (ev_sequence e)) (st_events full_store) ! i = [1..<length (st_events full_store) + 1] ! i"
      by (simp add: full_store_def)
  qed (simp add: full_store_def)
  then show ?thesis
    by (simp add: store_ok_def store_wf_def counters_exact_def full_store_def stop_event_def example_simps
        sizeof_event_def sizeof_record_def filter_map comp_def)
qed

lemma full_gui_holds: "holds (g_queue full_gui) [connection_event]"
  by (auto simp: full_gui_def holds.simps fresh_queue_def queue_rep_def chain_events_def intro!: exI [of _ "[3]"])

theorem context_menu_use_after_free_witness:
  "\<forall>C clip. show_context_menu plain_gui C True [(plain_gui, EventsReady (replicate 3 zero_event))] (\<lambda>items. CopyRow)
     TimelineList (Some 0) clip full_gui = None"
proof -
  have "unlimited (gui_store plain_gui)" using ample_memory_unlimited by (simp add: plain_gui_def)
  moreover have "g_queue_ready full_gui" "store_ok (g_store full_gui)"
      "st_event_count (g_store full_gui) = st_event_capacity (g_store full_gui)" "room 3 (session_of (g_store full_gui))"
    using full_store_ok by (simp_all add: full_gui_def full_store_def room_def session_of_def example_simps)
  moreover have "ev_type connection_event = EVENT_NETWORK" "length (replicate 3 zero_event) = TRACEGLASS_MAX_ALERTS_PER_EVENT"
    by (simp_all add: connection_event_def TRACEGLASS_MAX_ALERTS_PER_EVENT_def)
  moreover have "selected_event_from_list (Some TimelineList) (Some 0) full_gui = Some (256, 0)"
    by (simp add: selected_event_from_list_def full_gui_def full_store_def buf_get_def)
  ultimately show ?thesis by (intro allI context_menu_use_after_free [OF plain_gui_ok _ _ full_gui_holds]) simp_all
qed

end
