(* ===== verification/TG_DetailsWindow.thy ===== *)
theory TG_DetailsWindow
  imports TG_Details
begin

text \<open>
  \<^verbatim>\<open>src/gui.c\<close>, the event details windows. Each owns a heap block with a copy of its event and a font,
  reached through the window's user data; any number of them can be open. Following a pointer to
  a block that is not allocated, freeing one, or deleting a font that does not exist is \<open>None\<close>.
\<close>

section \<open>State and platform\<close>

record DetailsState =
  ds_event :: TraceGlassEvent
  ds_edit :: bool
  ds_font :: "nat option"

text \<open>
  The heap blocks, the open windows with their \<^verbatim>\<open>GWLP_USERDATA\<close> (\<open>None\<close> is \<^verbatim>\<open>NULL\<close>), the texts of their
  edit controls, the fonts, and the clipboard.
\<close>

record details_world =
  dw_heap :: "nat \<rightharpoonup> DetailsState"
  dw_windows :: "nat \<rightharpoonup> nat option"
  dw_shown :: "nat \<Rightarrow> wstr"
  dw_fonts :: "nat set"
  dw_clip :: clip_state

text \<open>
  What \<^verbatim>\<open>calloc\<close>, \<^verbatim>\<open>CreateWindowExW\<close> for the window (which fails before \<^verbatim>\<open>WM_CREATE\<close>, the handler
  never refuses) and for the edit control, and \<^verbatim>\<open>CreateFontW\<close> answer.
\<close>

record details_api =
  calloc_details :: "(nat \<rightharpoonup> DetailsState) \<Rightarrow> nat option"
  CreateDetailsWindow :: "(nat \<rightharpoonup> nat option) \<Rightarrow> nat option"
  CreateDetailsEdit :: "nat \<Rightarrow> bool"
  CreateDetailsFont :: "nat set \<Rightarrow> nat option"
  dt_clip :: clipboard_api
  dt_text :: text_api

definition details_ok :: "details_api \<Rightarrow> bool" where
  "details_ok D \<longleftrightarrow> strsafe_ok (dt_text D) \<and>
     (\<forall>h p. calloc_details D h = Some p \<longrightarrow> h p = None) \<and>
     (\<forall>ws w. CreateDetailsWindow D ws = Some w \<longrightarrow> ws w = None) \<and>
     (\<forall>fs f. CreateDetailsFont D fs = Some f \<longrightarrow> f \<notin> fs)"

section \<open>The window procedure\<close>

datatype details_message = DetailsCreate nat | DetailsCopy | DetailsCloseButton | DetailsClose | DetailsNcDestroy

definition details_nc_destroy :: "nat \<Rightarrow> details_world \<Rightarrow> details_world option" where
  "details_nc_destroy w world =
     (case dw_windows world w of
        Some (Some p) \<Rightarrow> do {
          st \<leftarrow> dw_heap world p;
          fonts \<leftarrow> (case ds_font st of
              None \<Rightarrow> Some (dw_fonts world)
            | Some f \<Rightarrow> (if f \<in> dw_fonts world then Some (dw_fonts world - {f}) else None));
          Some (world\<lparr>dw_fonts := fonts, dw_heap := (dw_heap world)(p := None), dw_windows := (dw_windows world)(w \<mapsto> None)\<rparr>) }
      | _ \<Rightarrow> Some world)"

text \<open>\<^verbatim>\<open>DestroyWindow\<close> ends with \<^verbatim>\<open>WM_NCDESTROY\<close>, after which the window is gone.\<close>

definition details_destroy :: "nat \<Rightarrow> details_world \<Rightarrow> details_world option" where
  "details_destroy w world = do {
     world' \<leftarrow> details_nc_destroy w world;
     Some (world'\<lparr>dw_windows := (dw_windows world')(w := None)\<rparr>) }"

definition details_window_proc :: "details_api \<Rightarrow> details_message \<Rightarrow> nat \<Rightarrow> details_world \<Rightarrow> details_world option" where
  "details_window_proc D message w world =
     (case message of
        DetailsCreate p \<Rightarrow> do {
          st \<leftarrow> dw_heap world p;
          (let font = CreateDetailsFont D (dw_fonts world);
               st' = st\<lparr>ds_font := font, ds_edit := CreateDetailsEdit D w\<rparr>;
               details = format_event_details (dt_text D) (ds_event st') 4096
           in Some (world\<lparr>dw_windows := (dw_windows world)(w \<mapsto> Some p), dw_heap := (dw_heap world)(p \<mapsto> st'),
                dw_fonts := dw_fonts world \<union> set_option font,
                dw_shown := (if ds_edit st' then (dw_shown world)(w := details) else dw_shown world)\<rparr>)) }
      | DetailsCopy \<Rightarrow>
          (case dw_windows world w of
             Some (Some p) \<Rightarrow> do {
               st \<leftarrow> dw_heap world p;
               (copied, clip) \<leftarrow> copy_text_to_clipboard (dt_clip D)
                 (Some (format_event_details (dt_text D) (ds_event st) 4096)) (dw_clip world);
               Some (world\<lparr>dw_clip := clip\<rparr>) }
           | _ \<Rightarrow> Some world)
      | DetailsCloseButton \<Rightarrow> details_destroy w world
      | DetailsClose \<Rightarrow> details_destroy w world
      | DetailsNcDestroy \<Rightarrow> details_nc_destroy w world)"

definition open_event_details :: "details_api \<Rightarrow> TraceGlassEvent option \<Rightarrow> details_world \<Rightarrow> details_world option" where
  "open_event_details D event world =
     (case event of
        None \<Rightarrow> Some world
      | Some e \<Rightarrow>
          (case calloc_details D (dw_heap world) of
             None \<Rightarrow> Some world
           | Some p \<Rightarrow>
               (let world1 = world\<lparr>dw_heap := (dw_heap world)(p \<mapsto> \<lparr>ds_event = e, ds_edit = False, ds_font = None\<rparr>)\<rparr> in
                case CreateDetailsWindow D (dw_windows world1) of
                  None \<Rightarrow> Some (world1\<lparr>dw_heap := (dw_heap world1)(p := None)\<rparr>)
                | Some w \<Rightarrow> details_window_proc D (DetailsCreate p) w (world1\<lparr>dw_windows := (dw_windows world1)(w \<mapsto> None)\<rparr>))))"

section \<open>Each window owns its block\<close>

text \<open>
  Every open window owns a block and every block belongs to one window; every font belongs to one
  block; the events are among \<open>E\<close>, and an edit control shows its window's event.
\<close>

definition details_inv :: "text_api \<Rightarrow> TraceGlassEvent set \<Rightarrow> details_world \<Rightarrow> bool" where
  "details_inv W E world \<longleftrightarrow>
     (\<forall>w. dw_windows world w \<noteq> None \<longrightarrow> (\<exists>p. dw_windows world w = Some (Some p) \<and> dw_heap world p \<noteq> None)) \<and>
     (\<forall>p. dw_heap world p \<noteq> None \<longrightarrow> (\<exists>w. dw_windows world w = Some (Some p))) \<and>
     (\<forall>w w' p. dw_windows world w = Some (Some p) \<and> dw_windows world w' = Some (Some p) \<longrightarrow> w = w') \<and>
     (\<forall>f. f \<in> dw_fonts world \<longleftrightarrow> (\<exists>p st. dw_heap world p = Some st \<and> ds_font st = Some f)) \<and>
     (\<forall>p q st st' f. dw_heap world p = Some st \<and> dw_heap world q = Some st' \<and> ds_font st = Some f \<and> ds_font st' = Some f \<longrightarrow> p = q) \<and>
     (\<forall>p st. dw_heap world p = Some st \<longrightarrow> ds_event st \<in> E) \<and>
     (\<forall>w p st. dw_windows world w = Some (Some p) \<and> dw_heap world p = Some st \<and> ds_edit st \<longrightarrow>
        dw_shown world w = format_event_details W (ds_event st) 4096) \<and>
     \<not> cb_open (dw_clip world) \<and> cb_block (dw_clip world) \<noteq> OwnedBySelf"

lemma new_block: "h p = None \<Longrightarrow> (\<exists>q s. (h(p \<mapsto> x)) q = Some s \<and> P s) \<longleftrightarrow> P x \<or> (\<exists>q s. h q = Some s \<and> P s)"
  by (metis fun_upd_apply option.distinct(1) option.inject)

lemma details_inv_clip:
  assumes "details_inv W E world" and "\<not> cb_open clip" and "cb_block clip \<noteq> OwnedBySelf"
  shows "details_inv W E (world\<lparr>dw_clip := clip\<rparr>)"
proof -
  have same: "dw_windows (world\<lparr>dw_clip := clip\<rparr>) = dw_windows world" "dw_heap (world\<lparr>dw_clip := clip\<rparr>) = dw_heap world"
      "dw_fonts (world\<lparr>dw_clip := clip\<rparr>) = dw_fonts world" "dw_shown (world\<lparr>dw_clip := clip\<rparr>) = dw_shown world"
      "dw_clip (world\<lparr>dw_clip := clip\<rparr>) = clip" by simp_all
  show ?thesis using assms unfolding details_inv_def same by blast
qed

lemma details_invD:
  assumes "details_inv W E world"
  shows "dw_windows world w = Some u \<Longrightarrow> \<exists>p st. u = Some p \<and> dw_heap world p = Some st"
    and "dw_heap world p = Some st \<Longrightarrow> \<exists>w. dw_windows world w = Some (Some p)"
    and "f \<in> dw_fonts world \<longleftrightarrow> (\<exists>p st. dw_heap world p = Some st \<and> ds_font st = Some f)"
    and "dw_windows world w = Some (Some p) \<Longrightarrow> dw_windows world w' = Some (Some p) \<Longrightarrow> w = w'"
  using assms unfolding details_inv_def by (metis not_Some_eq option.inject)+

lemma open_keeps:
  assumes "details_ok D" and "details_inv (dt_text D) E world" and "e \<in> E"
  shows "\<exists>world'. open_event_details D (Some e) world = Some world' \<and> details_inv (dt_text D) E world'"
proof (cases "calloc_details D (dw_heap world)")
  case None
  then show ?thesis using assms(2) by (simp add: open_event_details_def)
next
  case (Some p)
  then have fresh: "dw_heap world p = None" using assms(1) by (simp add: details_ok_def)
  show ?thesis
  proof (cases "CreateDetailsWindow D (dw_windows world)")
    case None
    moreover have "(dw_heap world)(p := None) = dw_heap world" using fresh by auto
    then have "world\<lparr>dw_heap := (dw_heap world)(p := None)\<rparr> = world" by (cases world) simp
    ultimately show ?thesis using Some assms(2) by (simp add: open_event_details_def)
  next
    case w: (Some w)
    then have freshw: "dw_windows world w = None" using assms(1) by (simp add: details_ok_def)
    define font where "font = CreateDetailsFont D (dw_fonts world)"
    have freshf: "set_option font \<inter> dw_fonts world = {}" using assms(1) by (auto simp: details_ok_def font_def)
    define st where "st = \<lparr>ds_event = e, ds_edit = CreateDetailsEdit D w, ds_font = font\<rparr>"
    define world' where "world' = world\<lparr>dw_windows := (dw_windows world)(w \<mapsto> Some p), dw_heap := (dw_heap world)(p \<mapsto> st),
      dw_fonts := dw_fonts world \<union> set_option font,
      dw_shown := (if ds_edit st then (dw_shown world)(w := format_event_details (dt_text D) e 4096) else dw_shown world)\<rparr>"
    have "open_event_details D (Some e) world = Some world'"
      using Some w by (simp add: open_event_details_def details_window_proc_def Let_def world'_def st_def font_def)
    moreover have "details_inv (dt_text D) E world'"
      unfolding details_inv_def
    proof (intro conjI)
      show "\<forall>v. dw_windows world' v \<noteq> None \<longrightarrow> (\<exists>q. dw_windows world' v = Some (Some q) \<and> dw_heap world' q \<noteq> None)"
      proof (intro allI impI)
        fix v
        assume v: "dw_windows world' v \<noteq> None"
        show "\<exists>q. dw_windows world' v = Some (Some q) \<and> dw_heap world' q \<noteq> None"
        proof (cases "v = w")
          case False
          with v obtain u where "dw_windows world v = Some u" by (auto simp: world'_def)
          then obtain q s where "dw_windows world v = Some (Some q)" "dw_heap world q = Some s"
            using details_invD(1) [OF assms(2)] by blast
          then show ?thesis using False by (auto simp: world'_def)
        qed (simp add: world'_def)
      qed
      show "\<forall>q. dw_heap world' q \<noteq> None \<longrightarrow> (\<exists>v. dw_windows world' v = Some (Some q))"
      proof (intro allI impI)
        fix q
        assume q: "dw_heap world' q \<noteq> None"
        show "\<exists>v. dw_windows world' v = Some (Some q)"
        proof (cases "q = p")
          case False
          with q obtain s where "dw_heap world q = Some s" by (auto simp: world'_def)
          then obtain v where "dw_windows world v = Some (Some q)" using details_invD(2) [OF assms(2)] by blast
          then show ?thesis using freshw by (intro exI [of _ v]) (auto simp: world'_def)
        qed (auto simp: world'_def)
      qed
      show "\<forall>f. f \<in> dw_fonts world' \<longleftrightarrow> (\<exists>q s. dw_heap world' q = Some s \<and> ds_font s = Some f)"
      proof
        fix f
        have "(\<exists>q s. dw_heap world' q = Some s \<and> ds_font s = Some f) \<longleftrightarrow>
            font = Some f \<or> (\<exists>q s. dw_heap world q = Some s \<and> ds_font s = Some f)"
          using new_block [where h = "dw_heap world" and p = p and x = st and P = "\<lambda>s. ds_font s = Some f"] fresh by (simp add: world'_def st_def)
        then show "f \<in> dw_fonts world' \<longleftrightarrow> (\<exists>q s. dw_heap world' q = Some s \<and> ds_font s = Some f)"
          using details_invD(3) [OF assms(2), of f] by (auto simp: world'_def)
      qed
    qed (use assms(2,3) fresh freshw freshf in \<open>auto simp: details_inv_def world'_def st_def split: if_splits\<close>)
    ultimately show ?thesis by blast
  qed
qed

lemma destroy_keeps:
  assumes "details_inv W E world"
  shows "\<exists>world'. details_destroy w world = Some world' \<and> details_inv W E world' \<and> dw_windows world' = (dw_windows world)(w := None)"
proof (cases "dw_windows world w")
  case None
  then have "(dw_windows world)(w := None) = dw_windows world" by auto
  moreover from this have "world\<lparr>dw_windows := (dw_windows world)(w := None)\<rparr> = world" by (cases world) simp
  ultimately show ?thesis using None assms by (simp add: details_destroy_def details_nc_destroy_def)
next
  case (Some u)
  then obtain p st where p: "dw_windows world w = Some (Some p)" "dw_heap world p = Some st"
    using details_invD(1) [OF assms] by blast
  have font: "f \<in> dw_fonts world" if "ds_font st = Some f" for f
    using assms p(2) that unfolding details_inv_def by blast
  define fonts where "fonts = dw_fonts world - set_option (ds_font st)"
  define world' where "world' = world\<lparr>dw_fonts := fonts, dw_heap := (dw_heap world)(p := None), dw_windows := (dw_windows world)(w := None)\<rparr>"
  have "details_destroy w world = Some world'"
    using p font by (cases "ds_font st") (simp_all add: details_destroy_def details_nc_destroy_def world'_def fonts_def)
  moreover have "details_inv W E world'"
    unfolding details_inv_def
  proof (intro conjI)
    show "\<forall>v. dw_windows world' v \<noteq> None \<longrightarrow> (\<exists>q. dw_windows world' v = Some (Some q) \<and> dw_heap world' q \<noteq> None)"
    proof (intro allI impI)
      fix v
      assume "dw_windows world' v \<noteq> None"
      then obtain u where u: "v \<noteq> w" "dw_windows world v = Some u" by (auto simp: world'_def split: if_splits)
      then obtain q s where q: "dw_windows world v = Some (Some q)" "dw_heap world q = Some s"
        using details_invD(1) [OF assms] by blast
      then have "q \<noteq> p" using u(1) details_invD(4) [OF assms p(1)] by blast
      then show "\<exists>q. dw_windows world' v = Some (Some q) \<and> dw_heap world' q \<noteq> None"
        using q u(1) by (auto simp: world'_def)
    qed
    show "\<forall>p. dw_heap world' p \<noteq> None \<longrightarrow> (\<exists>w. dw_windows world' w = Some (Some p))"
      using assms p by (simp add: details_inv_def world'_def) (metis option.inject)
    show "\<forall>f. (f \<in> dw_fonts world') = (\<exists>p st. dw_heap world' p = Some st \<and> ds_font st = Some f)"
      using assms p unfolding details_inv_def world'_def fonts_def by (simp add: elem_set) (metis option.inject)
  qed (use assms p in \<open>auto simp: details_inv_def world'_def split: if_splits\<close>)
  ultimately show ?thesis by (simp add: world'_def)
qed

lemma copy_keeps:
  assumes "details_inv (dt_text D) E world"
  shows "\<exists>world'. details_window_proc D DetailsCopy w world = Some world' \<and> details_inv (dt_text D) E world' \<and>
    dw_windows world' = dw_windows world \<and> dw_heap world' = dw_heap world"
proof (cases "dw_windows world w")
  case None
  then show ?thesis using assms by (simp add: details_window_proc_def)
next
  case (Some u)
  then obtain p st where p: "dw_windows world w = Some (Some p)" "dw_heap world p = Some st"
    using details_invD(1) [OF assms] by blast
  have "\<not> cb_open (dw_clip world)" "cb_block (dw_clip world) \<noteq> OwnedBySelf" using assms by (simp_all add: details_inv_def)
  then obtain ok clip where c: "copy_text_to_clipboard (dt_clip D) (Some (format_event_details (dt_text D) (ds_event st) 4096)) (dw_clip world)
      = Some (ok, clip)" "\<not> cb_open clip" "cb_block clip \<noteq> OwnedBySelf"
    using clipboard_balanced by blast
  have "details_inv (dt_text D) E (world\<lparr>dw_clip := clip\<rparr>)"
    by (rule details_inv_clip [OF assms c(2,3)])
  then show ?thesis using p c(1) by (simp add: details_window_proc_def)
qed

section \<open>Runs\<close>

text \<open>What the user does: opening events, copying in a window and closing one.\<close>

datatype details_op = OpenDetails TraceGlassEvent | CopyDetails nat | CloseDetails nat

fun run_details :: "details_api \<Rightarrow> details_op list \<Rightarrow> details_world \<Rightarrow> details_world option" where
  "run_details D [] world = Some world"
| "run_details D (OpenDetails e # ops) world = Option.bind (open_event_details D (Some e) world) (run_details D ops)"
| "run_details D (CopyDetails w # ops) world = Option.bind (details_window_proc D DetailsCopy w world) (run_details D ops)"
| "run_details D (CloseDetails w # ops) world = Option.bind (details_window_proc D DetailsClose w world) (run_details D ops)"

text \<open>Destroying the main window destroys the windows it owns.\<close>

fun destroy_all :: "nat list \<Rightarrow> details_world \<Rightarrow> details_world option" where
  "destroy_all [] world = Some world"
| "destroy_all (w # ws) world = Option.bind (details_destroy w world) (destroy_all ws)"

definition opened :: "details_op list \<Rightarrow> TraceGlassEvent set" where
  "opened ops = {e. OpenDetails e \<in> set ops}"

lemma run_keeps:
  assumes "details_ok D" and "opened ops \<subseteq> E" and "details_inv (dt_text D) E world"
  shows "\<exists>world'. run_details D ops world = Some world' \<and> details_inv (dt_text D) E world'"
  using assms(2,3)
proof (induction ops arbitrary: world)
  case (Cons op ops)
  have rest: "opened ops \<subseteq> E" using Cons.prems(1) by (auto simp: opened_def)
  obtain mid where "run_details D (op # ops) world = run_details D ops mid" "details_inv (dt_text D) E mid"
  proof (cases op)
    case (OpenDetails e)
    then have "e \<in> E" using Cons.prems(1) by (auto simp: opened_def)
    from open_keeps [OF assms(1) Cons.prems(2) this] show ?thesis using OpenDetails that by auto
  next
    case (CopyDetails w)
    from copy_keeps [OF Cons.prems(2), of w] show ?thesis using CopyDetails that by auto
  next
    case (CloseDetails w)
    from destroy_keeps [OF Cons.prems(2), of w] show ?thesis using CloseDetails that by (auto simp: details_window_proc_def)
  qed
  then show ?case using Cons.IH [OF rest] by simp
qed simp

lemma destroy_all_empties:
  assumes "details_inv W E world" and "\<forall>w. dw_windows world w \<noteq> None \<longrightarrow> w \<in> set ws"
  shows "\<exists>gone. destroy_all ws world = Some gone \<and> details_inv W E gone \<and> dw_windows gone = Map.empty"
  using assms
proof (induction ws arbitrary: world)
  case Nil
  then show ?case by auto
next
  case (Cons w ws)
  obtain mid where mid: "details_destroy w world = Some mid" "details_inv W E mid" "dw_windows mid = (dw_windows world)(w := None)"
    using destroy_keeps [OF Cons.prems(1)] by blast
  have "\<forall>v. dw_windows mid v \<noteq> None \<longrightarrow> v \<in> set ws" using Cons.prems(2) mid(3) by (auto split: if_splits)
  from Cons.IH [OF mid(2) this] show ?case using mid(1) by simp
qed

lemma no_windows_no_blocks:
  assumes "details_inv W E world" and "dw_windows world = Map.empty"
  shows "dw_heap world = Map.empty" and "dw_fonts world = {}"
proof -
  show heap: "dw_heap world = Map.empty"
  proof
    fix p
    show "dw_heap world p = None"
      using details_invD(2) [OF assms(1), of p] assms(2) by (cases "dw_heap world p") auto
  qed
  show "dw_fonts world = {}" using details_invD(3) [OF assms(1)] heap by auto
qed

section \<open>Which event a window was opened for\<close>

text \<open>
  \<open>m\<close> remembers, for every window, the event it was opened for; the window that is there after opening
  an event and was not there before is the one opened for it. The program keeps no such table.
\<close>

definition opened_for :: "TraceGlassEvent \<Rightarrow> details_world \<Rightarrow> details_world \<Rightarrow> (nat \<rightharpoonup> TraceGlassEvent) \<Rightarrow> (nat \<rightharpoonup> TraceGlassEvent)" where
  "opened_for e before after m =
     (\<lambda>w. if dw_windows before w = None \<and> dw_windows after w \<noteq> None then Some e else m w)"

fun window_events :: "details_api \<Rightarrow> details_op list \<Rightarrow> details_world \<Rightarrow> (nat \<rightharpoonup> TraceGlassEvent) \<Rightarrow> (nat \<rightharpoonup> TraceGlassEvent)" where
  "window_events D [] world m = m"
| "window_events D (OpenDetails e # ops) world m =
     (case open_event_details D (Some e) world of
        None \<Rightarrow> m
      | Some world' \<Rightarrow> window_events D ops world' (opened_for e world world' m))"
| "window_events D (CopyDetails w # ops) world m =
     (case details_window_proc D DetailsCopy w world of None \<Rightarrow> m | Some world' \<Rightarrow> window_events D ops world' m)"
| "window_events D (CloseDetails w # ops) world m =
     (case details_window_proc D DetailsClose w world of None \<Rightarrow> m | Some world' \<Rightarrow> window_events D ops world' m)"

definition details_for :: "(nat \<rightharpoonup> TraceGlassEvent) \<Rightarrow> details_world \<Rightarrow> bool" where
  "details_for m world \<longleftrightarrow>
     (\<forall>w p st. dw_windows world w = Some (Some p) \<and> dw_heap world p = Some st \<longrightarrow> m w = Some (ds_event st))"

lemma details_for_sub:
  "details_for m world \<Longrightarrow> dw_windows world' \<subseteq>\<^sub>m dw_windows world \<Longrightarrow> dw_heap world' \<subseteq>\<^sub>m dw_heap world \<Longrightarrow> details_for m world'"
  unfolding details_for_def map_le_def by (metis domI)

lemma open_result:
  assumes "details_ok D" and "open_event_details D (Some e) world = Some world'"
  obtains (failed) "dw_windows world' = dw_windows world" "dw_heap world' = dw_heap world"
    | (shown) w p st where "dw_windows world w = None" "dw_heap world p = None" "ds_event st = e"
        "dw_windows world' = (dw_windows world)(w \<mapsto> Some p)" "dw_heap world' = (dw_heap world)(p \<mapsto> st)"
proof (cases "calloc_details D (dw_heap world)")
  case None
  then show thesis using assms(2) failed by (simp add: open_event_details_def)
next
  case (Some p)
  then have p: "dw_heap world p = None" using assms(1) by (simp add: details_ok_def)
  show thesis
  proof (cases "CreateDetailsWindow D (dw_windows world)")
    case None
    moreover have "(dw_heap world)(p := None) = dw_heap world" using p by auto
    ultimately show thesis using Some assms(2) failed by (auto simp: open_event_details_def)
  next
    case w: (Some w)
    then have "dw_windows world w = None" using assms(1) by (simp add: details_ok_def)
    then show thesis
      using shown [of w p "\<lparr>ds_event = e, ds_edit = CreateDetailsEdit D w, ds_font = CreateDetailsFont D (dw_fonts world)\<rparr>"] p Some w assms(2)
      by (auto simp: open_event_details_def details_window_proc_def Let_def)
  qed
qed

lemma open_keeps_for:
  assumes "details_ok D" and "details_inv W E world" and "details_for m world"
    and "open_event_details D (Some e) world = Some world'"
  shows "details_for (opened_for e world world' m) world'"
  using assms(1,4)
proof (cases rule: open_result)
  case failed
  then have "opened_for e world world' m = m" by (simp add: opened_for_def del: not_None_eq)
  then show ?thesis using assms(3) failed by (simp add: details_for_def)
next
  case (shown w p st)
  have "opened_for e world world' m v = Some (ds_event s)"
    if v: "dw_windows world' v = Some (Some q)" "dw_heap world' q = Some s" for v q s
  proof (cases "v = w")
    case True
    then show ?thesis using v shown by (simp add: opened_for_def)
  next
    case False
    then have old: "dw_windows world v = Some (Some q)" using v(1) shown(4) by simp
    then have "q \<noteq> p" using details_invD(1) [OF assms(2) old] shown(2) by auto
    then have "dw_heap world q = Some s" using v(2) shown(5) by simp
    then have "m v = Some (ds_event s)" using assms(3) old unfolding details_for_def by blast
    then show ?thesis using old by (simp add: opened_for_def)
  qed
  then show ?thesis by (simp add: details_for_def)
qed

lemma destroy_sub:
  "details_destroy w world = Some world' \<Longrightarrow> dw_windows world' \<subseteq>\<^sub>m dw_windows world \<and> dw_heap world' \<subseteq>\<^sub>m dw_heap world"
  by (auto simp: details_destroy_def details_nc_destroy_def map_le_def split: option.splits bind_splits if_splits)

lemma run_keeps_for:
  assumes "details_ok D" and "opened ops \<subseteq> E" and "details_inv (dt_text D) E world" and "details_for m world"
    and "run_details D ops world = Some world'"
  shows "details_for (window_events D ops world m) world'"
  using assms(2-5)
proof (induction ops arbitrary: world m)
  case (Cons op ops)
  have rest: "opened ops \<subseteq> E" using Cons.prems(1) by (auto simp: opened_def)
  show ?case
  proof (cases op)
    case (OpenDetails e)
    then have "e \<in> E" using Cons.prems(1) by (auto simp: opened_def)
    then obtain mid where mid: "open_event_details D (Some e) world = Some mid" "details_inv (dt_text D) E mid"
      using open_keeps [OF assms(1) Cons.prems(2)] by blast
    show ?thesis
      using Cons.IH [OF rest mid(2) open_keeps_for [OF assms(1) Cons.prems(2,3) mid(1)]] Cons.prems(4) OpenDetails mid(1) by simp
  next
    case (CopyDetails w)
    obtain mid where mid: "details_window_proc D DetailsCopy w world = Some mid" "details_inv (dt_text D) E mid"
        "dw_windows mid = dw_windows world" "dw_heap mid = dw_heap world"
      using copy_keeps [OF Cons.prems(2)] by blast
    then have "details_for m mid" using Cons.prems(3) by (simp add: details_for_def)
    then show ?thesis using Cons.IH [OF rest mid(2)] Cons.prems(4) CopyDetails mid(1) by simp
  next
    case (CloseDetails w)
    obtain mid where mid: "details_destroy w world = Some mid" "details_inv (dt_text D) E mid"
      using destroy_keeps [OF Cons.prems(2)] by blast
    then have "details_for m mid" using details_for_sub [OF Cons.prems(3)] destroy_sub [OF mid(1)] by blast
    then show ?thesis using Cons.IH [OF rest mid(2)] Cons.prems(4) CloseDetails mid(1) by (simp add: details_window_proc_def)
  qed
qed simp

section \<open>Properties\<close>

definition empty_world :: "clip_state \<Rightarrow> details_world" where
  "empty_world clip = \<lparr>dw_heap = Map.empty, dw_windows = Map.empty, dw_shown = (\<lambda>w. []), dw_fonts = {}, dw_clip = clip\<rparr>"

text \<open>
  \<^bold>\<open>C39\<close>. The details windows own what they show. However the user opens events, copies and closes
  windows, and whichever allocation, window or font cannot be created, no block is used after it was
  freed or freed twice; every open window holds exactly the event it was opened for, and shows its
  whole text if its edit control could be created, whatever has become of the store since (each has
  its own copy, unlike the context menu); and destroying all windows leaves no block and no font
  behind.
\<close>

theorem details_windows_own_their_event:
  assumes "details_ok D" and "\<forall>e \<in> opened ops. event_wf e" and "\<not> cb_open clip" and "cb_block clip \<noteq> OwnedBySelf"
  shows "\<exists>world. run_details D ops (empty_world clip) = Some world \<and>
    (\<forall>w. dw_windows world w \<noteq> None \<longrightarrow> (\<exists>p st. dw_windows world w = Some (Some p) \<and> dw_heap world p = Some st \<and>
       window_events D ops (empty_world clip) Map.empty w = Some (ds_event st) \<and> ds_event st \<in> opened ops \<and> (ds_edit st \<longrightarrow> dw_shown world w = details_text (ds_event st)))) \<and>
    (\<forall>ws. set ws = dom (dw_windows world) \<longrightarrow>
       (\<exists>gone. destroy_all ws world = Some gone \<and> dw_heap gone = Map.empty \<and> dw_fonts gone = {}))"
proof -
  have start: "details_inv (dt_text D) (opened ops) (empty_world clip)"
    using assms(3,4) by (simp add: details_inv_def empty_world_def)
  then obtain world where w: "run_details D ops (empty_world clip) = Some world" "details_inv (dt_text D) (opened ops) world"
    using run_keeps [OF assms(1) subset_refl] by blast
  have "details_for Map.empty (empty_world clip)" by (simp add: details_for_def empty_world_def)
  then have kept: "details_for (window_events D ops (empty_world clip) Map.empty) world"
    by (rule run_keeps_for [OF assms(1) subset_refl start _ w(1)])
  have "\<exists>p st. dw_windows world v = Some (Some p) \<and> dw_heap world p = Some st \<and>
      window_events D ops (empty_world clip) Map.empty v = Some (ds_event st) \<and> ds_event st \<in> opened ops \<and>
      (ds_edit st \<longrightarrow> dw_shown world v = details_text (ds_event st))" if "dw_windows world v \<noteq> None" for v
  proof -
    obtain p st where p: "dw_windows world v = Some (Some p)" "dw_heap world p = Some st"
      using details_invD(1) [OF w(2)] \<open>dw_windows world v \<noteq> None\<close> by blast
    then have e: "ds_event st \<in> opened ops" and "ds_edit st \<longrightarrow> dw_shown world v = format_event_details (dt_text D) (ds_event st) 4096"
      using w(2) unfolding details_inv_def by blast+
    moreover have "strsafe_ok (dt_text D)" using assms(1) by (simp add: details_ok_def)
    moreover have "window_events D ops (empty_world clip) Map.empty v = Some (ds_event st)"
      using kept p unfolding details_for_def by blast
    ultimately show ?thesis using p details_whole [of "dt_text D" "ds_event st"] assms(2) by auto
  qed
  moreover have "\<exists>gone. destroy_all ws world = Some gone \<and> dw_heap gone = Map.empty \<and> dw_fonts gone = {}"
    if "set ws = dom (dw_windows world)" for ws
    using destroy_all_empties [OF w(2), of ws] that no_windows_no_blocks by (metis domIff)
  ultimately show ?thesis using w(1) by blast
qed

text \<open>Two windows of different events, one of them closed again.\<close>

definition plain_details :: details_api where
  "plain_details = \<lparr>calloc_details = (\<lambda>h. List.find (\<lambda>p. h p = None) [1..<9]), CreateDetailsWindow = (\<lambda>ws. List.find (\<lambda>w. ws w = None) [1..<9]),
     CreateDetailsEdit = (\<lambda>w. True), CreateDetailsFont = (\<lambda>fs. List.find (\<lambda>f. f \<notin> fs) [1..<9]),
     dt_clip = \<lparr>GlobalAlloc = (\<lambda>n. True), GlobalLock = True, OpenClipboard = True, SetClipboardData = True\<rparr>, dt_text = ascii_text\<rparr>"

definition two_opened :: "details_op list" where
  "two_opened = [OpenDetails macro_event, OpenDetails zero_event, CopyDetails 1, CloseDetails 1]"

definition no_clip :: clip_state where
  "no_clip = \<lparr>cb_block = NoBlock, cb_open = False, cb_text = None\<rparr>"

theorem details_windows_own_their_event_witness:
  "\<exists>world. run_details plain_details two_opened (empty_world no_clip) = Some world \<and>
   (\<forall>w. dw_windows world w \<noteq> None \<longrightarrow> (\<exists>p st. dw_windows world w = Some (Some p) \<and> dw_heap world p = Some st \<and>
      window_events plain_details two_opened (empty_world no_clip) Map.empty w = Some (ds_event st))) \<and>
   (\<forall>ws. set ws = dom (dw_windows world) \<longrightarrow> (\<exists>gone. destroy_all ws world = Some gone \<and> dw_fonts gone = {}))"
proof -
  have "details_ok plain_details"
    by (auto simp: details_ok_def plain_details_def find_Some_iff)
  moreover have "event_wf macro_event"
    by (simp add: event_wf_def macro_event_def zero_event_def array_lengths str_fits_def wide_no_nul)
  then have "\<forall>e \<in> opened two_opened. event_wf e"
    by (auto simp: opened_def two_opened_def)
  moreover have "\<not> cb_open no_clip" "cb_block no_clip \<noteq> OwnedBySelf" by (simp_all add: no_clip_def)
  ultimately show ?thesis
    using details_windows_own_their_event [of plain_details two_opened no_clip] by blast
qed

end
