(* ===== verification/TG_Controls.thy ===== *)
theory TG_Controls
  imports TG_Details
begin

text \<open>
  \<^verbatim>\<open>src/gui.c\<close>, the controls of the window and their fonts: what is created with which texts and
  columns, and which of the four fonts each control is drawn with. Fonts are GDI objects that exist
  until they are deleted; deleting one that does not exist is \<open>None\<close>, and a control that draws with a
  deleted font would be a dangling handle.
\<close>

section \<open>Controls\<close>

datatype control =
    TitleLabel | SubtitleLabel | MonitoringLabel | Navigation | SearchLabel | SearchEdit | EventLabel | EventFilter
  | PauseButton | ClearButton | ExportButton | AboutButton
  | OverviewStatusGroup | OverviewActivityGroup | OverviewAlertGroup
  | MetricName nat | MetricValue nat | TelemetryNote
  | EventList list_control | ProcessTree | StatusBar | Tooltip

text \<open>
  The window's handles and objects: the controls that exist (a handle that is not \<^verbatim>\<open>NULL\<close>), what they
  were filled with, the font each one was given, the four fonts of \<^verbatim>\<open>GuiState\<close>, and the GDI fonts
  that exist.
\<close>

record frame =
  fr_dpi :: nat
  fr_created :: "control set"
  fr_text :: "control \<Rightarrow> wstr"
  fr_tabs :: "wstr list"
  fr_choices :: "wstr list"
  fr_columns :: "list_control \<Rightarrow> (int \<times> wstr) list"
  fr_tooltips :: "(control \<times> wstr) list"
  fr_status_min :: int
  fr_drawn :: "control \<Rightarrow> nat option"
  fr_font :: "nat option"
  fr_small_font :: "nat option"
  fr_heading_font :: "nat option"
  fr_title_font :: "nat option"
  fr_live :: "nat set"

text \<open>
  \<^item> \<open>MulDiv\<close>: the Win32 function. \<open>CreateFontW\<close>: the new font, given the existing ones, its height and
    weight. \<open>CreateControl\<close>: whether \<^verbatim>\<open>CreateWindowExW\<close> creates the control.
\<close>

record frame_api =
  MulDiv :: "int \<Rightarrow> int \<Rightarrow> int \<Rightarrow> int"
  CreateFontW :: "nat set \<Rightarrow> int \<Rightarrow> int \<Rightarrow> nat option"
  CreateControl :: "control \<Rightarrow> bool"

text \<open>Documented: a new object is none of the existing ones.\<close>

definition gdi_ok :: "frame_api \<Rightarrow> bool" where
  "gdi_ok A \<longleftrightarrow> (\<forall>live height weight f. CreateFontW A live height weight = Some f \<longrightarrow> f \<notin> live)"

definition dpi_of :: "frame \<Rightarrow> int" where
  "dpi_of fr = int (if fr_dpi fr = 0 then 96 else fr_dpi fr)"

definition scale_value :: "frame_api \<Rightarrow> frame \<Rightarrow> int \<Rightarrow> int" where
  "scale_value A fr v = MulDiv A v (dpi_of fr) 96"

section \<open>Fonts\<close>

definition create_ui_font :: "frame_api \<Rightarrow> frame \<Rightarrow> int \<Rightarrow> int \<Rightarrow> nat option \<times> frame" where
  "create_ui_font A fr point_size weight =
     (let f = CreateFontW A (fr_live fr) (- MulDiv A point_size (dpi_of fr) 72) weight
      in (f, fr\<lparr>fr_live := fr_live fr \<union> set_option f\<rparr>))"

definition DeleteObject :: "nat option \<Rightarrow> frame \<Rightarrow> frame option" where
  "DeleteObject f fr =
     (case f of
        None \<Rightarrow> Some fr
      | Some h \<Rightarrow> (if h \<in> fr_live fr then Some (fr\<lparr>fr_live := fr_live fr - {h}\<rparr>) else None))"

definition set_control_font :: "control \<Rightarrow> nat option \<Rightarrow> frame \<Rightarrow> frame" where
  "set_control_font c font fr =
     (if c \<in> fr_created fr \<and> font \<noteq> None then fr\<lparr>fr_drawn := (fr_drawn fr)(c := font)\<rparr> else fr)"

definition regular_controls :: "control list" where
  "regular_controls =
     [MonitoringLabel, Navigation, SearchLabel, SearchEdit, EventLabel, EventFilter, PauseButton, ClearButton,
      ExportButton, AboutButton, ProcessTree, EventList TimelineList, EventList NetworkList, EventList AlertList,
      EventList RecentList, EventList RecentAlertList, StatusBar, TelemetryNote]"

definition heading_controls :: "control list" where
  "heading_controls = [OverviewStatusGroup, OverviewActivityGroup, OverviewAlertGroup]"

definition apply_fonts :: "frame \<Rightarrow> frame" where
  "apply_fonts fr =
     (let fr1 = set_control_font TitleLabel (fr_title_font fr) fr;
          fr2 = set_control_font SubtitleLabel (fr_small_font fr) fr1;
          fr3 = fold (\<lambda>c. set_control_font c (fr_font fr)) regular_controls fr2;
          fr4 = fold (\<lambda>c. set_control_font c (fr_heading_font fr)) heading_controls fr3
      in fold (\<lambda>i st. set_control_font (MetricValue i) (fr_heading_font fr) (set_control_font (MetricName i) (fr_font fr) st))
           [0..<6] fr4)"

definition recreate_fonts :: "frame_api \<Rightarrow> frame \<Rightarrow> (bool \<times> frame) option" where
  "recreate_fonts A fr =
     (let (font, fr1) = create_ui_font A fr 10 400;
          (small_font, fr2) = create_ui_font A fr1 9 400;
          (heading_font, fr3) = create_ui_font A fr2 10 600;
          (title_font, fr4) = create_ui_font A fr3 20 600
      in if font = None \<or> small_font = None \<or> heading_font = None \<or> title_font = None
         then do {
           a \<leftarrow> DeleteObject font fr4;
           b \<leftarrow> DeleteObject small_font a;
           c \<leftarrow> DeleteObject heading_font b;
           d \<leftarrow> DeleteObject title_font c;
           Some (False, d) }
         else do {
           a \<leftarrow> DeleteObject (fr_font fr) (apply_fonts (fr4\<lparr>fr_font := font, fr_small_font := small_font,
             fr_heading_font := heading_font, fr_title_font := title_font\<rparr>));
           b \<leftarrow> DeleteObject (fr_small_font fr) a;
           c \<leftarrow> DeleteObject (fr_heading_font fr) b;
           d \<leftarrow> DeleteObject (fr_title_font fr) c;
           Some (True, d) })"

definition destroy_fonts :: "frame \<Rightarrow> frame option" where
  "destroy_fonts fr = do {
     a \<leftarrow> DeleteObject (fr_font fr) fr;
     b \<leftarrow> DeleteObject (fr_small_font fr) a;
     c \<leftarrow> DeleteObject (fr_heading_font fr) b;
     d \<leftarrow> DeleteObject (fr_title_font fr) c;
     Some (d\<lparr>fr_font := None, fr_small_font := None, fr_heading_font := None, fr_title_font := None\<rparr>) }"

section \<open>Creation\<close>

definition metric_labels :: "string list" where
  "metric_labels = [''Telemetry'', ''Events'', ''Processes'', ''TCP Connections'', ''Alerts'', ''Uptime'']"

definition tabs :: "string list" where
  "tabs = [''Overview'', ''Processes'', ''Network'', ''Timeline'', ''Alerts'']"

definition filter_choices :: "string list" where
  "filter_choices = [''All'', ''Process'', ''Network'', ''Alert'']"

definition list_columns :: "list_control \<Rightarrow> (int \<times> string) list" where
  "list_columns list =
     (case list of
        RecentList \<Rightarrow> [(92, ''Time''), (500, ''Activity'')]
      | RecentAlertList \<Rightarrow> [(88, ''Time''), (75, ''Severity''), (220, ''Rule''), (180, ''Process'')]
      | NetworkList \<Rightarrow> [(92, ''Time''), (170, ''Process''), (75, ''PID''), (80, ''Protocol''), (200, ''Local Address''),
          (200, ''Remote Address''), (120, ''State'')]
      | TimelineList \<Rightarrow> [(92, ''Time''), (95, ''Type''), (180, ''Process''), (75, ''PID''), (600, ''Details'')]
      | AlertList \<Rightarrow> [(92, ''Time''), (85, ''Severity''), (230, ''Rule''), (180, ''Process''), (550, ''Details'')])"

text \<open>The controls in the order of their creation, with the texts they are created with.\<close>

definition initial_controls :: "(control \<times> wstr) list" where
  "initial_controls =
     [(TitleLabel, wide ''TraceGlass''), (SubtitleLabel, wide ''Windows Behavioral Telemetry Viewer''),
      (MonitoringLabel, 0x25CF # wide '' Live Monitoring''), (Navigation, []), (SearchLabel, wide ''Search:''), (SearchEdit, []),
      (EventLabel, wide ''Event:''), (EventFilter, []), (PauseButton, wide ''Pause''), (ClearButton, wide ''Clear View''),
      (ExportButton, wide ''Export''), (AboutButton, wide ''About''), (OverviewStatusGroup, wide ''Monitoring Status''),
      (OverviewActivityGroup, wide ''Recent Activity''), (OverviewAlertGroup, wide ''Recent Alerts'')] @
     concat (map (\<lambda>i. [(MetricName i, wide (metric_labels ! i)), (MetricValue i, wide (if i = 0 then ''Starting'' else ''0''))])
       [0..<length metric_labels]) @
     [(TelemetryNote, wide ''Starting telemetry...''), (EventList RecentList, []), (EventList RecentAlertList, []), (ProcessTree, []),
      (EventList NetworkList, []), (EventList TimelineList, []), (EventList AlertList, []),
      (StatusBar, wide ''Starting telemetry...''), (Tooltip, [])]"

definition tooltip_texts :: "(control \<times> string) list" where
  "tooltip_texts =
     [(PauseButton, ''Pause GUI rendering. Telemetry collection continues.''),
      (ClearButton, ''Clear only the selected view. Collection and stored events continue.''),
      (ExportButton, ''Export all events collected during this session.''),
      (AboutButton, ''Show TraceGlass version and build information.'')]"

definition add_tooltip :: "control \<times> string \<Rightarrow> frame \<Rightarrow> frame" where
  "add_tooltip tip fr =
     (if Tooltip \<in> fr_created fr \<and> fst tip \<in> fr_created fr
      then fr\<lparr>fr_tooltips := fr_tooltips fr @ [(fst tip, wide (snd tip))]\<rparr> else fr)"

definition required_controls :: "control list" where
  "required_controls =
     [TitleLabel, SubtitleLabel, MonitoringLabel, Navigation, SearchEdit, EventFilter, PauseButton, ClearButton, ExportButton,
      AboutButton, OverviewStatusGroup, EventList RecentList, EventList RecentAlertList, ProcessTree, EventList NetworkList,
      EventList TimelineList, EventList AlertList, StatusBar]"

text \<open>Messages to a control that does not exist have no effect.\<close>

definition create_controls :: "frame_api \<Rightarrow> frame \<Rightarrow> bool \<times> frame" where
  "create_controls A fr =
     (let created = set (filter (CreateControl A) (map fst initial_controls));
          fr1 = fr\<lparr>fr_created := created,
                   fr_text := (\<lambda>c. case map_of initial_controls c of Some t \<Rightarrow> if c \<in> created then t else [] | None \<Rightarrow> []),
                   fr_tabs := (if Navigation \<in> created then map wide tabs else []),
                   fr_choices := (if EventFilter \<in> created then map wide filter_choices else []),
                   fr_columns := (\<lambda>list. if EventList list \<in> created then map (\<lambda>(w, t). (w, wide t)) (list_columns list) else []),
                   fr_status_min := (if StatusBar \<in> created then scale_value A fr 24 else fr_status_min fr)\<rparr>;
          fr2 = apply_fonts (fold add_tooltip tooltip_texts fr1)
      in (\<forall>c \<in> set required_controls. c \<in> fr_created fr2, fr2))"

section \<open>Which font a control is drawn with\<close>

lemma set_control_font_simps [simp]:
  "fr_created (set_control_font c f fr) = fr_created fr" "fr_live (set_control_font c f fr) = fr_live fr"
  "fr_font (set_control_font c f fr) = fr_font fr" "fr_small_font (set_control_font c f fr) = fr_small_font fr"
  "fr_heading_font (set_control_font c f fr) = fr_heading_font fr" "fr_title_font (set_control_font c f fr) = fr_title_font fr"
  "fr_columns (set_control_font c f fr) = fr_columns fr" "fr_tabs (set_control_font c f fr) = fr_tabs fr"
  "fr_choices (set_control_font c f fr) = fr_choices fr"
  "fr_drawn (set_control_font c f fr) c' = (if c' = c \<and> c \<in> fr_created fr \<and> f \<noteq> None then f else fr_drawn fr c')"
  by (auto simp: set_control_font_def)

lemma six_metrics: "[0..<6] = [0, 1, 2, 3, 4, 5 :: nat]"
  by code_simp

lemma apply_fonts_simps [simp]:
  "fr_created (apply_fonts fr) = fr_created fr" "fr_live (apply_fonts fr) = fr_live fr"
  "fr_font (apply_fonts fr) = fr_font fr" "fr_small_font (apply_fonts fr) = fr_small_font fr"
  "fr_heading_font (apply_fonts fr) = fr_heading_font fr" "fr_title_font (apply_fonts fr) = fr_title_font fr"
  "fr_columns (apply_fonts fr) = fr_columns fr" "fr_tabs (apply_fonts fr) = fr_tabs fr" "fr_choices (apply_fonts fr) = fr_choices fr"
  by (simp_all add: apply_fonts_def regular_controls_def heading_controls_def six_metrics Let_def)

text \<open>What \<^verbatim>\<open>apply_fonts\<close> means.\<close>

definition font_for :: "frame \<Rightarrow> control \<Rightarrow> nat option" where
  "font_for fr c =
     (case c of
        TitleLabel \<Rightarrow> fr_title_font fr
      | SubtitleLabel \<Rightarrow> fr_small_font fr
      | OverviewStatusGroup \<Rightarrow> fr_heading_font fr
      | OverviewActivityGroup \<Rightarrow> fr_heading_font fr
      | OverviewAlertGroup \<Rightarrow> fr_heading_font fr
      | MetricName i \<Rightarrow> (if i < 6 then fr_font fr else None)
      | MetricValue i \<Rightarrow> (if i < 6 then fr_heading_font fr else None)
      | Tooltip \<Rightarrow> None
      | _ \<Rightarrow> fr_font fr)"

lemma less_six: "i < 6 \<longleftrightarrow> i = 0 \<or> i = 1 \<or> i = 2 \<or> i = 3 \<or> i = 4 \<or> i = (5 :: nat)"
  by presburger

lemma apply_fonts_drawn:
  "fr_drawn (apply_fonts fr) c = (if c \<in> fr_created fr \<and> font_for fr c \<noteq> None then font_for fr c else fr_drawn fr c)"
proof (cases c)
  case (EventList l)
  then show ?thesis
    by (cases l) (auto simp: apply_fonts_def regular_controls_def heading_controls_def six_metrics font_for_def Let_def)
qed (auto simp: apply_fonts_def regular_controls_def heading_controls_def six_metrics font_for_def less_six Let_def)

section \<open>No control draws with a deleted font\<close>

fun handles :: "nat option list \<Rightarrow> nat list" where
  "handles [] = []"
| "handles (f # fs) = (case f of None \<Rightarrow> handles fs | Some h \<Rightarrow> h # handles fs)"

lemma set_handles: "set (handles (f # fs)) = set_option f \<union> set (handles fs)"
  by (cases f) simp_all

lemma distinct_handles: "distinct (handles (f # fs)) \<longleftrightarrow> set_option f \<inter> set (handles fs) = {} \<and> distinct (handles fs)"
  by (cases f) simp_all

definition font_handles :: "frame \<Rightarrow> nat list" where
  "font_handles fr = handles [fr_font fr, fr_small_font fr, fr_heading_font fr, fr_title_font fr]"

definition fonts_ok :: "frame \<Rightarrow> bool" where
  "fonts_ok fr \<longleftrightarrow> distinct (font_handles fr) \<and> set (font_handles fr) = fr_live fr \<and>
     (\<forall>c f. fr_drawn fr c = Some f \<longrightarrow> c \<in> fr_created fr \<and> font_for fr c = Some f)"

fun delete_objects :: "nat option list \<Rightarrow> frame \<Rightarrow> frame option" where
  "delete_objects [] fr = Some fr"
| "delete_objects (f # fs) fr = Option.bind (DeleteObject f fr) (delete_objects fs)"

lemma delete_objects_all:
  assumes "distinct (handles fs)" and "set (handles fs) \<subseteq> fr_live fr"
  shows "delete_objects fs fr = Some (fr\<lparr>fr_live := fr_live fr - set (handles fs)\<rparr>)"
  using assms
proof (induction fs arbitrary: fr)
  case (Cons f fs)
  show ?case
  proof (cases f)
    case None
    then show ?thesis using Cons by (simp add: DeleteObject_def)
  next
    case (Some h)
    then have rest: "set (handles fs) \<subseteq> fr_live (fr\<lparr>fr_live := fr_live fr - {h}\<rparr>)" using Cons.prems by auto
    have "fr_live fr - {h} - set (handles fs) = fr_live fr - insert h (set (handles fs))" by blast
    then show ?thesis using Cons.IH [OF _ rest] Cons.prems Some by (simp add: DeleteObject_def)
  qed
qed simp

lemma four_deletions:
  "Option.bind (DeleteObject p fr) (\<lambda>a. Option.bind (DeleteObject q a) (\<lambda>b. Option.bind (DeleteObject r b)
     (\<lambda>c. Option.bind (DeleteObject s c) k))) = Option.bind (delete_objects [p, q, r, s] fr) k"
  by simp

lemma new_font:
  assumes "gdi_ok A"
  obtains f where "create_ui_font A fr pt weight = (f, fr\<lparr>fr_live := fr_live fr \<union> set_option f\<rparr>)" and "set_option f \<inter> fr_live fr = {}"
  using assms by (auto simp: create_ui_font_def gdi_ok_def Let_def elem_set)

lemma recreate_eq:
  assumes "create_ui_font A fr 10 400 = (a, f1)" and "create_ui_font A f1 9 400 = (b, f2)"
    and "create_ui_font A f2 10 600 = (c, f3)" and "create_ui_font A f3 20 600 = (d, f4)"
  shows "recreate_fonts A fr =
    (if a = None \<or> b = None \<or> c = None \<or> d = None then map_option (Pair False) (delete_objects [a, b, c, d] f4)
     else map_option (Pair True) (delete_objects [fr_font fr, fr_small_font fr, fr_heading_font fr, fr_title_font fr]
       (apply_fonts (f4\<lparr>fr_font := a, fr_small_font := b, fr_heading_font := c, fr_title_font := d\<rparr>))))"
  unfolding recreate_fonts_def assms Let_def prod.case four_deletions
  by (simp only: map_conv_bind_option comp_def)

lemma recreate_result:
  assumes "gdi_ok A" and "distinct (font_handles fr)" and "set (font_handles fr) = fr_live fr"
  shows "recreate_fonts A fr = Some (False, fr) \<or>
    (\<exists>a b c d. distinct [a, b, c, d] \<and> {a, b, c, d} \<inter> fr_live fr = {} \<and>
      recreate_fonts A fr = Some (True, (apply_fonts (fr\<lparr>fr_live := fr_live fr \<union> {a, b, c, d}, fr_font := Some a, fr_small_font := Some b,
        fr_heading_font := Some c, fr_title_font := Some d\<rparr>))\<lparr>fr_live := {a, b, c, d}\<rparr>))"
proof -
  obtain a where a: "create_ui_font A fr 10 400 = (a, fr\<lparr>fr_live := fr_live fr \<union> set_option a\<rparr>)" "set_option a \<inter> fr_live fr = {}"
    using new_font [OF assms(1)] by metis
  let ?f1 = "fr\<lparr>fr_live := fr_live fr \<union> set_option a\<rparr>"
  obtain b where b: "create_ui_font A ?f1 9 400 = (b, ?f1\<lparr>fr_live := fr_live ?f1 \<union> set_option b\<rparr>)" "set_option b \<inter> fr_live ?f1 = {}"
    using new_font [OF assms(1)] by metis
  let ?f2 = "?f1\<lparr>fr_live := fr_live ?f1 \<union> set_option b\<rparr>"
  obtain c where c: "create_ui_font A ?f2 10 600 = (c, ?f2\<lparr>fr_live := fr_live ?f2 \<union> set_option c\<rparr>)" "set_option c \<inter> fr_live ?f2 = {}"
    using new_font [OF assms(1)] by metis
  let ?f3 = "?f2\<lparr>fr_live := fr_live ?f2 \<union> set_option c\<rparr>"
  obtain d where d: "create_ui_font A ?f3 20 600 = (d, ?f3\<lparr>fr_live := fr_live ?f3 \<union> set_option d\<rparr>)" "set_option d \<inter> fr_live ?f3 = {}"
    using new_font [OF assms(1)] by metis
  let ?f4 = "?f3\<lparr>fr_live := fr_live ?f3 \<union> set_option d\<rparr>"
  show ?thesis
  proof (cases "a = None \<or> b = None \<or> c = None \<or> d = None")
    case True
    note disjoint = a(2) b(2) [simplified] c(2) [simplified] d(2) [simplified]
    have "set (handles [a, b, c, d]) = set_option a \<union> (set_option b \<union> (set_option c \<union> set_option d))"
      by (simp only: set_handles) simp
    moreover have "distinct (handles [a, b, c, d])"
      using disjoint by (simp only: distinct_handles set_handles) auto
    moreover have "fr_live ?f4 = fr_live fr \<union> (set_option a \<union> (set_option b \<union> (set_option c \<union> set_option d)))"
      by (simp add: Un_assoc)
    moreover have "fr_live fr \<inter> (set_option a \<union> (set_option b \<union> (set_option c \<union> set_option d))) = {}"
      using disjoint by blast
    ultimately have "distinct (handles [a, b, c, d])" "set (handles [a, b, c, d]) \<subseteq> fr_live ?f4"
        "fr_live ?f4 - set (handles [a, b, c, d]) = fr_live fr"
      by blast+
    then have "delete_objects [a, b, c, d] ?f4 = Some fr" using delete_objects_all [of "[a, b, c, d]" ?f4] by (simp del: delete_objects.simps handles.simps)
    then show ?thesis using True a(1) b(1) c(1) d(1) by (simp add: recreate_eq [OF a(1) b(1) c(1) d(1)] del: delete_objects.simps)
  next
    case False
    then obtain a' b' c' d' where new: "a = Some a'" "b = Some b'" "c = Some c'" "d = Some d'" by auto
    let ?g = "apply_fonts (fr\<lparr>fr_live := fr_live fr \<union> {a', b', c', d'}, fr_font := Some a', fr_small_font := Some b',
        fr_heading_font := Some c', fr_title_font := Some d'\<rparr>)"
    let ?old = "[fr_font fr, fr_small_font fr, fr_heading_font fr, fr_title_font fr]"
    have fresh: "distinct [a', b', c', d']" "{a', b', c', d'} \<inter> fr_live fr = {}"
      using a(2) b(2) c(2) d(2) new by auto
    have old: "distinct (handles ?old)" "set (handles ?old) = fr_live fr" using assms(2,3) by (simp_all only: font_handles_def)
    have "set (handles ?old) \<subseteq> fr_live ?g" unfolding old(2) by auto
    from delete_objects_all [OF old(1) this] have "delete_objects ?old ?g = Some (?g\<lparr>fr_live := fr_live ?g - fr_live fr\<rparr>)"
      unfolding old(2) .
    moreover have "fr_live ?g - fr_live fr = {a', b', c', d'}" using fresh(2) by auto
    moreover have "?f4\<lparr>fr_font := a, fr_small_font := b, fr_heading_font := c, fr_title_font := d\<rparr> =
        fr\<lparr>fr_live := fr_live fr \<union> {a', b', c', d'}, fr_font := Some a', fr_small_font := Some b',
        fr_heading_font := Some c', fr_title_font := Some d'\<rparr>"
      using new by (simp add: insert_commute Un_insert_right)
    ultimately have "recreate_fonts A fr = Some (True, ?g\<lparr>fr_live := {a', b', c', d'}\<rparr>)"
      unfolding recreate_eq [OF a(1) b(1) c(1) d(1)] using False by (simp del: delete_objects.simps)
    then show ?thesis using fresh by blast
  qed
qed

lemma destroy_result:
  assumes "distinct (font_handles fr)" and "set (font_handles fr) = fr_live fr"
  shows "destroy_fonts fr = Some (fr\<lparr>fr_live := {}, fr_font := None, fr_small_font := None, fr_heading_font := None, fr_title_font := None\<rparr>)"
proof -
  have "delete_objects [fr_font fr, fr_small_font fr, fr_heading_font fr, fr_title_font fr] fr = Some (fr\<lparr>fr_live := {}\<rparr>)"
    using delete_objects_all [of "[fr_font fr, fr_small_font fr, fr_heading_font fr, fr_title_font fr]" fr] assms
    by (simp add: font_handles_def del: delete_objects.simps handles.simps)
  then show ?thesis unfolding destroy_fonts_def four_deletions by simp
qed

lemma font_for_cong:
  "fr_font g = fr_font fr \<Longrightarrow> fr_small_font g = fr_small_font fr \<Longrightarrow> fr_heading_font g = fr_heading_font fr \<Longrightarrow>
   fr_title_font g = fr_title_font fr \<Longrightarrow> font_for g c = font_for fr c"
  by (cases c) (simp_all add: font_for_def)

lemma no_font_anywhere:
  "fr_font g \<noteq> None \<Longrightarrow> fr_small_font g \<noteq> None \<Longrightarrow> fr_heading_font g \<noteq> None \<Longrightarrow> fr_title_font g \<noteq> None \<Longrightarrow>
   font_for g c = None \<Longrightarrow> font_for fr c = None"
  by (cases c) (simp_all add: font_for_def split: if_splits)

lemma font_for_handles: "font_for fr c = Some f \<Longrightarrow> f \<in> set (font_handles fr)"
  by (cases c) (auto simp: font_for_def font_handles_def split: if_splits option.splits)

text \<open>The controls are created before any of them has a font.\<close>

lemma create_controls_fonts:
  assumes "fonts_ok fr" and "fr_drawn fr = (\<lambda>c. None)"
  shows "fonts_ok (snd (create_controls A fr))"
proof -
  have tips: "fr_drawn (fold add_tooltip tips g) = fr_drawn g \<and> fr_created (fold add_tooltip tips g) = fr_created g \<and>
      fr_live (fold add_tooltip tips g) = fr_live g \<and> fr_font (fold add_tooltip tips g) = fr_font g \<and>
      fr_small_font (fold add_tooltip tips g) = fr_small_font g \<and> fr_heading_font (fold add_tooltip tips g) = fr_heading_font g \<and>
      fr_title_font (fold add_tooltip tips g) = fr_title_font g" for tips g
    by (induction tips arbitrary: g) (simp_all add: add_tooltip_def)
  have "fonts_ok (apply_fonts g)" if "fr_drawn g = (\<lambda>c. None)" "fr_live g = fr_live fr" "fr_font g = fr_font fr"
      "fr_small_font g = fr_small_font fr" "fr_heading_font g = fr_heading_font fr" "fr_title_font g = fr_title_font fr" for g
    using assms(1) that font_for_cong [of "apply_fonts g" g]
    by (auto simp: fonts_ok_def font_handles_def apply_fonts_drawn split: if_splits)
  then show ?thesis using assms(2) tips by (simp add: create_controls_def Let_def)
qed

text \<open>What recreating the fonts does, whatever of them can be created.\<close>

lemma fonts_recreated:
  assumes "gdi_ok A" and "fonts_ok fr"
  shows "\<exists>ok fr'. recreate_fonts A fr = Some (ok, fr') \<and> fonts_ok fr' \<and>
    (if ok then card (fr_live fr') = 4 \<and> fr_live fr' \<inter> fr_live fr = {} \<and>
       (\<forall>c. fr_drawn fr' c = (if c \<in> fr_created fr then font_for fr' c else None))
     else fr' = fr) \<and>
    (\<exists>gone. destroy_fonts fr' = Some gone \<and> fr_live gone = {})"
proof -
  have fonts: "distinct (font_handles fr)" "set (font_handles fr) = fr_live fr" using assms(2) by (simp_all add: fonts_ok_def)
  have destroy: "\<exists>gone. destroy_fonts g = Some gone \<and> fr_live gone = {}" if "fonts_ok g" for g
    using destroy_result [of g] that by (simp add: fonts_ok_def)
  consider "recreate_fonts A fr = Some (False, fr)"
    | a b c d where "distinct [a, b, c, d]" "{a, b, c, d} \<inter> fr_live fr = {}"
      "recreate_fonts A fr = Some (True, (apply_fonts (fr\<lparr>fr_live := fr_live fr \<union> {a, b, c, d}, fr_font := Some a,
        fr_small_font := Some b, fr_heading_font := Some c, fr_title_font := Some d\<rparr>))\<lparr>fr_live := {a, b, c, d}\<rparr>)"
    using recreate_result [OF assms(1) fonts] by blast
  then show ?thesis
  proof cases
    case 1
    then show ?thesis using destroy assms(2) by (intro exI [of _ False] exI [of _ fr]) simp
  next
    case 2
    define g where "g = fr\<lparr>fr_live := fr_live fr \<union> {a, b, c, d}, fr_font := Some a, fr_small_font := Some b,
        fr_heading_font := Some c, fr_title_font := Some d\<rparr>"
    define h where "h = (apply_fonts g)\<lparr>fr_live := {a, b, c, d}\<rparr>"
    have f: "fr_font h = Some a" "fr_small_font h = Some b" "fr_heading_font h = Some c" "fr_title_font h = Some d" "fr_live h = {a, b, c, d}"
        "fr_created h = fr_created fr"
      by (simp_all add: h_def g_def)
    have old: "fr_drawn fr k = None" if "k \<notin> fr_created fr \<or> font_for fr k = None" for k
      using assms(2) that by (cases "fr_drawn fr k") (auto simp: fonts_ok_def)
    have "font_for h k = font_for g k" for k by (rule font_for_cong) (simp_all add: h_def)
    then have drawn: "fr_drawn h k = (if k \<in> fr_created fr then font_for h k else None)" for k
      using old [of k] no_font_anywhere [of g k fr] by (auto simp: h_def g_def apply_fonts_drawn)
    have "fonts_ok h"
      using 2(1) f drawn by (auto simp: fonts_ok_def font_handles_def split: if_splits)
    moreover have "recreate_fonts A fr = Some (True, h)" using 2(3) by (simp add: h_def g_def)
    moreover have "card {a, b, c, d} = 4" using 2(1) by simp
    ultimately show ?thesis
      using destroy 2(2) f(5) drawn by (intro exI [of _ True] exI [of _ h]) simp
  qed
qed

section \<open>Properties\<close>

text \<open>
  \<^bold>\<open>C37\<close>. Changing the resolution never leaves a control with a deleted font. Whatever fonts can be
  created, \<^verbatim>\<open>recreate_fonts\<close> deletes only fonts that exist: when one is missing it leaves everything as
  it was, otherwise exactly the four new ones exist and every control is drawn with its new font. The
  final \<^verbatim>\<open>destroy_fonts\<close> then leaves none.
\<close>

theorem fonts_never_dangle:
  assumes "gdi_ok A" and "fonts_ok fr"
  shows "\<exists>ok fr'. recreate_fonts A fr = Some (ok, fr') \<and> fonts_ok fr' \<and>
    (if ok then card (fr_live fr') = 4 \<and> fr_live fr' \<inter> fr_live fr = {} \<and>
       (\<forall>c. fr_drawn fr' c = (if c \<in> fr_created fr then font_for fr' c else None))
     else fr' = fr) \<and>
    (\<exists>gone. destroy_fonts fr' = Some gone \<and> fr_live gone = {})"
  by (rule fonts_recreated [OF assms])

text \<open>A system with room for eight fonts, and a window that already has four.\<close>

definition plain_frame :: frame_api where
  "plain_frame = \<lparr>MulDiv = (\<lambda>a b c. (2 * a * b + c) div (2 * c)),
     CreateFontW = (\<lambda>live height weight. List.find (\<lambda>n. n \<notin> live) [0..<8]), CreateControl = (\<lambda>c. True)\<rparr>"

definition zero_frame :: frame where
  "zero_frame = \<lparr>fr_dpi = 0, fr_created = {}, fr_text = (\<lambda>c. []), fr_tabs = [], fr_choices = [], fr_columns = (\<lambda>l. []),
     fr_tooltips = [], fr_status_min = 0, fr_drawn = (\<lambda>c. None), fr_font = None, fr_small_font = None,
     fr_heading_font = None, fr_title_font = None, fr_live = {}\<rparr>"

lemma plain_frame_gdi: "gdi_ok plain_frame"
  by (auto simp: gdi_ok_def plain_frame_def find_Some_iff)

lemma zero_frame_fonts: "fonts_ok zero_frame"
  by (simp add: fonts_ok_def font_handles_def zero_frame_def)

theorem fonts_never_dangle_witness:
  "\<exists>ok fr'. recreate_fonts plain_frame (zero_frame\<lparr>fr_dpi := 144, fr_created := {TitleLabel}, fr_drawn := [TitleLabel \<mapsto> 4],
      fr_font := Some 1, fr_small_font := Some 2, fr_heading_font := Some 3, fr_title_font := Some 4, fr_live := {1, 2, 3, 4}\<rparr>)
      = Some (ok, fr') \<and> fonts_ok fr'"
proof -
  have "fonts_ok (zero_frame\<lparr>fr_dpi := 144, fr_created := {TitleLabel}, fr_drawn := [TitleLabel \<mapsto> 4],
      fr_font := Some 1, fr_small_font := Some 2, fr_heading_font := Some 3, fr_title_font := Some 4, fr_live := {1, 2, 3, 4}\<rparr>)"
    by (auto simp: fonts_ok_def font_handles_def zero_frame_def font_for_def split: if_splits)
  from fonts_never_dangle [OF plain_frame_gdi this] show ?thesis by blast
qed

end
