(* ===== verification/TG_Layout.thy ===== *)
theory TG_Layout
  imports TG_Controls
begin

text \<open>
  \<^verbatim>\<open>src/gui.c\<close>, placing the controls: every \<^verbatim>\<open>MoveWindow\<close> of \<^verbatim>\<open>layout_controls\<close> and the column widths of
  \<^verbatim>\<open>resize_list_columns\<close>. Coordinates are far from the limits of \<^verbatim>\<open>int\<close>, so they are integers here; a
  division of C rounds towards zero.
\<close>

section \<open>Geometry\<close>

record rect =
  r_left :: int
  r_top :: int
  r_right :: int
  r_bottom :: int

text \<open>The arguments of \<^verbatim>\<open>MoveWindow\<close>.\<close>

record place =
  pl_x :: int
  pl_y :: int
  pl_w :: int
  pl_h :: int

definition place_at :: "int \<Rightarrow> int \<Rightarrow> int \<Rightarrow> int \<Rightarrow> place" where
  "place_at x y w h = \<lparr>pl_x = x, pl_y = y, pl_w = w, pl_h = h\<rparr>"

definition c_div :: "int \<Rightarrow> int \<Rightarrow> int" where
  "c_div a b = (if a \<ge> 0 then a div b else - ((- a) div b))"

text \<open>Documented: \<^verbatim>\<open>MulDiv\<close> rounds the quotient to the nearest integer.\<close>

definition muldiv_ok :: "frame_api \<Rightarrow> bool" where
  "muldiv_ok A \<longleftrightarrow> (\<forall>a b c. 0 \<le> a \<and> 0 \<le> b \<and> 0 < c \<longrightarrow> 2 * \<bar>MulDiv A a b c * c - a * b\<bar> \<le> c)"

section \<open>The parts of the page\<close>

text \<open>The buttons from the right, then the filter and the search box; \<open>s\<close> is \<^verbatim>\<open>scale_value\<close>.\<close>

definition toolbar_top :: "(int \<Rightarrow> int) \<Rightarrow> rect \<Rightarrow> int" where
  "toolbar_top s page = r_top page + s 9"

definition toolbar :: "(int \<Rightarrow> int) \<Rightarrow> rect \<Rightarrow> (control \<times> place) list" where
  "toolbar s page =
     (let gap = s 12; control_height = s 30; toolbar_height = s 32; top = toolbar_top s page;
          r0 = r_right page - s 10;
          r1 = r0 - (s 68 + s 8);
          r2 = r1 - (s 76 + s 8);
          r3 = r2 - (s 94 + s 8);
          r4 = r3 - (s 78 + gap);
          r5 = r4 - (s 126 + s 5);
          r6 = r5 - (s 50 + gap);
          edit_left = r_left page + s 10 + s 58;
          search_edit_right = (if r6 - edit_left < s 170 then edit_left + s 170 else r6)
      in [(AboutButton, place_at (r0 - s 68) top (s 68) control_height),
          (ExportButton, place_at (r1 - s 76) top (s 76) control_height),
          (ClearButton, place_at (r2 - s 94) top (s 94) control_height),
          (PauseButton, place_at (r3 - s 78) top (s 78) control_height),
          (EventFilter, place_at (r4 - s 126) top (s 126) (s 180)),
          (EventLabel, place_at (r5 - s 50) top (s 50) toolbar_height),
          (SearchLabel, place_at (r_left page + s 10) top (s 58) toolbar_height),
          (SearchEdit, place_at edit_left top (search_edit_right - edit_left) control_height)])"

text \<open>The area below the toolbar, which the tree and the three lists fill.\<close>

definition content :: "(int \<Rightarrow> int) \<Rightarrow> rect \<Rightarrow> place" where
  "content s page =
     (let content_top = toolbar_top s page + s 32 + s 10;
          h = r_bottom page - content_top - s 10
      in place_at (r_left page + s 10) content_top (r_right page - r_left page - s 20) (if h < s 180 then s 180 else h))"

definition status_group_width :: "(int \<Rightarrow> int) \<Rightarrow> rect \<Rightarrow> int" where
  "status_group_width s page =
     (let w = c_div ((r_right page - r_left page - s 30) * 36) 100 in if w < s 310 then s 310 else w)"

definition overview_groups :: "(int \<Rightarrow> int) \<Rightarrow> rect \<Rightarrow> (control \<times> place) list" where
  "overview_groups s page =
     (let area = content s page; gap = s 12; top = pl_y area; height = pl_h area;
          width = status_group_width s page;
          right_group_x = r_left page + s 10 + width + gap;
          right_group_width = r_right page - s 10 - right_group_x;
          activity_height = c_div ((height - gap) * 58) 100
      in [(OverviewStatusGroup, place_at (r_left page + s 10) top width height),
          (OverviewActivityGroup, place_at right_group_x top right_group_width activity_height),
          (OverviewAlertGroup, place_at right_group_x (top + activity_height + gap) right_group_width (height - activity_height - gap))])"

definition overview_metrics :: "(int \<Rightarrow> int) \<Rightarrow> rect \<Rightarrow> (control \<times> place) list" where
  "overview_metrics s page =
     (let area = content s page; width = status_group_width s page; inset = s 14; row = s 39;
          metric_top = pl_y area + s 30
      in concat (map (\<lambda>i.
           [(MetricName i, place_at (r_left page + s 10 + inset) (metric_top + int i * row) (c_div width 2 - inset) (s 26)),
            (MetricValue i, place_at (r_left page + s 10 + c_div width 2) (metric_top + int i * row) (c_div width 2 - inset) (s 26))])
           [0..<6]) @
         [(TelemetryNote, place_at (r_left page + s 10 + inset) (metric_top + 6 * row + s 12) (width - 2 * inset)
             (pl_y area + pl_h area - (metric_top + 6 * row + s 20)))])"

definition overview_lists :: "(int \<Rightarrow> int) \<Rightarrow> rect \<Rightarrow> (control \<times> place) list" where
  "overview_lists s page =
     (let area = content s page; gap = s 12; inset = s 14;
          right_group_x = r_left page + s 10 + status_group_width s page + gap;
          right_group_width = r_right page - s 10 - right_group_x;
          activity_height = c_div ((pl_h area - gap) * 58) 100
      in [(EventList RecentList, place_at (right_group_x + inset) (pl_y area + s 27) (right_group_width - 2 * inset) (activity_height - s 40)),
          (EventList RecentAlertList, place_at (right_group_x + inset) (pl_y area + activity_height + gap + s 27)
             (right_group_width - 2 * inset) (pl_h area - activity_height - gap - s 40))])"

section \<open>The whole window\<close>

text \<open>
  \<open>page_of w h\<close> is what \<^verbatim>\<open>TabCtrl_AdjustRect\<close> makes of the client rectangle of a tab control of that
  size; \<open>status_height\<close> the height of the status bar, if it has a window rectangle.
\<close>

definition layout_controls ::
  "frame_api \<Rightarrow> frame \<Rightarrow> (int \<Rightarrow> int \<Rightarrow> rect) \<Rightarrow> int option \<Rightarrow> rect \<Rightarrow> (control \<times> place) list \<times> int list" where
  "layout_controls A fr page_of status_height client =
     (let s = scale_value A fr; padding = s 16;
          width = r_right client - r_left client;
          height = r_bottom client - r_top client;
          status = (case status_height of None \<Rightarrow> s 26 | Some h \<Rightarrow> h);
          navigation_top = s 78;
          h = height - navigation_top - status - s 4;
          navigation_height = (if h < s 300 then s 300 else h);
          p = page_of (width - 2 * padding) navigation_height;
          page = \<lparr>r_left = r_left p + padding, r_top = r_top p + navigation_top,
                  r_right = r_right p + padding, r_bottom = r_bottom p + navigation_top\<rparr>
      in ([(TitleLabel, place_at padding (s 12) (s 360) (s 34)),
           (SubtitleLabel, place_at (padding + s 2) (s 48) (s 420) (s 20)),
           (MonitoringLabel, place_at (width - padding - s 300) (s 25) (s 300) (s 24)),
           (Navigation, place_at padding navigation_top (width - 2 * padding) navigation_height)] @
          toolbar s page @
          [(ProcessTree, content s page), (EventList NetworkList, content s page), (EventList TimelineList, content s page),
           (EventList AlertList, content s page)] @
          overview_groups s page @ overview_metrics s page @ overview_lists s page,
          [s 170, s 350, s 500, s 635, - 1]))"

section \<open>Column widths\<close>

text \<open>The last column takes what the others leave, but at least \<open>least\<close>.\<close>

definition fill_columns :: "int \<Rightarrow> int list \<Rightarrow> int \<Rightarrow> int list" where
  "fill_columns width columns least =
     (let rest = width - sum_list columns in columns @ [if rest < least then least else rest])"

definition resize_list_columns :: "(int \<Rightarrow> int) \<Rightarrow> (list_control \<Rightarrow> rect option) \<Rightarrow> (list_control \<times> int list) list" where
  "resize_list_columns s client =
     concat (map (\<lambda>(list, columns, least).
         (case client list of
            None \<Rightarrow> []
          | Some r \<Rightarrow> [(list, fill_columns (r_right r - r_left r - s 4) (map s columns) (s least))]))
       [(TimelineList, [92, 95, 180, 75], 260), (NetworkList, [92, 170, 75, 80, 205, 205], 130), (AlertList, [92, 85, 230, 180], 260),
        (RecentList, [92], 180), (RecentAlertList, [88, 75, 230], 150)])"

section \<open>Nothing overlaps\<close>

definition left_of :: "place \<Rightarrow> place \<Rightarrow> bool" where
  "left_of p q \<longleftrightarrow> pl_x p + pl_w p \<le> pl_x q"

definition above :: "place \<Rightarrow> place \<Rightarrow> bool" where
  "above p q \<longleftrightarrow> pl_y p + pl_h p \<le> pl_y q"

definition inside :: "place \<Rightarrow> place \<Rightarrow> bool" where
  "inside p q \<longleftrightarrow> pl_x q \<le> pl_x p \<and> pl_x p + pl_w p \<le> pl_x q + pl_w q \<and> pl_y q \<le> pl_y p \<and> pl_y p + pl_h p \<le> pl_y q + pl_h q \<and>
     0 < pl_w p \<and> 0 < pl_h p"

lemmas geometry = left_of_def above_def inside_def place_at_def

text \<open>Scaling by \<open>d\<close> over 96, rounded to the nearest integer.\<close>

definition scaled :: "(int \<Rightarrow> int) \<Rightarrow> int \<Rightarrow> bool" where
  "scaled s d \<longleftrightarrow> 96 \<le> d \<and> (\<forall>v \<ge> 0. \<bar>96 * s v - v * d\<bar> \<le> 48)"

lemma scale_value_scaled:
  assumes "muldiv_ok A" and "96 \<le> dpi_of fr"
  shows "scaled (scale_value A fr) (dpi_of fr)"
proof -
  have "\<bar>96 * scale_value A fr v - v * dpi_of fr\<bar> \<le> 48" if "0 \<le> v" for v
  proof -
    have "2 * \<bar>MulDiv A v (dpi_of fr) 96 * 96 - v * dpi_of fr\<bar> \<le> 96"
      using assms that unfolding muldiv_ok_def by auto
    then show ?thesis by (simp add: scale_value_def mult.commute)
  qed
  then show ?thesis using assms(2) by (simp add: scaled_def)
qed

lemma scaled_at:
  assumes "scaled s d" and "0 \<le> v"
  shows "96 * s v \<le> v * d + 48" and "v * d - 48 \<le> 96 * s v"
  using assms by (simp_all add: scaled_def abs_le_iff) (use assms in \<open>fastforce simp: scaled_def\<close>)+

lemma scaled_dpi: "scaled s d \<Longrightarrow> 96 \<le> d"
  by (simp add: scaled_def)

definition page_area :: "rect \<Rightarrow> place" where
  "page_area page = place_at (r_left page) (r_top page) (r_right page - r_left page) (r_bottom page - r_top page)"

text \<open>The toolbar from left to right; the filter's height is that of its open list.\<close>

lemma toolbar_fits:
  assumes "scaled s d" and "s 820 \<le> r_right page - r_left page" and "s 360 \<le> r_bottom page - r_top page"
  obtains about export clear pause filter label search edit where
    "toolbar s page = [(AboutButton, about), (ExportButton, export), (ClearButton, clear), (PauseButton, pause), (EventFilter, filter),
       (EventLabel, label), (SearchLabel, search), (SearchEdit, edit)]"
    and "successively left_of [search, edit, label, filter, pause, clear, export, about]"
    and "\<forall>p \<in> {search, edit, label, filter, pause, clear, export, about}. inside p (page_area page)"
    and "\<forall>p \<in> {search, edit, label, pause, clear, export, about}. above p (content s page)"
proof -
  note b = scaled_at [OF assms(1)]
  note n = b [of 5] b [of 8] b [of 9] b [of 10] b [of 12] b [of 30] b [of 32] b [of 50] b [of 58] b [of 68] b [of 76] b [of 78] b [of 94]
    b [of 126] b [of 170] b [of 180] b [of 360] b [of 820] scaled_dpi [OF assms(1)]
  show thesis
  proof (rule that [OF toolbar_def [unfolded Let_def]])
  qed (use n assms(2,3) in \<open>simp_all add: geometry page_area_def content_def toolbar_top_def Let_def\<close>)
qed

lemma c_div_bounds:
  assumes "0 \<le> a" and "0 < b"
  shows "b * c_div a b \<le> a" and "a < b * c_div a b + b" and "0 \<le> c_div a b"
proof -
  have "b * (a div b) + a mod b = a" "0 \<le> a mod b" "a mod b < b" "0 \<le> a div b"
    using assms mult_div_mod_eq [of b a] by (simp_all add: pos_imp_zdiv_nonneg_iff)
  then have "b * (a div b) \<le> a" "a < b * (a div b) + b" "0 \<le> a div b" by linarith+
  then show "b * c_div a b \<le> a" "a < b * c_div a b + b" "0 \<le> c_div a b" using assms(1) by (simp_all add: c_div_def)
qed

text \<open>The group of the metrics takes 36 of 100 parts of the width, the recent activity 58 of 100 of the height.\<close>

lemma status_group_bounds:
  assumes "scaled s d" and "s 820 \<le> r_right page - r_left page"
  shows "s 310 \<le> status_group_width s page" and "status_group_width s page + s 350 \<le> r_right page - r_left page"
proof -
  note b = scaled_at [OF assms(1)]
  have pos: "0 \<le> (r_right page - r_left page - s 30) * 36"
    using b [of 30] b [of 820] scaled_dpi [OF assms(1)] assms(2) by simp
  show "s 310 \<le> status_group_width s page" "status_group_width s page + s 350 \<le> r_right page - r_left page"
    using c_div_bounds [OF pos, of 100] b [of 30] b [of 310] b [of 350] b [of 820] scaled_dpi [OF assms(1)] assms(2)
    by (simp_all add: status_group_width_def Let_def)
qed

lemma content_bounds:
  assumes "scaled s d" and "s 360 \<le> r_bottom page - r_top page"
  shows "s 290 \<le> pl_h (content s page)" and "pl_y (content s page) + pl_h (content s page) + s 10 = r_bottom page"
    and "pl_x (content s page) = r_left page + s 10" and "pl_w (content s page) = r_right page - r_left page - s 20"
    and "r_top page \<le> pl_y (content s page)"
proof -
  note b = scaled_at [OF assms(1)]
  show "s 290 \<le> pl_h (content s page)" "pl_y (content s page) + pl_h (content s page) + s 10 = r_bottom page"
      "pl_x (content s page) = r_left page + s 10" "pl_w (content s page) = r_right page - r_left page - s 20"
      "r_top page \<le> pl_y (content s page)"
    using b [of 9] b [of 10] b [of 32] b [of 180] b [of 290] b [of 360] scaled_dpi [OF assms(1)] assms(2)
    by (simp_all add: content_def toolbar_top_def place_at_def Let_def)
qed

lemma groups_fit:
  assumes "scaled s d" and "s 820 \<le> r_right page - r_left page" and "s 360 \<le> r_bottom page - r_top page"
  obtains status activity alert recent recent_alerts where
    "overview_groups s page = [(OverviewStatusGroup, status), (OverviewActivityGroup, activity), (OverviewAlertGroup, alert)]"
    and "overview_lists s page = [(EventList RecentList, recent), (EventList RecentAlertList, recent_alerts)]"
    and "left_of status activity" and "left_of status alert" and "above activity alert"
    and "\<forall>p \<in> {status, activity, alert}. inside p (page_area page)"
    and "inside recent activity" and "inside recent_alerts alert"
    and "status = place_at (r_left page + s 10) (pl_y (content s page)) (status_group_width s page) (pl_h (content s page))"
proof -
  note b = scaled_at [OF assms(1)]
  note area = content_bounds [OF assms(1,3)]
  note group = status_group_bounds [OF assms(1,2)]
  have "0 \<le> (pl_h (content s page) - s 12) * 58"
    using area(1) b [of 12] b [of 290] scaled_dpi [OF assms(1)] by simp
  note high = c_div_bounds [OF this, of 100]
  show thesis
    by (rule that [OF overview_groups_def [unfolded Let_def] overview_lists_def [unfolded Let_def]])
      (use area group high b [of 10] b [of 12] b [of 14] b [of 20] b [of 27] b [of 40] b [of 290] b [of 310] b [of 350] scaled_dpi [OF assms(1)]
        in \<open>simp_all add: geometry page_area_def\<close>)
qed

definition place_of :: "(control \<times> place) list \<Rightarrow> control \<Rightarrow> place" where
  "place_of placed c = (case map_of placed c of Some p \<Rightarrow> p | None \<Rightarrow> place_at 0 0 0 0)"

lemma metric_places:
  assumes "i < 6"
  shows "place_of (overview_metrics s page) (MetricName i) =
      place_at (r_left page + s 10 + s 14) (pl_y (content s page) + s 30 + int i * s 39) (c_div (status_group_width s page) 2 - s 14) (s 26)"
    and "place_of (overview_metrics s page) (MetricValue i) =
      place_at (r_left page + s 10 + c_div (status_group_width s page) 2) (pl_y (content s page) + s 30 + int i * s 39)
        (c_div (status_group_width s page) 2 - s 14) (s 26)"
  using assms unfolding less_six by (auto simp: place_of_def overview_metrics_def six_metrics Let_def)

lemma metrics_fit:
  assumes "scaled s d" and "s 820 \<le> r_right page - r_left page" and "s 360 \<le> r_bottom page - r_top page"
    and "status = place_at (r_left page + s 10) (pl_y (content s page)) (status_group_width s page) (pl_h (content s page))"
  defines "at \<equiv> place_of (overview_metrics s page)"
  shows "\<forall>i < 6. left_of (at (MetricName i)) (at (MetricValue i)) \<and> inside (at (MetricName i)) status \<and> inside (at (MetricValue i)) status \<and>
      above (at (MetricName i)) (at TelemetryNote) \<and> above (at (MetricValue i)) (at TelemetryNote)"
    and "\<forall>i j. i < j \<and> j < 6 \<longrightarrow> above (at (MetricName i)) (at (MetricName j)) \<and> above (at (MetricValue i)) (at (MetricValue j))"
    and "inside (at TelemetryNote) status"
proof -
  note b = scaled_at [OF assms(1)]
  note area = content_bounds [OF assms(1,3)]
  note group = status_group_bounds [OF assms(1,2)]
  have "0 \<le> status_group_width s page" using group(1) b [of 310] scaled_dpi [OF assms(1)] by simp
  note half = c_div_bounds [OF this, of 2]
  note n = area group half b [of 10] b [of 12] b [of 14] b [of 20] b [of 26] b [of 30] b [of 39] b [of 290] b [of 310] scaled_dpi [OF assms(1)]
  have note_place: "at TelemetryNote = place_at (r_left page + s 10 + s 14) (pl_y (content s page) + s 30 + 6 * s 39 + s 12)
      (status_group_width s page - 2 * s 14) (pl_y (content s page) + pl_h (content s page) - (pl_y (content s page) + s 30 + 6 * s 39 + s 20))"
    by (simp add: at_def place_of_def overview_metrics_def six_metrics Let_def)
  have row: "\<exists>y. int i * s 39 = y \<and> 0 \<le> y \<and> y \<le> 5 * s 39" if "i < 6" for i
    using that n by (simp add: mult_right_mono)
  show "inside (at TelemetryNote) status" using n unfolding note_place assms(4) by (simp add: geometry)
  show "\<forall>i < 6. left_of (at (MetricName i)) (at (MetricValue i)) \<and> inside (at (MetricName i)) status \<and> inside (at (MetricValue i)) status \<and>
      above (at (MetricName i)) (at TelemetryNote) \<and> above (at (MetricValue i)) (at TelemetryNote)"
  proof (intro allI impI)
    fix i :: nat
    assume "i < 6"
    moreover obtain y where "int i * s 39 = y" "0 \<le> y" "y \<le> 5 * s 39" using row [OF \<open>i < 6\<close>] by blast
    ultimately show "left_of (at (MetricName i)) (at (MetricValue i)) \<and> inside (at (MetricName i)) status \<and> inside (at (MetricValue i)) status \<and>
        above (at (MetricName i)) (at TelemetryNote) \<and> above (at (MetricValue i)) (at TelemetryNote)"
      using n metric_places [of i s page, folded at_def] unfolding note_place assms(4) by (simp add: geometry)
  qed
  show "\<forall>i j. i < j \<and> j < 6 \<longrightarrow> above (at (MetricName i)) (at (MetricName j)) \<and> above (at (MetricValue i)) (at (MetricValue j))"
  proof (intro allI impI)
    fix i j :: nat
    assume ij: "i < j \<and> j < 6"
    then have "(int i + 1) * s 39 \<le> int j * s 39" using n by (intro mult_right_mono) simp_all
    then obtain y z where "int i * s 39 = y" "int j * s 39 = z" "y + s 39 \<le> z" by (simp add: algebra_simps)
    then show "above (at (MetricName i)) (at (MetricName j)) \<and> above (at (MetricValue i)) (at (MetricValue j))"
      using ij n metric_places [of i s page, folded at_def] metric_places [of j s page, folded at_def] by (simp add: geometry)
  qed
qed

section \<open>Properties\<close>

text \<open>
  An assumption on the common controls that is not documented: the display area of a tab control
  lies in it, and its borders with the row of tabs take at most \<open>border\<close> (40 units below) in each
  direction.
\<close>

definition tabs_ok :: "(int \<Rightarrow> int \<Rightarrow> rect) \<Rightarrow> int \<Rightarrow> bool" where
  "tabs_ok page_of border \<longleftrightarrow> (\<forall>w h. 0 \<le> r_left (page_of w h) \<and> 0 \<le> r_top (page_of w h) \<and> r_right (page_of w h) \<le> w \<and> r_bottom (page_of w h) \<le> h \<and>
     w - border \<le> r_right (page_of w h) - r_left (page_of w h) \<and> h - border \<le> r_bottom (page_of w h) - r_top (page_of w h))"

definition all_inside :: "(control \<Rightarrow> place) \<Rightarrow> control list \<Rightarrow> place \<Rightarrow> bool" where
  "all_inside at cs p \<longleftrightarrow> list_all (\<lambda>c. inside (at c) p) cs"

definition toolbar_order :: "control list" where
  "toolbar_order = [SearchLabel, SearchEdit, EventLabel, EventFilter, PauseButton, ClearButton, ExportButton, AboutButton]"

definition metric_grid :: "(control \<Rightarrow> place) \<Rightarrow> bool" where
  "metric_grid at \<longleftrightarrow>
     (\<forall>i < 6. left_of (at (MetricName i)) (at (MetricValue i)) \<and> inside (at (MetricName i)) (at OverviewStatusGroup) \<and>
        inside (at (MetricValue i)) (at OverviewStatusGroup) \<and>
        above (at (MetricName i)) (at TelemetryNote) \<and> above (at (MetricValue i)) (at TelemetryNote)) \<and>
     (\<forall>i j. i < j \<and> j < 6 \<longrightarrow> above (at (MetricName i)) (at (MetricName j)) \<and> above (at (MetricValue i)) (at (MetricValue j))) \<and>
     inside (at TelemetryNote) (at OverviewStatusGroup)"

lemma layout_parts:
  fixes header page s
  defines "at \<equiv> place_of (header @ toolbar s page @
      [(ProcessTree, content s page), (EventList NetworkList, content s page), (EventList TimelineList, content s page),
       (EventList AlertList, content s page)] @ overview_groups s page @ overview_metrics s page @ overview_lists s page)"
  assumes "map fst header = [TitleLabel, SubtitleLabel, MonitoringLabel, Navigation]"
  shows "c \<in> set toolbar_order \<Longrightarrow> at c = place_of (toolbar s page) c"
    and "c \<in> {ProcessTree, EventList NetworkList, EventList TimelineList, EventList AlertList} \<Longrightarrow> at c = content s page"
    and "c \<in> {OverviewStatusGroup, OverviewActivityGroup, OverviewAlertGroup} \<Longrightarrow> at c = place_of (overview_groups s page) c"
    and "i < 6 \<Longrightarrow> at (MetricName i) = place_of (overview_metrics s page) (MetricName i)"
    and "i < 6 \<Longrightarrow> at (MetricValue i) = place_of (overview_metrics s page) (MetricValue i)"
    and "at TelemetryNote = place_of (overview_metrics s page) TelemetryNote"
    and "c \<in> {EventList RecentList, EventList RecentAlertList} \<Longrightarrow> at c = place_of (overview_lists s page) c"
    and "c \<in> {TitleLabel, SubtitleLabel, MonitoringLabel, Navigation} \<Longrightarrow> at c = place_of header c"
proof -
  have head: "map_of header c = None" if "c \<notin> {TitleLabel, SubtitleLabel, MonitoringLabel, Navigation}" for c
    using that assms(2) by (metis list.set(1) list.set(2) map_of_eq_None_iff list.set_map)
  have in_head: "map_of header c \<noteq> None" if "c \<in> {TitleLabel, SubtitleLabel, MonitoringLabel, Navigation}" for c
    using that assms(2) by (metis list.set(1) list.set(2) map_of_eq_None_iff list.set_map)
  note parts = at_def place_of_def map_of_append map_add_def head toolbar_order_def toolbar_def overview_groups_def overview_lists_def
    overview_metrics_def six_metrics less_six Let_def
  show "c \<in> set toolbar_order \<Longrightarrow> at c = place_of (toolbar s page) c"
    by (auto simp: parts)
  show "c \<in> {ProcessTree, EventList NetworkList, EventList TimelineList, EventList AlertList} \<Longrightarrow> at c = content s page"
    by (auto simp: parts)
  show "c \<in> {OverviewStatusGroup, OverviewActivityGroup, OverviewAlertGroup} \<Longrightarrow> at c = place_of (overview_groups s page) c"
    by (auto simp: parts)
  show "i < 6 \<Longrightarrow> at (MetricName i) = place_of (overview_metrics s page) (MetricName i)"
    by (auto simp: parts)
  show "i < 6 \<Longrightarrow> at (MetricValue i) = place_of (overview_metrics s page) (MetricValue i)"
    by (auto simp: parts)
  show "at TelemetryNote = place_of (overview_metrics s page) TelemetryNote"
    by (auto simp: parts)
  show "c \<in> {EventList RecentList, EventList RecentAlertList} \<Longrightarrow> at c = place_of (overview_lists s page) c"
    by (auto simp: parts)
  show "c \<in> {TitleLabel, SubtitleLabel, MonitoringLabel, Navigation} \<Longrightarrow> at c = place_of header c"
    using in_head [of c] by (auto simp: parts)
qed

text \<open>The page is large enough when the window is, and lies in the tab control.\<close>

definition page_in :: "(int \<Rightarrow> int \<Rightarrow> rect) \<Rightarrow> (int \<Rightarrow> int) \<Rightarrow> int \<Rightarrow> rect \<Rightarrow> int \<times> rect" where
  "page_in page_of s status client =
     (let h = r_bottom client - r_top client - s 78 - status - s 4;
          navigation_height = (if h < s 300 then s 300 else h);
          p = page_of (r_right client - r_left client - 2 * s 16) navigation_height
      in (navigation_height, \<lparr>r_left = r_left p + s 16, r_top = r_top p + s 78, r_right = r_right p + s 16, r_bottom = r_bottom p + s 78\<rparr>))"

lemma page_large:
  assumes "scaled s d" and "tabs_ok page_of (s 40)" and "s 920 \<le> r_right client - r_left client"
    and "s 570 \<le> r_bottom client - r_top client" and "status \<le> s 40" and "page_in page_of s status client = (height, page)"
  shows "s 820 \<le> r_right page - r_left page" and "s 360 \<le> r_bottom page - r_top page"
    and "inside p (page_area page) \<Longrightarrow> inside p (place_at (s 16) (s 78) (r_right client - r_left client - 2 * s 16) height)"
proof -
  note b = scaled_at [OF assms(1)]
  let ?w = "r_right client - r_left client - 2 * s 16"
  define q where "q = page_of ?w height"
  have h: "height = (if r_bottom client - r_top client - s 78 - status - s 4 < s 300 then s 300 else r_bottom client - r_top client - s 78 - status - s 4)"
      "page = \<lparr>r_left = r_left q + s 16, r_top = r_top q + s 78, r_right = r_right q + s 16, r_bottom = r_bottom q + s 78\<rparr>"
    using assms(6) by (clarsimp simp: page_in_def Let_def q_def split del: if_split)+
  have q: "0 \<le> r_left q" "0 \<le> r_top q" "r_right q \<le> ?w" "r_bottom q \<le> height" "?w - s 40 \<le> r_right q - r_left q" "height - s 40 \<le> r_bottom q - r_top q"
    using assms(2) by (simp_all add: tabs_ok_def q_def)
  note n = q assms(3-5) b [of 4] b [of 16] b [of 40] b [of 78] b [of 300] b [of 360] b [of 570] b [of 820] b [of 920] scaled_dpi [OF assms(1)]
  show "s 820 \<le> r_right page - r_left page" using n by (simp add: h(2))
  have "r_bottom client - r_top client - s 78 - status - s 4 \<le> height" by (simp add: h(1))
  then show "s 360 \<le> r_bottom page - r_top page" using n by (simp add: h(2))
  show "inside p (page_area page) \<Longrightarrow> inside p (place_at (s 16) (s 78) ?w height)"
    using q unfolding h(2) by (simp add: geometry page_area_def)
qed

text \<open>The labels above the tab control; the status bar takes the last \<open>status\<close> rows of the client area.\<close>

definition header_places :: "(int \<Rightarrow> int) \<Rightarrow> int \<Rightarrow> int \<Rightarrow> (control \<times> place) list" where
  "header_places s width height =
     [(TitleLabel, place_at (s 16) (s 12) (s 360) (s 34)), (SubtitleLabel, place_at (s 16 + s 2) (s 48) (s 420) (s 20)),
      (MonitoringLabel, place_at (width - s 16 - s 300) (s 25) (s 300) (s 24)),
      (Navigation, place_at (s 16) (s 78) (width - 2 * s 16) height)]"

definition header_fits :: "(control \<Rightarrow> place) \<Rightarrow> int \<Rightarrow> int \<Rightarrow> bool" where
  "header_fits at width height \<longleftrightarrow>
     all_inside at [TitleLabel, SubtitleLabel, MonitoringLabel, Navigation] (place_at 0 0 width height) \<and>
     above (at TitleLabel) (at SubtitleLabel) \<and> left_of (at TitleLabel) (at MonitoringLabel) \<and>
     left_of (at SubtitleLabel) (at MonitoringLabel) \<and>
     list_all (\<lambda>c. above (at c) (at Navigation)) [TitleLabel, SubtitleLabel, MonitoringLabel]"

lemma layout_eq:
  assumes "page_in page_of (scale_value A fr) status client = (height, page)"
  shows "fst (layout_controls A fr page_of (Some status) client) =
      header_places (scale_value A fr) (r_right client - r_left client) height @ toolbar (scale_value A fr) page @
      [(ProcessTree, content (scale_value A fr) page), (EventList NetworkList, content (scale_value A fr) page),
       (EventList TimelineList, content (scale_value A fr) page), (EventList AlertList, content (scale_value A fr) page)] @
      overview_groups (scale_value A fr) page @ overview_metrics (scale_value A fr) page @ overview_lists (scale_value A fr) page"
  using assms by (clarsimp simp: layout_controls_def page_in_def header_places_def Let_def split del: if_split)

lemma header_controls: "map fst (header_places s width height) = [TitleLabel, SubtitleLabel, MonitoringLabel, Navigation]"
  by (simp add: header_places_def)

text \<open>Each part of the window, from the places of its controls.\<close>

lemma header_placed:
  assumes "scaled s d" and "s 920 \<le> r_right client - r_left client" and "s 570 \<le> r_bottom client - r_top client"
    and "status \<le> s 40" and "page_in page_of s status client = (height, page)"
    and "\<And>c. c \<in> {TitleLabel, SubtitleLabel, MonitoringLabel, Navigation} \<Longrightarrow>
      at c = place_of (header_places s (r_right client - r_left client) height) c"
  shows "header_fits at (r_right client - r_left client) (r_bottom client - r_top client - status)"
proof -
  note b = scaled_at [OF assms(1)]
  have at: "at TitleLabel = place_at (s 16) (s 12) (s 360) (s 34)" "at SubtitleLabel = place_at (s 16 + s 2) (s 48) (s 420) (s 20)"
      "at MonitoringLabel = place_at (r_right client - r_left client - s 16 - s 300) (s 25) (s 300) (s 24)"
      "at Navigation = place_at (s 16) (s 78) (r_right client - r_left client - 2 * s 16) height"
    using assms(6) by (simp_all add: header_places_def place_of_def)
  have "height = (if r_bottom client - r_top client - s 78 - status - s 4 < s 300 then s 300 else r_bottom client - r_top client - s 78 - status - s 4)"
    using assms(5) by (clarsimp simp: page_in_def Let_def split del: if_split)
  then have h: "s 300 \<le> height" "height = s 300 \<or> height = r_bottom client - r_top client - s 78 - status - s 4" by simp_all
  note n = assms(2-4) b [of 2] b [of 4] b [of 12] b [of 16] b [of 20] b [of 24] b [of 25] b [of 34] b [of 40] b [of 48] b [of 78]
    b [of 300] b [of 360] b [of 420] b [of 570] b [of 920] scaled_dpi [OF assms(1)] h(1)
  have "s 78 + height + status \<le> r_bottom client - r_top client" using h(2) by (elim disjE) (use n in simp_all)
  then show ?thesis using n by (simp add: header_fits_def all_inside_def at geometry)
qed

lemma toolbar_placed:
  assumes "scaled s d" and "s 820 \<le> r_right page - r_left page" and "s 360 \<le> r_bottom page - r_top page"
    and "\<And>c. c \<in> set toolbar_order \<Longrightarrow> at c = place_of (toolbar s page) c"
  shows "successively left_of (map at toolbar_order) \<and> all_inside at toolbar_order (page_area page) \<and>
    (\<forall>c \<in> set toolbar_order - {EventFilter}. above (at c) (content s page))"
proof -
  obtain about export clear pause filter label search edit where t:
      "toolbar s page = [(AboutButton, about), (ExportButton, export), (ClearButton, clear), (PauseButton, pause), (EventFilter, filter),
       (EventLabel, label), (SearchLabel, search), (SearchEdit, edit)]"
      "successively left_of [search, edit, label, filter, pause, clear, export, about]"
      "\<forall>p \<in> {search, edit, label, filter, pause, clear, export, about}. inside p (page_area page)"
      "\<forall>p \<in> {search, edit, label, pause, clear, export, about}. above p (content s page)"
    using toolbar_fits [OF assms(1-3)] by blast
  have "at SearchLabel = search" "at SearchEdit = edit" "at EventLabel = label" "at EventFilter = filter" "at PauseButton = pause"
      "at ClearButton = clear" "at ExportButton = export" "at AboutButton = about"
    by (simp_all add: assms(4) toolbar_order_def t(1) place_of_def)
  then show ?thesis using t(2-4) by (auto simp: toolbar_order_def all_inside_def)
qed

definition groups_placed :: "(control \<Rightarrow> place) \<Rightarrow> bool" where
  "groups_placed at \<longleftrightarrow>
     left_of (at OverviewStatusGroup) (at OverviewActivityGroup) \<and> left_of (at OverviewStatusGroup) (at OverviewAlertGroup) \<and>
     above (at OverviewActivityGroup) (at OverviewAlertGroup) \<and>
     inside (at (EventList RecentList)) (at OverviewActivityGroup) \<and> inside (at (EventList RecentAlertList)) (at OverviewAlertGroup) \<and>
     metric_grid at"

lemma overview_placed:
  assumes "scaled s d" and "s 820 \<le> r_right page - r_left page" and "s 360 \<le> r_bottom page - r_top page"
    and "\<And>c. c \<in> {OverviewStatusGroup, OverviewActivityGroup, OverviewAlertGroup} \<Longrightarrow> at c = place_of (overview_groups s page) c"
    and "\<And>c. c \<in> {EventList RecentList, EventList RecentAlertList} \<Longrightarrow> at c = place_of (overview_lists s page) c"
    and "\<And>i. i < 6 \<Longrightarrow> at (MetricName i) = place_of (overview_metrics s page) (MetricName i)"
    and "\<And>i. i < 6 \<Longrightarrow> at (MetricValue i) = place_of (overview_metrics s page) (MetricValue i)"
    and "at TelemetryNote = place_of (overview_metrics s page) TelemetryNote"
  shows "groups_placed at"
    and "all_inside at [OverviewStatusGroup, OverviewActivityGroup, OverviewAlertGroup] (page_area page)"
    and "pl_y (at OverviewStatusGroup) = pl_y (content s page)" and "pl_y (at OverviewActivityGroup) = pl_y (content s page)"
proof -
  obtain status activity alert recent recent_alerts where g:
      "overview_groups s page = [(OverviewStatusGroup, status), (OverviewActivityGroup, activity), (OverviewAlertGroup, alert)]"
      "overview_lists s page = [(EventList RecentList, recent), (EventList RecentAlertList, recent_alerts)]"
      "left_of status activity" "left_of status alert" "above activity alert"
      "\<forall>p \<in> {status, activity, alert}. inside p (page_area page)"
      "inside recent activity" "inside recent_alerts alert"
      "status = place_at (r_left page + s 10) (pl_y (content s page)) (status_group_width s page) (pl_h (content s page))"
    using groups_fit [OF assms(1-3)] by blast
  have boxes: "at OverviewStatusGroup = status" "at OverviewActivityGroup = activity" "at OverviewAlertGroup = alert"
      "at (EventList RecentList) = recent" "at (EventList RecentAlertList) = recent_alerts"
    by (simp_all add: assms(4,5) g(1,2) place_of_def)
  have "metric_grid at"
    using metrics_fit [OF assms(1-3) g(9)] by (simp add: metric_grid_def boxes(1) assms(6-8))
  then show "groups_placed at" using g(3-5,7,8) by (simp add: groups_placed_def boxes)
  show "all_inside at [OverviewStatusGroup, OverviewActivityGroup, OverviewAlertGroup] (page_area page)"
    using g(6) by (simp add: all_inside_def boxes)
  show "pl_y (at OverviewStatusGroup) = pl_y (content s page)" "pl_y (at OverviewActivityGroup) = pl_y (content s page)"
    using g(1) unfolding boxes by (auto simp: overview_groups_def Let_def place_at_def)
qed

lemma content_inside:
  assumes "scaled s d" and "s 820 \<le> r_right page - r_left page" and "s 360 \<le> r_bottom page - r_top page"
  shows "inside (content s page) (page_area page)"
  using scaled_at [OF assms(1), of 10] scaled_at [OF assms(1), of 20] scaled_at [OF assms(1), of 290] scaled_at [OF assms(1), of 820]
    scaled_dpi [OF assms(1)] content_bounds [OF assms(1,3)] assms(2,3)
  by (simp add: geometry page_area_def)


lemma plain_frame_muldiv: "muldiv_ok plain_frame"
proof -
  have "2 * \<bar>(2 * a * b + c) div (2 * c) * c - a * b\<bar> \<le> c" if "0 < c" for a b c :: int
  proof -
    define q where "q = (2 * a * b + c) div (2 * c)"
    define m where "m = (2 * a * b + c) mod (2 * c)"
    have "2 * c * q + m = 2 * a * b + c" unfolding q_def m_def by (rule mult_div_mod_eq)
    then have "2 * (q * c) + m = 2 * (a * b) + c" by (simp add: algebra_simps)
    moreover have "0 \<le> m" "m < 2 * c" using that by (simp_all add: m_def)
    ultimately show ?thesis unfolding q_def [symmetric] by (auto simp: abs_if)
  qed
  then show ?thesis by (simp add: muldiv_ok_def plain_frame_def)
qed


end
