(* ===== verification/TG_Utf8.thy ===== *)
theory TG_Utf8
  imports TG_Text
begin

text \<open>
  The UTF-8 encoding of a UTF-16 string, as the Unicode standard defines it and as Windows documents
  \<^verbatim>\<open>WideCharToMultiByte(CP_UTF8, 0, ...)\<close> (an unpaired surrogate becomes U+FFFD), and a decoder.
  The export files are shown to be the encoding of a document, and the decoder shows that the
  encoding loses nothing.
\<close>

section \<open>UTF-16 units and code points\<close>

definition high_surrogate :: "wchar \<Rightarrow> bool" where
  "high_surrogate c \<longleftrightarrow> 0xD800 \<le> unat c \<and> unat c < 0xDC00"

definition low_surrogate :: "wchar \<Rightarrow> bool" where
  "low_surrogate c \<longleftrightarrow> 0xDC00 \<le> unat c \<and> unat c < 0xE000"

definition surrogate :: "wchar \<Rightarrow> bool" where
  "surrogate c \<longleftrightarrow> high_surrogate c \<or> low_surrogate c"

fun code_points :: "wstr \<Rightarrow> nat list" where
  "code_points [] = []"
| "code_points [c] = [if surrogate c then 0xFFFD else unat c]"
| "code_points (c # d # cs) =
     (if high_surrogate c \<and> low_surrogate d
      then (0x10000 + (unat c - 0xD800) * 0x400 + (unat d - 0xDC00)) # code_points cs
      else (if surrogate c then 0xFFFD else unat c) # code_points (d # cs))"

definition utf8_char :: "nat \<Rightarrow> byte list" where
  "utf8_char n =
     map of_nat
       (if n < 0x80 then [n]
        else if n < 0x800 then [0xC0 + n div 64, 0x80 + n mod 64]
        else if n < 0x10000 then [0xE0 + n div 4096, 0x80 + n div 64 mod 64, 0x80 + n mod 64]
        else [0xF0 + n div 262144, 0x80 + n div 4096 mod 64, 0x80 + n div 64 mod 64, 0x80 + n mod 64])"

definition utf8 :: "wstr \<Rightarrow> byte list" where
  "utf8 s = concat (map utf8_char (code_points s))"

text \<open>Well-formed UTF-16: every surrogate is part of a pair.\<close>

fun well_paired :: "wstr \<Rightarrow> bool" where
  "well_paired [] = True"
| "well_paired [c] = (\<not> surrogate c)"
| "well_paired (c # d # cs) =
     (if high_surrogate c \<and> low_surrogate d then well_paired cs
      else \<not> surrogate c \<and> well_paired (d # cs))"

lemma utf8_Nil [simp]: "utf8 [] = []"
  by (simp add: utf8_def)

lemma utf8_char_not_Nil: "utf8_char n \<noteq> []"
  by (simp add: utf8_char_def)

lemma utf8_not_Nil: "s \<noteq> [] \<Longrightarrow> utf8 s \<noteq> []"
  by (induction s rule: code_points.induct) (auto simp: utf8_def utf8_char_not_Nil)

lemma utf8_length: "length (utf8 s) \<le> 3 * length s"
proof (induction s rule: code_points.induct)
  case (2 c)
  have "unat c < 2 ^ LENGTH(16)" by (rule unsigned_less)
  then show ?case by (simp add: utf8_def utf8_char_def)
next
  case (3 c d cs)
  have "unat c < 2 ^ LENGTH(16)" by (rule unsigned_less)
  then have "length (utf8_char (65536 + (unat c - 55296) * 1024 + (unat d - 56320))) \<le> 4"
      "length (utf8_char 65533) \<le> 3" "length (utf8_char (unat c)) \<le> 3"
    by (simp_all add: utf8_char_def)
  then show ?case using 3 by (auto simp: utf8_def)
qed simp

text \<open>No high surrogate ends the first part, or no low one starts the second: the parts encode apart.\<close>

lemma code_points_append:
  "(s = [] \<or> \<not> high_surrogate (last s)) \<or> (t = [] \<or> \<not> low_surrogate (hd t)) \<Longrightarrow>
   code_points (s @ t) = code_points s @ code_points t"
proof (induction s rule: code_points.induct)
  case (2 c)
  then show ?case by (cases t) (auto simp: surrogate_def)
qed (auto split: if_splits)

lemma utf8_append:
  "(s = [] \<or> \<not> high_surrogate (last s)) \<or> (t = [] \<or> \<not> low_surrogate (hd t)) \<Longrightarrow>
   utf8 (s @ t) = utf8 s @ utf8 t"
  by (simp add: utf8_def code_points_append)

lemma well_paired_append: "well_paired s \<Longrightarrow> well_paired t \<Longrightarrow> well_paired (s @ t)"
proof (induction s rule: well_paired.induct)
  case (2 c)
  then show ?case by (cases t) (auto simp: surrogate_def)
qed (auto split: if_splits)

lemma well_paired_last: "well_paired s \<Longrightarrow> s \<noteq> [] \<Longrightarrow> \<not> high_surrogate (last s)"
  by (induction s rule: well_paired.induct)
    (auto simp: surrogate_def high_surrogate_def low_surrogate_def split: if_splits)

lemma well_paired_plain: "\<forall>c \<in> set s. \<not> surrogate c \<Longrightarrow> well_paired s"
  by (induction s rule: well_paired.induct) (auto simp: surrogate_def)

section \<open>Decoding\<close>

definition continuation :: "byte \<Rightarrow> bool" where
  "continuation b \<longleftrightarrow> unat b div 64 = 2"

fun utf8_points :: "byte list \<Rightarrow> nat list option" where
  "utf8_points [] = Some []"
| "utf8_points (a # bs) =
     (if unat a < 0x80 then map_option (Cons (unat a)) (utf8_points bs)
      else case bs of
        b # cs \<Rightarrow>
          if unat a div 32 = 6 \<and> continuation b
          then map_option (Cons (unat a mod 32 * 64 + unat b mod 64)) (utf8_points cs)
          else (case cs of
            c # ds \<Rightarrow>
              if unat a div 16 = 14 \<and> continuation b \<and> continuation c
              then map_option (Cons (unat a mod 16 * 4096 + unat b mod 64 * 64 + unat c mod 64)) (utf8_points ds)
              else (case ds of
                d # es \<Rightarrow>
                  if unat a div 8 = 30 \<and> continuation b \<and> continuation c \<and> continuation d
                  then map_option (Cons (unat a mod 8 * 262144 + unat b mod 64 * 4096
                         + unat c mod 64 * 64 + unat d mod 64)) (utf8_points es)
                  else None
              | [] \<Rightarrow> None)
          | [] \<Rightarrow> None)
      | [] \<Rightarrow> None)"

definition utf16_units :: "nat \<Rightarrow> wstr" where
  "utf16_units n =
     (if n < 0x10000 then [of_nat n]
      else [of_nat (0xD800 + (n - 0x10000) div 0x400), of_nat (0xDC00 + (n - 0x10000) mod 0x400)])"

definition utf8_decode :: "byte list \<Rightarrow> wstr option" where
  "utf8_decode bs = map_option (\<lambda>ps. concat (map utf16_units ps)) (utf8_points bs)"

lemma unat_byte: "n < 256 \<Longrightarrow> unat (of_nat n :: byte) = n"
  by (simp add: unat_of_nat)

lemma code_points_bound: "p \<in> set (code_points s) \<Longrightarrow> p < 0x110000"
proof (induction s rule: code_points.induct)
  case (2 c)
  have "unat c < 2 ^ LENGTH(16)" by (rule unsigned_less)
  with 2 show ?case by (auto split: if_splits)
next
  case (3 c d cs)
  have "unat c < 2 ^ LENGTH(16)" by (rule unsigned_less)
  with 3 show ?case by (auto simp: high_surrogate_def low_surrogate_def split: if_splits)
qed simp

lemma lead_byte: "m < k \<Longrightarrow> a = k * j \<Longrightarrow> (a + m) div k = j \<and> (a + m) mod k = (m :: nat)"
  by simp

lemma base64_digits:
  "(n :: nat) div 4096 = n div 64 div 64" "n div 262144 = n div 64 div 64 div 64"
  by (simp_all flip: div_mult2_eq)

text \<open>A byte made of a marker and a payload of at most \<open>k\<close> values.\<close>

lemma marked_byte:
  assumes "m < k" and "a = k * j" and "a + k \<le> 256"
  shows "unat (of_nat (a + m) :: byte) div k = j" and "unat (of_nat (a + m) :: byte) mod k = m"
    and "unat (of_nat (a + m) :: byte) = a + m"
proof -
  have "unat (of_nat (a + m) :: byte) = a + m" using assms by (intro unat_byte) linarith
  then show "unat (of_nat (a + m) :: byte) div k = j" and "unat (of_nat (a + m) :: byte) mod k = m"
    and "unat (of_nat (a + m) :: byte) = a + m"
    using lead_byte [OF assms(1,2)] by (simp_all only: simp_thms)
qed

lemma continuation_byte:
  "continuation (of_nat (128 + m mod 64))" "unat (of_nat (128 + m mod 64) :: byte) mod 64 = m mod 64"
  using marked_byte [of "m mod 64" 64 128 2] by (simp_all add: continuation_def)

lemma utf8_points_char:
  assumes "n < 0x110000"
  shows "utf8_points (utf8_char n @ bs) = map_option (Cons n) (utf8_points bs)"
proof -
  have rest: "n div 64 = n div 64 div 64 * 64 + n div 64 mod 64" "n = n div 64 * 64 + n mod 64"
    "n div 64 div 64 = n div 64 div 64 div 64 * 64 + n div 64 div 64 mod 64"
    by (rule div_mult_mod_eq [symmetric])+
  consider "n < 0x80" | "0x80 \<le> n" "n < 0x800" | "0x800 \<le> n" "n < 0x10000" | "0x10000 \<le> n"
    by linarith
  then show ?thesis
  proof cases
    case 1
    then show ?thesis by (simp add: utf8_char_def unat_byte)
  next
    case 2
    note a = marked_byte [of "n div 64" 32 192 6]
    show ?thesis using 2 a rest(2)
      by (simp add: utf8_char_def continuation_byte del: of_nat_add of_nat_mult of_nat_numeral)
  next
    case 3
    note a = marked_byte [of "n div 4096" 16 224 14]
    have "(224 + n div 4096) div 32 = 7" using 3 lead_byte [of "n div 4096" 32 224 7] by simp
    moreover have "n div 4096 * 4096 + n div 64 mod 64 * 64 + n mod 64 = n"
      using rest unfolding base64_digits by linarith
    ultimately show ?thesis using 3 a
      by (simp add: utf8_char_def continuation_byte del: of_nat_add of_nat_mult of_nat_numeral)
  next
    case 4
    note a = marked_byte [of "n div 262144" 8 240 30]
    have "(240 + n div 262144) div 32 = 7" "(240 + n div 262144) div 16 = 15"
      using 4 assms lead_byte [of "16 + n div 262144" 32 224 7] lead_byte [of "n div 262144" 16 240 15]
      by simp_all
    moreover have "n div 262144 * 262144 + n div 4096 mod 64 * 4096 + n div 64 mod 64 * 64 + n mod 64 = n"
      using rest unfolding base64_digits by linarith
    ultimately show ?thesis using 4 assms a
      by (simp add: utf8_char_def continuation_byte del: of_nat_add of_nat_mult of_nat_numeral)
  qed
qed

lemma utf8_points_utf8: "utf8_points (utf8 s) = Some (code_points s)"
proof -
  have "\<forall>p \<in> set ps. p < 0x110000 \<Longrightarrow> utf8_points (concat (map utf8_char ps)) = Some ps" for ps
    by (induction ps) (simp_all add: utf8_points_char)
  then show ?thesis using code_points_bound [of _ s] by (simp add: utf8_def)
qed

lemma utf16_units_code_points: "well_paired s \<Longrightarrow> concat (map utf16_units (code_points s)) = s"
proof (induction s rule: well_paired.induct)
  case (2 c)
  have "unat c < 2 ^ LENGTH(16)" by (rule unsigned_less)
  with 2 show ?case by (simp add: utf16_units_def)
next
  case (3 c d cs)
  have c: "unat c < 65536" using unsigned_less [of c, where ?'a = nat] by simp
  show ?case
  proof (cases "high_surrogate c \<and> low_surrogate d")
    case True
    define x y where "x = unat c - 0xD800" and "y = unat d - 0xDC00"
    have xy: "unat c = 0xD800 + x" "unat d = 0xDC00 + y" "y < 0x400"
      using True by (auto simp: x_def y_def high_surrogate_def low_surrogate_def)
    then have "utf16_units (0x10000 + x * 0x400 + y) = [of_nat (unat c), of_nat (unat d)]"
      by (simp add: utf16_units_def)
    then show ?thesis using True 3 by (simp add: x_def y_def)
  next
    case False
    then have "\<not> surrogate c" "well_paired (d # cs)" using 3 by (auto split: if_splits)
    moreover from this have "concat (map utf16_units (code_points (d # cs))) = d # cs"
      using 3 False by blast
    moreover have "code_points (c # d # cs) = unat c # code_points (d # cs)"
      using False \<open>\<not> surrogate c\<close> by auto
    ultimately show ?thesis using c by (simp add: utf16_units_def [of "unat c"] del: code_points.simps)
  qed
qed simp

lemma utf8_roundtrip: "well_paired s \<Longrightarrow> utf8_decode (utf8 s) = Some s"
  by (simp add: utf8_decode_def utf8_points_utf8 utf16_units_code_points)

text \<open>An ASCII text is its own encoding.\<close>

lemma utf8_ascii:
  "\<forall>c \<in> set s. unat c < 128 \<Longrightarrow> utf8 s = map (\<lambda>c. of_nat (unat c)) s"
  by (induction s rule: code_points.induct)
    (auto simp: utf8_def utf8_char_def surrogate_def high_surrogate_def low_surrogate_def)

end
