(* ===== verification/TG_Logger.thy ===== *)
theory TG_Logger
  imports TG_Events TG_Utf8
begin

text \<open>
  \<^verbatim>\<open>src/logger.c\<close>: the diagnostics log. Its lock can only be entered while it is initialised and
  free, its file only be written and closed while the handle is open; anything else is \<open>None\<close>. A
  log line is composed in two bounded buffers and converted in a third.
\<close>

section \<open>State and platform\<close>

datatype lock_state = NoLock | FreeLock | HeldLock

text \<open>
  The globals, then the system: the open handles, the bytes of the log file, the lines the debugger
  was sent, and the number of platform calls. \<open>None\<close> is \<^verbatim>\<open>INVALID_HANDLE_VALUE\<close>.
\<close>

record logger_state =
  lg_lock :: lock_state
  lg_file :: "nat option"
  lg_ready :: bool
  lg_open :: "nat set"
  lg_data :: "byte list"
  lg_debug :: "wstr list"
  lg_clock :: nat

text \<open>
  \<^item> \<open>CreateDirectoryW\<close>: the result for the directory and the last error after it.
  \<^item> \<open>OpenLogFile\<close>: the handle of \<^verbatim>\<open>CreateFileW\<close> for appending, given the open ones.
  \<^item> \<open>GetLocalTime k\<close>, \<open>AppendFile k data\<close>: the answers of the \<open>k\<close>-th call; the latter is the number
    of bytes \<^verbatim>\<open>WriteFile\<close> wrote, 0 when it fails.
  \<^item> \<open>LineToUtf8 s n\<close>: \<^verbatim>\<open>WideCharToMultiByte\<close> for a source with its terminating NUL and a buffer of
    \<open>n\<close> bytes: the result and the buffer.
\<close>

record logger_api =
  CreateDirectoryW :: "bool \<times> dword"
  OpenLogFile :: "nat set \<Rightarrow> nat option"
  GetLocalTime :: "nat \<Rightarrow> systemtime"
  LineToUtf8 :: "wstr \<Rightarrow> nat \<Rightarrow> int \<times> byte list"
  AppendFile :: "nat \<Rightarrow> byte list \<Rightarrow> nat"

definition ERROR_ALREADY_EXISTS :: dword where "ERROR_ALREADY_EXISTS = 183"

text \<open>
  Documented: a new handle is not an open one, and the conversion is the UTF-8 encoding with its
  terminating NUL, or fails when the buffer is too small for it.
\<close>

definition logger_ok :: "logger_api \<Rightarrow> bool" where
  "logger_ok L \<longleftrightarrow>
     (\<forall>opened h. OpenLogFile L opened = Some h \<longrightarrow> h \<notin> opened) \<and>
     (\<forall>s n. if length (utf8 s) + 1 \<le> n
            then fst (LineToUtf8 L s n) = int (length (utf8 s) + 1) \<and>
                 take (length (utf8 s) + 1) (snd (LineToUtf8 L s n)) = utf8 s @ [0]
            else fst (LineToUtf8 L s n) = 0)"

text \<open>A disk that takes everything.\<close>

definition disk_ok :: "logger_api \<Rightarrow> bool" where
  "disk_ok L \<longleftrightarrow> (\<forall>k data. AppendFile L k data = length data)"

section \<open>The lock\<close>

definition EnterCriticalSection :: "logger_state \<Rightarrow> logger_state option" where
  "EnterCriticalSection st = (if lg_lock st = FreeLock then Some (st\<lparr>lg_lock := HeldLock\<rparr>) else None)"

definition LeaveCriticalSection :: "logger_state \<Rightarrow> logger_state option" where
  "LeaveCriticalSection st = (if lg_lock st = HeldLock then Some (st\<lparr>lg_lock := FreeLock\<rparr>) else None)"

definition DeleteCriticalSection :: "logger_state \<Rightarrow> logger_state option" where
  "DeleteCriticalSection st = (if lg_lock st = FreeLock then Some (st\<lparr>lg_lock := NoLock\<rparr>) else None)"

definition InitializeCriticalSection :: "logger_state \<Rightarrow> logger_state option" where
  "InitializeCriticalSection st = (if lg_lock st = NoLock then Some (st\<lparr>lg_lock := FreeLock\<rparr>) else None)"

section \<open>Operations\<close>

definition logger_initialize :: "logger_api \<Rightarrow> logger_state \<Rightarrow> (bool \<times> logger_state) option" where
  "logger_initialize L st = do {
     st0 \<leftarrow> InitializeCriticalSection st;
     (let st1 = st0\<lparr>lg_ready := True\<rparr>;
          (created, err) = CreateDirectoryW L;
          directory_ready = (created \<or> err = ERROR_ALREADY_EXISTS)
      in if \<not> directory_ready then Some (False, st1)
         else (let file = OpenLogFile L (lg_open st1) in
               Some (file \<noteq> None, st1\<lparr>lg_file := file, lg_open := lg_open st1 \<union> set_option file\<rparr>))) }"

definition logger_shutdown :: "logger_state \<Rightarrow> logger_state option" where
  "logger_shutdown st =
     (if \<not> lg_ready st then Some st
      else do {
        st1 \<leftarrow> EnterCriticalSection st;
        st2 \<leftarrow> (case lg_file st1 of
          None \<Rightarrow> Some st1
        | Some h \<Rightarrow> (if h \<in> lg_open st1 then Some (st1\<lparr>lg_open := lg_open st1 - {h}, lg_file := None\<rparr>) else None));
        st3 \<leftarrow> LeaveCriticalSection st2;
        st4 \<leftarrow> DeleteCriticalSection st3;
        Some (st4\<lparr>lg_ready := False\<rparr>) })"

definition log_format :: string where
  "log_format = ''[%02u:%02u:%02u] [%s] %s'' @ [CHR 0x0D, CHR 0x0A]"

text \<open>
  The line for a message. When \<^verbatim>\<open>StringCchVPrintfW\<close> fails the code stores a NUL at the end of the
  buffer, where the function has already put one.
\<close>

definition log_line :: "text_api \<Rightarrow> systemtime \<Rightarrow> wstr option \<Rightarrow> string \<Rightarrow> fmt_arg list \<Rightarrow> wstr" where
  "log_line W t level format args =
     (let message = cch_printf W 1536 format args in
      cch_printf W 1792 log_format
        [FNum (unat (wHour t)), FNum (unat (wMinute t)), FNum (unat (wSecond t)),
         FStr (case level of Some l \<Rightarrow> l | None \<Rightarrow> wide ''INFO''), FStr message])"

definition logger_write ::
  "text_api \<Rightarrow> logger_api \<Rightarrow> wstr option \<Rightarrow> (string \<times> fmt_arg list) option \<Rightarrow> logger_state \<Rightarrow> logger_state option" where
  "logger_write W L level format st =
     (case format of
        None \<Rightarrow> Some st
      | Some (fmt, args) \<Rightarrow>
          if \<not> lg_ready st then Some st
          else
            (let line = log_line W (GetLocalTime L (lg_clock st)) level fmt args;
                 st1 = st\<lparr>lg_clock := lg_clock st + 1, lg_debug := lg_debug st @ [line]\<rparr>
             in case lg_file st1 of
                  None \<Rightarrow> Some st1
                | Some h \<Rightarrow>
                    (let (utf8_length, utf8_line) = LineToUtf8 L line 7168 in
                     if utf8_length \<le> 1 then Some st1
                     else do {
                       st2 \<leftarrow> EnterCriticalSection st1;
                       st3 \<leftarrow> (if h \<in> lg_open st2
                         then (let data = take (nat (utf8_length - 1)) utf8_line;
                                   written = AppendFile L (lg_clock st2) data
                               in Some (st2\<lparr>lg_clock := lg_clock st2 + 1, lg_data := lg_data st2 @ take written data\<rparr>))
                         else None);
                       LeaveCriticalSection st3 })))"

section \<open>Lines are written whole\<close>

definition level_text :: "wstr option \<Rightarrow> wstr" where
  "level_text level = (case level of Some l \<Rightarrow> l | None \<Rightarrow> wide ''INFO'')"

text \<open>The line as it is meant, with as much of the message as its buffer takes.\<close>

definition whole_line :: "systemtime \<Rightarrow> wstr option \<Rightarrow> string \<times> fmt_arg list \<Rightarrow> wstr" where
  "whole_line t level f =
     wide ''['' @ zero_pad 2 (dec (unat (wHour t))) @ wide '':'' @ zero_pad 2 (dec (unat (wMinute t))) @ wide '':'' @
     zero_pad 2 (dec (unat (wSecond t))) @ wide ''] ['' @ level_text level @ wide ''] '' @
     take 1535 (vformat (fst f) (snd f)) @ [13, 10]"

lemma whole_line_length:
  assumes "length (level_text level) \<le> 200"
  shows "length (whole_line t level f) \<le> 1762"
proof -
  have two: "length (zero_pad 2 (dec (unat (x :: u16)))) \<le> 5" for x
    using port_length [of x] by (simp add: zero_pad_def)
  show ?thesis using two [of "wHour t"] two [of "wMinute t"] two [of "wSecond t"] assms by (simp add: whole_line_def)
qed

lemma whole_line_format:
  "vformat log_format [FNum (unat (wHour t)), FNum (unat (wMinute t)), FNum (unat (wSecond t)), FStr (level_text level),
     FStr (take 1535 (vformat (fst f) (snd f)))] = whole_line t level f"
  by (simp add: log_format_def whole_line_def conversion_spec_def wide_def wide_char_def)

lemma log_line_whole:
  assumes "strsafe_ok W" and "length (level_text level) \<le> 200"
  shows "log_line W t level fmt args = whole_line t level (fmt, args)"
  using whole_line_length [OF assms(2), of t "(fmt, args)"] assms(1) whole_line_format [of t level "(fmt, args)"]
  by (simp add: log_line_def plat_simps level_text_def [symmetric] del: vformat.simps)

text \<open>The lock is usable exactly while the logger is ready, and the file is open.\<close>

definition logger_inv :: "logger_state \<Rightarrow> bool" where
  "logger_inv st \<longleftrightarrow> (if lg_ready st then lg_lock st = FreeLock else lg_lock st = NoLock \<and> lg_file st = None) \<and>
     set_option (lg_file st) \<subseteq> lg_open st"

text \<open>What one message does to a ready logger.\<close>

definition logs :: "logger_api \<Rightarrow> wstr list \<Rightarrow> logger_state \<Rightarrow> logger_state \<Rightarrow> bool" where
  "logs L lines st st' \<longleftrightarrow> logger_inv st' \<and> lg_ready st' \<and> lg_file st' = lg_file st \<and> lg_open st' = lg_open st \<and>
     lg_debug st' = lg_debug st @ lines \<and>
     (disk_ok L \<longrightarrow> lg_data st' = lg_data st @ (if lg_file st = None then [] else concat (map utf8 lines)))"

lemma write_logs:
  assumes "strsafe_ok W" and "logger_ok L" and "logger_inv st" and "lg_ready st" and "length (level_text level) \<le> 200"
  shows "\<exists>st'. logger_write W L level (Some f) st = Some st' \<and> logs L [whole_line (GetLocalTime L (lg_clock st)) level f] st st'"
proof -
  obtain fmt args where f: "f = (fmt, args)" by (cases f)
  let ?t = "GetLocalTime L (lg_clock st)"
  let ?line = "whole_line ?t level f"
  have line: "log_line W ?t level fmt args = ?line" unfolding f by (rule log_line_whole [OF assms(1,5)])
  have free: "lg_lock st = FreeLock" using assms(3,4) by (simp add: logger_inv_def)
  show ?thesis
  proof (cases "lg_file st")
    case None
    then show ?thesis
      using assms(3,4) line by (simp add: logger_write_def logs_def logger_inv_def f)
  next
    case (Some h)
    then have "h \<in> lg_open st" using assms(3) by (simp add: logger_inv_def)
    have "length (utf8 ?line) \<le> 5286"
      using utf8_length [of ?line] whole_line_length [OF assms(5), of ?t f] by linarith
    moreover have "utf8 ?line \<noteq> []" by (rule utf8_not_Nil) (simp add: whole_line_def)
    moreover obtain n buf where buf: "LineToUtf8 L ?line 7168 = (n, buf)" by fastforce
    ultimately have u: "n = int (length (utf8 ?line) + 1)" "take (length (utf8 ?line) + 1) buf = utf8 ?line @ [0]" "utf8 ?line \<noteq> []"
      using assms(2) [unfolded logger_ok_def, THEN conjunct2, rule_format, of ?line 7168] by simp_all
    have "take (length (utf8 ?line)) buf = take (length (utf8 ?line)) (take (length (utf8 ?line) + 1) buf)" by simp
    then have data: "take (length (utf8 ?line)) buf = utf8 ?line" unfolding u(2) by simp
    show ?thesis
      using Some \<open>h \<in> lg_open st\<close> free line buf u(1,3) data assms(3,4)
      by (simp add: logger_write_def EnterCriticalSection_def LeaveCriticalSection_def logs_def logger_inv_def disk_ok_def f Let_def)
  qed
qed

section \<open>A run of the program\<close>

fun log_all :: "text_api \<Rightarrow> logger_api \<Rightarrow> (wstr option \<times> string \<times> fmt_arg list) list \<Rightarrow> logger_state \<Rightarrow> logger_state option" where
  "log_all W L [] st = Some st"
| "log_all W L ((level, f) # rest) st = do { st' \<leftarrow> logger_write W L level (Some f) st; log_all W L rest st' }"

text \<open>The lines for the messages, each with some time of day.\<close>

definition lines_for :: "(wstr option \<times> string \<times> fmt_arg list) list \<Rightarrow> wstr list \<Rightarrow> bool" where
  "lines_for messages lines \<longleftrightarrow> list_all2 (\<lambda>(level, f) line. \<exists>t. line = whole_line t level f) messages lines"

lemma logs_trans:
  assumes "logs L as a b" and "logs L bs b c"
  shows "logs L (as @ bs) a c"
  using assms by (auto simp: logs_def)

lemma all_logs:
  assumes "strsafe_ok W" and "logger_ok L" and "\<forall>m \<in> set messages. length (level_text (fst m)) \<le> 200"
    and "logger_inv st" and "lg_ready st"
  shows "\<exists>st' lines. log_all W L messages st = Some st' \<and> logs L lines st st' \<and> lines_for messages lines"
  using assms(3-5)
proof (induction messages arbitrary: st)
  case Nil
  then show ?case by (auto simp: lines_for_def logs_def)
next
  case (Cons m messages)
  obtain level f where m: "m = (level, f)" by (cases m)
  obtain s1 where s1: "logger_write W L level (Some f) st = Some s1"
      "logs L [whole_line (GetLocalTime L (lg_clock st)) level f] st s1"
    using write_logs [OF assms(1,2) Cons.prems(2,3)] Cons.prems(1) m by fastforce
  then obtain st' lines where s2: "log_all W L messages s1 = Some st'" "logs L lines s1 st'" "lines_for messages lines"
    using Cons.IH [of s1] Cons.prems(1) by (auto simp: logs_def)
  have "lines_for (m # messages) (whole_line (GetLocalTime L (lg_clock st)) level f # lines)"
    using s2(3) m by (auto simp: lines_for_def)
  then show ?case using s1(1) s2(1) logs_trans [OF s1(2) s2(2)] m by fastforce
qed

lemma shutdown_closes:
  assumes "logger_inv st" and "lg_ready st"
  shows "\<exists>st'. logger_shutdown st = Some st' \<and> lg_lock st' = NoLock \<and> lg_file st' = None \<and> \<not> lg_ready st' \<and>
    lg_open st' = lg_open st - set_option (lg_file st) \<and> lg_debug st' = lg_debug st \<and> lg_data st' = lg_data st"
  using assms
  by (cases "lg_file st") (simp_all add: logger_shutdown_def EnterCriticalSection_def LeaveCriticalSection_def
      DeleteCriticalSection_def logger_inv_def)

text \<open>
  \<^bold>\<open>C36\<close>. Every message logged between \<^verbatim>\<open>logger_initialize\<close> and \<^verbatim>\<open>logger_shutdown\<close> becomes one whole
  line, with its time, its level, as much of the message as its buffer holds and the line end:
  neither the line buffer nor the conversion buffer cuts it off. The debugger gets every line; if the
  file could be opened and the disk takes everything, the file has grown by exactly the UTF-8 of the
  lines. The lock is only used while it is valid, and lock and handle are released, whether or not
  the directory and the file could be created.
\<close>

theorem log_file_complete:
  assumes "strsafe_ok W" and "logger_ok L" and "\<forall>m \<in> set messages. length (level_text (fst m)) \<le> 200"
    and "lg_lock st = NoLock" and "\<not> lg_ready st" and "lg_file st = None"
  shows "\<exists>opened s1 s2 s3 lines. logger_initialize L st = Some (opened, s1) \<and> log_all W L messages s1 = Some s2 \<and>
    logger_shutdown s2 = Some s3 \<and> lg_lock s3 = NoLock \<and> lg_file s3 = None \<and> \<not> lg_ready s3 \<and> lg_open s3 = lg_open st \<and>
    lines_for messages lines \<and> lg_debug s3 = lg_debug st @ lines \<and>
    (disk_ok L \<longrightarrow> lg_data s3 = lg_data st @ (if opened then concat (map utf8 lines) else []))"
proof -
  have "logger_initialize L st \<noteq> None"
    using assms(4) by (simp add: logger_initialize_def InitializeCriticalSection_def Let_def split: prod.split del: not_None_eq)
  then obtain opened s1 where s1: "logger_initialize L st = Some (opened, s1)" by auto
  then have s1': "logger_inv s1" "lg_ready s1" "opened = (lg_file s1 \<noteq> None)" "lg_debug s1 = lg_debug st" "lg_data s1 = lg_data st"
      "lg_open s1 - set_option (lg_file s1) = lg_open st"
    using assms(2,4-6)
    by (auto simp: logger_initialize_def InitializeCriticalSection_def logger_inv_def logger_ok_def Let_def
        split: prod.splits if_splits option.splits)
  obtain s2 lines where s2: "log_all W L messages s1 = Some s2" "logs L lines s1 s2" "lines_for messages lines"
    using all_logs [OF assms(1-3) s1'(1,2)] by blast
  then have "logger_inv s2" "lg_ready s2" by (simp_all add: logs_def)
  from shutdown_closes [OF this] show ?thesis using s1 s1' s2 by (auto simp: logs_def)
qed

definition plain_logger :: logger_api where
  "plain_logger = \<lparr>CreateDirectoryW = (False, ERROR_ALREADY_EXISTS), OpenLogFile = (\<lambda>opened. if 7 \<in> opened then None else Some 7),
     GetLocalTime = (\<lambda>k. zero_time), LineToUtf8 = (\<lambda>s n. if length (utf8 s) + 1 \<le> n then (int (length (utf8 s) + 1), utf8 s @ [0]) else (0, [])),
     AppendFile = (\<lambda>k. length)\<rparr>"

definition fresh_logger :: logger_state where
  "fresh_logger = \<lparr>lg_lock = NoLock, lg_file = None, lg_ready = False, lg_open = {}, lg_data = [], lg_debug = [], lg_clock = 0\<rparr>"

lemma plain_logger_ok: "logger_ok plain_logger" "disk_ok plain_logger"
  by (auto simp: logger_ok_def disk_ok_def plain_logger_def)

theorem log_file_complete_witness:
  "\<exists>s1 s2 s3 lines. logger_initialize plain_logger fresh_logger = Some (True, s1) \<and>
    log_all ascii_text plain_logger [(Some (wide ''INFO''), ''TraceGlass stopped with result %d'', [FInt 0])] s1 = Some s2 \<and>
    logger_shutdown s2 = Some s3 \<and> length lines = 1 \<and> lg_data s3 = utf8 (hd lines)"
proof -
  let ?messages = "[(Some (wide ''INFO''), ''TraceGlass stopped with result %d'', [FInt 0])]"
  have fresh: "lg_lock fresh_logger = NoLock" "\<not> lg_ready fresh_logger" "lg_file fresh_logger = None" "lg_data fresh_logger = []"
    by (simp_all add: fresh_logger_def)
  have level: "\<forall>m \<in> set ?messages. length (level_text (fst m)) \<le> 200" by (simp add: level_text_def)
  obtain opened s1 s2 s3 lines where s: "logger_initialize plain_logger fresh_logger = Some (opened, s1)"
      "log_all ascii_text plain_logger ?messages s1 = Some s2" "logger_shutdown s2 = Some s3"
      "lines_for ?messages lines" "lg_data s3 = lg_data fresh_logger @ (if opened then concat (map utf8 lines) else [])"
    using log_file_complete [OF ascii_text_strsafe plain_logger_ok(1) level fresh(1-3)] plain_logger_ok(2) by blast
  moreover have "opened"
    using s(1) by (simp add: logger_initialize_def InitializeCriticalSection_def plain_logger_def fresh_logger_def)
  moreover obtain line where "lines = [line]" using s(4) by (auto simp: lines_for_def list_all2_Cons1)
  ultimately have "length lines = 1 \<and> lg_data s3 = utf8 (hd lines)" using fresh(4) by simp
  then show ?thesis using s(1) [unfolded eqTrueI [OF \<open>opened\<close>]] s(2,3) by blast
qed

end
