(* ===== verification/TG_Json.thy ===== *)
theory TG_Json
  imports TG_Events TG_Utf8
begin

text \<open>
  The JSON side of the export as a specification: the text a string, an event and a log are
  written as, and a JSON reader written from RFC 8259 (strings with their escapes, numbers, objects,
  arrays, white space) that reads the texts back.
\<close>

section \<open>Characters\<close>

definition QUOTE :: wchar where "QUOTE = 34"
definition COMMA :: wchar where "COMMA = 44"
definition COLON :: wchar where "COLON = 58"
definition crlf :: wstr where "crlf = [13, 10]"

lemmas json_chars = QUOTE_def COMMA_def COLON_def crlf_def W_BACKSLASH_def

text \<open>The escape letter of a character that has a two-character escape.\<close>

definition short_escape :: "wchar \<Rightarrow> wchar option" where
  "short_escape c =
     (if c = 34 then Some 34 else if c = 92 then Some 92 else if c = 8 then Some 98
      else if c = 12 then Some 102 else if c = 10 then Some 110 else if c = 13 then Some 114
      else if c = 9 then Some 116 else None)"

definition json_escape :: "wchar \<Rightarrow> wstr" where
  "json_escape c =
     (case short_escape c of
        Some e \<Rightarrow> [W_BACKSLASH, e]
      | None \<Rightarrow> if c < 0x20 then W_BACKSLASH # 117 # zero_pad 4 (hex (unat c)) else [c])"

definition json_quote :: "wstr \<Rightarrow> wstr" where
  "json_quote s = QUOTE # concat (map json_escape s) @ [QUOTE]"

text \<open>Four hexadecimal digits for a control character.\<close>

definition hex_digit :: "nat \<Rightarrow> wchar" where
  "hex_digit d = of_nat (if d < 10 then 48 + d else 87 + d)"

lemma control_cases: "(c :: wchar) < 0x20 \<Longrightarrow> unat c \<in> set [0..<32]"
  by (simp add: word_less_nat_alt)

lemma hex_single: "n < 16 \<Longrightarrow> hex n = [hex_digit n]"
  by (subst hex.simps) (simp add: hex_digit_def)

lemma hex_double: "16 \<le> n \<Longrightarrow> n < 256 \<Longrightarrow> hex n = [hex_digit (n div 16), hex_digit (n mod 16)]"
proof -
  assume n: "16 \<le> n" "n < 256"
  then have "\<not> n < 16" by simp
  then have "hex n = hex (n div 16) @ [hex_digit (n mod 16)]"
    unfolding hex_digit_def by (subst hex.simps) (simp only: if_False)
  moreover have "n div 16 < 16" using n(2) by presburger
  ultimately show ?thesis by (simp add: hex_single)
qed

lemma control_hex: "n < 32 \<Longrightarrow> zero_pad 4 (hex n) = [48, 48, hex_digit (n div 16), hex_digit (n mod 16)]"
  by (cases "n < 16") (simp_all add: zero_pad_def hex_single hex_double numeral_3_eq_3 numeral_2_eq_2 hex_digit_def [of 0])

lemma json_escape_length: "length (json_escape c) \<le> 6"
  using control_cases [of c] control_hex [of "unat c"]
  by (auto simp: json_escape_def split: option.splits)

lemma json_escape_no_nul: "c \<noteq> 0 \<Longrightarrow> 0 \<notin> set (json_escape c)"
  using hex_no_nul [of "unat c"]
  by (auto simp: json_escape_def short_escape_def zero_pad_def W_BACKSLASH_def split: if_splits)

section \<open>Documents\<close>

datatype json = JStr wstr | JNum nat | JObj "(wstr \<times> json) list" | JArr "json list"

definition timestamp_text :: "systemtime \<Rightarrow> wstr" where
  "timestamp_text t =
     vformat ''%04u-%02u-%02uT%02u:%02u:%02u.%03u''
       [FNum (unat (wYear t)), FNum (unat (wMonth t)), FNum (unat (wDay t)),
        FNum (unat (wHour t)), FNum (unat (wMinute t)), FNum (unat (wSecond t)),
        FNum (unat (wMilliseconds t))]"

text \<open>What the export says of an event: names and values in order.\<close>

definition event_fields :: "TraceGlassEvent \<Rightarrow> (wstr \<times> json) list" where
  "event_fields e =
     [(wide ''timestamp'', JStr (timestamp_text (ev_timestamp e))),
      (wide ''event_type'', JStr (event_export_name (ev_type e))),
      (wide ''process_name'', JStr (ev_process_name e)),
      (wide ''pid'', JNum (unat (pid (ev_process e)))),
      (wide ''parent_pid'', JNum (unat (pid (ev_parent e)))),
      (wide ''details'', JStr (ev_details e)),
      (wide ''protocol'', JStr (ev_protocol e)),
      (wide ''local_address'', JStr (ev_local_address e)),
      (wide ''local_port'', JNum (unat (ev_local_port e))),
      (wide ''remote_address'', JStr (ev_remote_address e)),
      (wide ''remote_port'', JNum (unat (ev_remote_port e))),
      (wide ''state'', JStr (ev_network_state e)),
      (wide ''severity'', JStr (alert_severity_name (ev_severity e))),
      (wide ''rule'', JStr (ev_rule_name e))]"

definition scalar_text :: "json \<Rightarrow> wstr" where
  "scalar_text v = (case v of JStr s \<Rightarrow> json_quote s | JNum n \<Rightarrow> dec n | _ \<Rightarrow> [])"

definition comma_unless :: "bool \<Rightarrow> wstr" where
  "comma_unless final = (if final then [] else [COMMA])"

definition member_text :: "wstr \<Rightarrow> json \<Rightarrow> bool \<Rightarrow> wstr" where
  "member_text name v final =
     wide ''    '' @ [QUOTE] @ name @ [QUOTE] @ wide '': '' @ scalar_text v @ comma_unless final @ crlf"

fun members_text :: "(wstr \<times> json) list \<Rightarrow> wstr" where
  "members_text [] = []"
| "members_text ((name, v) # ms) = member_text name v (ms = []) @ members_text ms"

definition object_text :: "(wstr \<times> json) list \<Rightarrow> bool \<Rightarrow> wstr" where
  "object_text ms final = wide ''  {'' @ crlf @ members_text ms @ wide ''  }'' @ comma_unless final @ crlf"

fun objects_text :: "(wstr \<times> json) list list \<Rightarrow> wstr" where
  "objects_text [] = []"
| "objects_text (m # ms) = object_text m (ms = []) @ objects_text ms"

definition json_document :: "TraceGlassEvent list \<Rightarrow> wstr" where
  "json_document es = 91 # crlf @ objects_text (map event_fields es) @ 93 # crlf"

section \<open>A reader\<close>

definition json_space :: "wchar \<Rightarrow> bool" where
  "json_space c \<longleftrightarrow> c = 32 \<or> c = 9 \<or> c = 10 \<or> c = 13"

definition skip_ws :: "wstr \<Rightarrow> wstr" where
  "skip_ws s = dropWhile json_space s"

definition hex_value :: "wchar \<Rightarrow> nat option" where
  "hex_value c =
     (if is_digit c then Some (unat c - 48)
      else if 97 \<le> c \<and> c \<le> 102 then Some (unat c - 87)
      else if 65 \<le> c \<and> c \<le> 70 then Some (unat c - 55) else None)"

definition unescape :: "wchar \<Rightarrow> wchar option" where
  "unescape e =
     (if e = 34 \<or> e = 92 \<or> e = 47 then Some e else if e = 98 then Some 8 else if e = 102 then Some 12
      else if e = 110 then Some 10 else if e = 114 then Some 13 else if e = 116 then Some 9 else None)"

text \<open>The rest of a string after its opening quote: the characters, and what follows the closing one.\<close>

fun string_body :: "wstr \<Rightarrow> (wstr \<times> wstr) option" where
  "string_body [] = None"
| "string_body (c # cs) =
     (if c = 34 then Some ([], cs)
      else if c = 92 then
        (case cs of
           e # d1 # d2 # d3 # d4 # r \<Rightarrow>
             if e = 117 then
               (case (hex_value d1, hex_value d2, hex_value d3, hex_value d4) of
                  (Some v1, Some v2, Some v3, Some v4) \<Rightarrow>
                    map_option (\<lambda>(s, rest). (of_nat (v1 * 4096 + v2 * 256 + v3 * 16 + v4) # s, rest)) (string_body r)
                | _ \<Rightarrow> None)
             else (case unescape e of None \<Rightarrow> None
                   | Some v \<Rightarrow> map_option (\<lambda>(s, rest). (v # s, rest)) (string_body (d1 # d2 # d3 # d4 # r)))
         | e # r \<Rightarrow>
             (case unescape e of None \<Rightarrow> None
              | Some v \<Rightarrow> map_option (\<lambda>(s, rest). (v # s, rest)) (string_body r))
         | [] \<Rightarrow> None)
      else if c < 0x20 then None
      else map_option (\<lambda>(s, rest). (c # s, rest)) (string_body cs))"

text \<open>Values, members and elements; the fuel bounds nesting and length.\<close>

fun read_value :: "nat \<Rightarrow> wstr \<Rightarrow> (json \<times> wstr) option"
  and read_members :: "nat \<Rightarrow> wstr \<Rightarrow> ((wstr \<times> json) list \<times> wstr) option"
  and read_elements :: "nat \<Rightarrow> wstr \<Rightarrow> (json list \<times> wstr) option" where
  "read_value 0 s = None"
| "read_value (Suc k) s =
     (case skip_ws s of
        [] \<Rightarrow> None
      | c # r \<Rightarrow>
          if c = 34 then map_option (\<lambda>(t, rest). (JStr t, rest)) (string_body r)
          else if is_digit c
          then Some (JNum (undec (takeWhile is_digit (c # r))), dropWhile is_digit (c # r))
          else if c = 123 then
            (if take 1 (skip_ws r) = [125] then Some (JObj [], drop 1 (skip_ws r))
             else map_option (\<lambda>(ms, rest). (JObj ms, rest)) (read_members k r))
          else if c = 91 then
            (if take 1 (skip_ws r) = [93] then Some (JArr [], drop 1 (skip_ws r))
             else map_option (\<lambda>(vs, rest). (JArr vs, rest)) (read_elements k r))
          else None)"
| "read_members 0 s = None"
| "read_members (Suc k) s =
     (if take 1 (skip_ws s) \<noteq> [34] then None
      else case string_body (drop 1 (skip_ws s)) of
        None \<Rightarrow> None
      | Some (name, r1) \<Rightarrow>
          if take 1 (skip_ws r1) \<noteq> [58] then None
          else (case read_value k (drop 1 (skip_ws r1)) of
            None \<Rightarrow> None
          | Some (v, r2) \<Rightarrow>
              if take 1 (skip_ws r2) = [125] then Some ([(name, v)], drop 1 (skip_ws r2))
              else if take 1 (skip_ws r2) = [44]
              then map_option (\<lambda>(ms, rest). ((name, v) # ms, rest)) (read_members k (drop 1 (skip_ws r2)))
              else None))"
| "read_elements 0 s = None"
| "read_elements (Suc k) s =
     (case read_value k s of
        None \<Rightarrow> None
      | Some (v, r) \<Rightarrow>
          if take 1 (skip_ws r) = [93] then Some ([v], drop 1 (skip_ws r))
          else if take 1 (skip_ws r) = [44]
          then map_option (\<lambda>(vs, rest). (v # vs, rest)) (read_elements k (drop 1 (skip_ws r)))
          else None)"

definition json_parse :: "wstr \<Rightarrow> json option" where
  "json_parse s =
     (case read_value (Suc (length s)) s of
        Some (v, rest) \<Rightarrow> if skip_ws rest = [] then Some v else None
      | None \<Rightarrow> None)"

section \<open>Reading strings back\<close>

lemma hex_value_digit: "d < 16 \<Longrightarrow> hex_value (hex_digit d) = Some d"
proof -
  assume "d < 16"
  then have "d = 0 \<or> d = 1 \<or> d = 2 \<or> d = 3 \<or> d = 4 \<or> d = 5 \<or> d = 6 \<or> d = 7 \<or> d = 8 \<or> d = 9
      \<or> d = 10 \<or> d = 11 \<or> d = 12 \<or> d = 13 \<or> d = 14 \<or> d = 15" by presburger
  then show ?thesis by (elim disjE) (simp_all add: hex_value_def hex_digit_def is_digit_def)
qed

lemma string_body_escape:
  "string_body (json_escape c @ s) = map_option (\<lambda>(t, rest). (c # t, rest)) (string_body s)"
proof (cases "short_escape c")
  case (Some e)
  have "unescape e = Some c" "e \<noteq> 117"
    using Some by (auto simp: short_escape_def unescape_def split: if_splits)
  moreover have "json_escape c = [92, e]"
    using Some by (simp add: json_escape_def W_BACKSLASH_def)
  ultimately show ?thesis by (auto split: list.splits)
next
  case None
  then have plain: "c \<noteq> 34" "c \<noteq> 92" by (auto simp: short_escape_def)
  show ?thesis
  proof (cases "c < 0x20")
    case True
    let ?n = "unat c"
    have n: "?n < 32" using True by (simp add: word_less_nat_alt)
    then have "json_escape c = [92, 117, 48, 48, hex_digit (?n div 16), hex_digit (?n mod 16)]"
      using None True control_hex [OF n] by (simp add: json_escape_def W_BACKSLASH_def)
    moreover have "hex_value 48 = Some 0" by (simp add: hex_value_def is_digit_def)
    moreover have "hex_value (hex_digit (?n div 16)) = Some (?n div 16)"
        "hex_value (hex_digit (?n mod 16)) = Some (?n mod 16)"
      using n by (simp_all add: hex_value_digit less_mult_imp_div_less)
    moreover have "of_nat (?n div 16 * 16 + ?n mod 16) = c"
      by (simp only: div_mult_mod_eq) simp
    ultimately show ?thesis by (simp del: of_nat_add of_nat_mult)
  next
    case False
    then show ?thesis using None plain by (simp add: json_escape_def)
  qed
qed

lemma string_body_quote: "string_body (concat (map json_escape s) @ QUOTE # rest) = Some (s, rest)"
  by (induction s) (simp_all add: string_body_escape QUOTE_def)

section \<open>Reading documents back\<close>

definition plain_name :: "wstr \<Rightarrow> bool" where
  "plain_name n \<longleftrightarrow> (\<forall>c \<in> set n. c \<noteq> 34 \<and> c \<noteq> 92 \<and> \<not> c < 0x20)"

definition scalar :: "json \<Rightarrow> bool" where
  "scalar v \<longleftrightarrow> (case v of JStr _ \<Rightarrow> True | JNum _ \<Rightarrow> True | _ \<Rightarrow> False)"

definition fields_ok :: "(wstr \<times> json) list \<Rightarrow> bool" where
  "fields_ok ms \<longleftrightarrow> (\<forall>(n, v) \<in> set ms. plain_name n \<and> scalar v)"

lemma string_body_name: "plain_name n \<Longrightarrow> string_body (n @ 34 # rest) = Some (n, rest)"
  by (induction n) (auto simp: plain_name_def)

lemma skip_ws_simps [simp]:
  "skip_ws (c # s) = (if json_space c then skip_ws s else c # s)"
  "skip_ws [] = []"
  by (simp_all add: skip_ws_def)

lemma json_space_chars [simp]:
  "json_space 32" "json_space 13" "json_space 10" "\<not> json_space 34" "\<not> json_space 44" "\<not> json_space 58"
  "\<not> json_space 91" "\<not> json_space 93" "\<not> json_space 123" "\<not> json_space 125"
  by (simp_all add: json_space_def)

lemma digit_not_space: "is_digit c \<Longrightarrow> \<not> json_space c \<and> c \<noteq> 34"
  by (auto simp: is_digit_def json_space_def)

lemma takeWhile_digits:
  assumes "\<forall>c \<in> set ds. is_digit c" and "rest = [] \<or> \<not> is_digit (hd rest)"
  shows "takeWhile is_digit (ds @ rest) = ds" and "dropWhile is_digit (ds @ rest) = rest"
  using assms by (auto simp: takeWhile_append dropWhile_append) (cases rest; simp)+

lemma read_scalar:
  assumes "scalar v" and "rest \<noteq> []" and "\<not> is_digit (hd rest)"
  shows "read_value (Suc k) (32 # scalar_text v @ rest) = Some (v, rest)"
proof (cases v)
  case (JStr s)
  then show ?thesis
    using string_body_quote [of s rest] by (simp add: scalar_text_def json_quote_def QUOTE_def)
next
  case (JNum n)
  obtain d ds where d: "dec n = d # ds" by (cases "dec n") auto
  have digits: "\<forall>c \<in> set (dec n). is_digit c" by (simp add: dec_digits)
  then have "is_digit d" by (simp add: d)
  note tw = takeWhile_digits [of "dec n" rest, OF digits disjI2, OF assms(3)]
  have "read_value (Suc k) (32 # scalar_text v @ rest)
      = Some (JNum (undec (takeWhile is_digit (dec n @ rest))), dropWhile is_digit (dec n @ rest))"
    using JNum d \<open>is_digit d\<close> digit_not_space [of d] by (simp add: scalar_text_def)
  then show ?thesis by (simp only: tw undec_dec JNum)
qed (use assms(1) in \<open>simp_all add: scalar_def\<close>)

text \<open>One member: the name, the colon, the value, up to what follows the value.\<close>

lemma not_digits [simp]: "\<not> is_digit 44" "\<not> is_digit 13" "\<not> is_digit 123" "\<not> is_digit 91"
  by (simp_all add: is_digit_def)

lemma read_member:
  assumes "plain_name n" and "scalar v"
  shows "read_members (Suc (Suc k)) (member_text n v final @ t) =
     (let r2 = comma_unless final @ crlf @ t in
      if take 1 (skip_ws r2) = [125] then Some ([(n, v)], drop 1 (skip_ws r2))
      else if take 1 (skip_ws r2) = [44]
      then map_option (\<lambda>(ms, rest). ((n, v) # ms, rest)) (read_members (Suc k) (drop 1 (skip_ws r2)))
      else None)"
proof -
  have "hd (comma_unless final @ crlf @ t) = 44 \<or> hd (comma_unless final @ crlf @ t) = 13"
    by (simp add: comma_unless_def crlf_def COMMA_def)
  then have tail: "comma_unless final @ crlf @ t \<noteq> []" "\<not> is_digit (hd (comma_unless final @ crlf @ t))"
    by (auto simp: crlf_def is_digit_def)
  have "read_value (Suc k) (32 # scalar_text v @ comma_unless final @ crlf @ t)
      = Some (v, comma_unless final @ crlf @ t)"
    using read_scalar [OF assms(2) tail] .
  moreover have "string_body (n @ 34 # 58 # 32 # scalar_text v @ comma_unless final @ crlf @ t)
      = Some (n, 58 # 32 # scalar_text v @ comma_unless final @ crlf @ t)"
    using assms(1) by (rule string_body_name)
  moreover have "member_text n v final @ t
      = 32 # 32 # 32 # 32 # 34 # n @ 34 # 58 # 32 # scalar_text v @ comma_unless final @ crlf @ t"
    by (simp add: member_text_def wide_def wide_char_def QUOTE_def)
  ultimately show ?thesis by (simp add: Let_def)
qed

lemma read_members_text:
  "ms \<noteq> [] \<Longrightarrow> fields_ok ms \<Longrightarrow> length ms < k \<Longrightarrow>
   read_members k (members_text ms @ 32 # 32 # 125 # rest) = Some (ms, rest)"
proof (induction ms arbitrary: k)
  case (Cons m ms)
  obtain n v where m: "m = (n, v)" by fastforce
  with Cons.prems have ok: "plain_name n" "scalar v" "fields_ok ms" by (auto simp: fields_ok_def)
  obtain j where k: "k = Suc (Suc j)" using Cons.prems(3) by (cases k; cases "k - 1") auto
  show ?case
  proof (cases "ms = []")
    case True
    then show ?thesis
      using read_member [OF ok(1,2), of j True "32 # 32 # 125 # rest"]
      by (simp add: m k comma_unless_def crlf_def)
  next
    case False
    then have "read_members (Suc j) (members_text ms @ 32 # 32 # 125 # rest) = Some (ms, rest)"
      using Cons.IH [OF False ok(3), of "Suc j"] Cons.prems(3) k by simp
    moreover have "read_members (Suc j) (13 # 10 # s) = read_members (Suc j) s" for s by simp
    ultimately show ?thesis
      using False read_member [OF ok(1,2), of j False "members_text ms @ 32 # 32 # 125 # rest"]
      by (simp add: m k comma_unless_def crlf_def COMMA_def del: read_members.simps)
  qed
qed simp

lemma read_members_space: "read_members k (13 # 10 # s) = read_members k s"
  by (cases k) simp_all

lemma read_elements_space: "read_elements (Suc (Suc k)) (13 # 10 # s) = read_elements (Suc (Suc k)) s"
  by simp

lemma members_text_start: "ms \<noteq> [] \<Longrightarrow> take 1 (skip_ws (members_text ms @ t)) = [34]"
  by (cases ms) (auto simp: member_text_def wide_def wide_char_def QUOTE_def)

lemma read_object:
  assumes "ms \<noteq> []" and "fields_ok ms" and "length ms < k"
  shows "read_value (Suc k) (object_text ms final @ t) = Some (JObj ms, comma_unless final @ crlf @ t)"
proof -
  have o: "object_text ms final @ t
      = 32 # 32 # 123 # 13 # 10 # members_text ms @ 32 # 32 # 125 # comma_unless final @ crlf @ t"
    by (simp add: object_text_def wide_def wide_char_def crlf_def)
  have "read_members k (13 # 10 # members_text ms @ 32 # 32 # 125 # comma_unless final @ crlf @ t)
      = Some (ms, comma_unless final @ crlf @ t)"
    using read_members_text [OF assms] by (simp add: read_members_space del: read_members.simps)
  then show ?thesis
    using members_text_start [OF assms(1)] unfolding o by (simp del: read_members.simps)
qed

lemma read_elements_text:
  "mss \<noteq> [] \<Longrightarrow> \<forall>ms \<in> set mss. ms \<noteq> [] \<and> fields_ok ms \<and> length ms + length mss + 1 < k \<Longrightarrow>
   read_elements k (objects_text mss @ 93 # rest) = Some (map JObj mss, rest)"
proof (induction mss arbitrary: k)
  case (Cons ms mss)
  then have ms: "ms \<noteq> []" "fields_ok ms" "length ms + length (ms # mss) + 1 < k" by auto
  then obtain j where k: "k = Suc (Suc j)" by (cases k; cases "k - 1") auto
  have v: "read_value (Suc j) (object_text ms final @ t) = Some (JObj ms, comma_unless final @ crlf @ t)" for final t
    by (rule read_object) (use ms k in auto)
  show ?case
  proof (cases "mss = []")
    case True
    then show ?thesis using v [of True "93 # rest"]
      by (simp add: k comma_unless_def crlf_def del: read_value.simps)
  next
    case False
    have "read_elements (Suc j) (objects_text mss @ 93 # rest) = Some (map JObj mss, rest)"
      by (rule Cons.IH [OF False]) (use Cons.prems k in auto)
    moreover have "read_elements (Suc j) (13 # 10 # s) = read_elements (Suc j) s" for s
      by (cases j) simp_all
    ultimately show ?thesis
      using False v [of False "objects_text mss @ 93 # rest"]
      by (simp add: k comma_unless_def crlf_def COMMA_def del: read_value.simps read_elements.simps(2)
          add: read_elements.simps(2) [of "Suc j"])
  qed
qed simp

lemma event_fields_ok: "fields_ok (event_fields e)" "event_fields e \<noteq> []" "length (event_fields e) = 14"
  by (simp_all add: fields_ok_def event_fields_def scalar_def plain_name_def wide_def wide_char_def)

lemma objects_text_length: "\<forall>ms \<in> set mss. length ms = 14 \<Longrightarrow> mss \<noteq> [] \<Longrightarrow> length mss + 20 \<le> length (objects_text mss)"
proof (induction mss)
  case (Cons ms mss)
  have m: "7 * length l \<le> length (members_text l)" for l
    by (induction l rule: members_text.induct) (auto simp: member_text_def)
  have "98 \<le> length (object_text ms final)" for final
    using m [of ms] Cons.prems by (simp add: object_text_def)
  from this [of "mss = []"] show ?case
    using Cons by (cases "mss = []") auto
qed simp

text \<open>The document reads back as the array of the events' objects.\<close>

lemma json_parse_document: "json_parse (json_document es) = Some (JArr (map (JObj \<circ> event_fields) es))"
proof (cases "es = []")
  case True
  then show ?thesis
    by (simp add: json_parse_def json_document_def crlf_def)
next
  case False
  let ?mss = "map event_fields es"
  have len: "length ?mss + 20 \<le> length (objects_text ?mss)"
    by (rule objects_text_length) (use False event_fields_ok in auto)
  obtain k where k: "length (json_document es) = k" "length ?mss + 20 \<le> k"
    using len by (simp add: json_document_def)
  have "read_elements k (objects_text ?mss @ 93 # crlf) = Some (map JObj ?mss, crlf)"
    by (rule read_elements_text) (use False event_fields_ok k in auto)
  moreover have "read_elements k (13 # 10 # s) = read_elements k s" for s
    using k(2) by (cases k; cases "k - 1") simp_all
  moreover have "take 1 (skip_ws (objects_text ?mss @ 93 # crlf)) = [123]"
    using False by (cases es) (auto simp: object_text_def wide_def wide_char_def)
  ultimately show ?thesis
    using k by (simp add: json_parse_def json_document_def crlf_def del: read_elements.simps)
qed

end
