(* ===== verification/TG_Sink.thy ===== *)
theory TG_Sink
  imports TG_Utf8
begin

text \<open>
  The bottom of \<^verbatim>\<open>src/export.c\<close>: \<^verbatim>\<open>write_all\<close> and \<^verbatim>\<open>write_utf8\<close>, the chains of writes joined by
  \<^verbatim>\<open>&&\<close>, and the contract every writer of the export obeys: it always returns, a success appends
  exactly its bytes to the file, a failure leaves a prefix of them.
\<close>

section \<open>Platform\<close>

text \<open>
  \<^item> \<open>WriteFile k chunk\<close>: the \<open>k\<close>-th platform call; the return value, the number of bytes written
    (stored in \<^verbatim>\<open>written\<close>) and the thread's last error afterwards.
  \<^item> \<open>WideCharToMultiByte s n\<close>: for \<^verbatim>\<open>CP_UTF8\<close> and no flags, a source of \<^verbatim>\<open>wcslen\<close> units and a
    destination of \<open>n\<close> bytes (0 asks for the size): the result, the buffer, the last error.
  \<^item> \<open>malloc_ok k n\<close>: whether an allocation of \<open>n\<close> bytes at the \<open>k\<close>-th platform call succeeds.
  \<^item> \<open>heap_junk\<close>: what freshly allocated memory holds.
\<close>

record sink_api =
  WriteFile :: "nat \<Rightarrow> byte list \<Rightarrow> bool \<times> nat \<times> dword"
  WideCharToMultiByte :: "wstr \<Rightarrow> nat \<Rightarrow> int \<times> byte list \<times> dword"
  malloc_ok :: "nat \<Rightarrow> nat \<Rightarrow> bool"
  heap_junk :: "nat \<Rightarrow> wchar"

definition INT_MAX :: nat where "INT_MAX = 2147483647"
definition MAXDWORD :: nat where "MAXDWORD = 4294967295"
definition ERROR_INVALID_PARAMETER :: dword where "ERROR_INVALID_PARAMETER = 87"
definition ERROR_BUFFER_OVERFLOW :: dword where "ERROR_BUFFER_OVERFLOW = 111"

text \<open>The open file and the thread: the bytes written, the platform calls made, the last error.\<close>

record file_state =
  fs_data :: "byte list"
  fs_clock :: nat
  fs_error :: dword

type_synonym file_writer = "file_state \<Rightarrow> (bool \<times> file_state) option"

text \<open>
  Documented behaviour: \<^verbatim>\<open>WriteFile\<close> never reports more bytes than it was given, and
  \<^verbatim>\<open>WideCharToMultiByte\<close> is the UTF-8 encoding, or fails when its size does not fit an \<^verbatim>\<open>int\<close>.
\<close>

definition sink_ok :: "sink_api \<Rightarrow> bool" where
  "sink_ok A \<longleftrightarrow>
     (\<forall>k d. fst (snd (WriteFile A k d)) \<le> length d) \<and>
     (\<forall>s. s \<noteq> [] \<longrightarrow>
        (if length (utf8 s) \<le> INT_MAX
         then fst (WideCharToMultiByte A s 0) = int (length (utf8 s)) \<and>
              fst (WideCharToMultiByte A s (length (utf8 s))) = int (length (utf8 s)) \<and>
              fst (snd (WideCharToMultiByte A s (length (utf8 s)))) = utf8 s
         else fst (WideCharToMultiByte A s 0) = 0))"

text \<open>A platform on which nothing fails: writes may still be partial.\<close>

definition sink_reliable :: "sink_api \<Rightarrow> bool" where
  "sink_reliable A \<longleftrightarrow>
     (\<forall>k d. d \<noteq> [] \<longrightarrow> fst (WriteFile A k d) \<and> 0 < fst (snd (WriteFile A k d))) \<and>
     (\<forall>k n. malloc_ok A k n)"

section \<open>write_all\<close>

text \<open>
  \<^verbatim>\<open>None\<close> is reached when the platform claims to have written more than it was given: \<^verbatim>\<open>size\<close> would
  wrap around and the next write would read past the data.
\<close>

function write_all :: "sink_api \<Rightarrow> byte list \<Rightarrow> file_writer" where
  "write_all A data st =
     (if data = [] then Some (True, st)
      else
        (let chunk = (if MAXDWORD < length data then take MAXDWORD data else data);
             (ok, written, err) = WriteFile A (fs_clock st) chunk;
             st' = st\<lparr>fs_data := fs_data st @ take written chunk, fs_clock := fs_clock st + 1, fs_error := err\<rparr>
         in if \<not> ok \<or> written = 0 then Some (False, st')
            else if length chunk < written then None
            else write_all A (drop written data) st'))"
  by pat_completeness auto
termination
  by (relation "measure (\<lambda>(A, data, st). length data)") (auto simp: Let_def split: if_splits)

declare write_all.simps [simp del]

section \<open>write_utf8\<close>

definition write_utf8 :: "sink_api \<Rightarrow> wstr option \<Rightarrow> file_writer" where
  "write_utf8 A text_arg st =
     (let text = (case text_arg of None \<Rightarrow> [] | Some t \<Rightarrow> t) in
      if INT_MAX < length text then Some (False, st\<lparr>fs_error := ERROR_BUFFER_OVERFLOW\<rparr>)
      else if length text = 0 then Some (True, st)
      else
        (let (byte_count, _, err) = WideCharToMultiByte A text 0;
             st1 = st\<lparr>fs_error := err\<rparr>
         in if byte_count \<le> 0 then Some (False, st1)
            else if \<not> malloc_ok A (fs_clock st1) (nat byte_count)
            then Some (False, st1\<lparr>fs_clock := fs_clock st1 + 1, fs_error := ERROR_OUTOFMEMORY\<rparr>)
            else
              (let (stored, bytes, err2) = WideCharToMultiByte A text (nat byte_count);
                   st2 = st1\<lparr>fs_clock := fs_clock st1 + 1, fs_error := err2\<rparr>
               in if stored \<noteq> byte_count then Some (False, st2)
                  else write_all A (take (nat byte_count) bytes) st2)))"

section \<open>Chains of writes\<close>

text \<open>\<^verbatim>\<open>w1 && w2 && ...\<close>, and equally \<^verbatim>\<open>if (!w1 || !w2 || ...) return FALSE\<close>.\<close>

fun run_chain :: "('s \<Rightarrow> (bool \<times> 's) option) list \<Rightarrow> 's \<Rightarrow> (bool \<times> 's) option" where
  "run_chain [] st = Some (True, st)"
| "run_chain (w # ws) st = do {
     (ok, st') \<leftarrow> w st;
     if ok then run_chain ws st' else Some (False, st')
   }"

text \<open>
  The contract: \<open>content\<close> is what the sink holds; the writer returns, appends all of \<open>bs\<close> when it
  reports success and a prefix of it otherwise.
\<close>

definition emits :: "('s \<Rightarrow> byte list) \<Rightarrow> ('s \<Rightarrow> (bool \<times> 's) option) \<Rightarrow> byte list \<Rightarrow> bool" where
  "emits content w bs \<longleftrightarrow>
     (\<forall>st. \<exists>ok p st'. w st = Some (ok, st') \<and> content st' = content st @ p \<and> prefix p bs \<and> (ok \<longrightarrow> p = bs))"

definition succeeds :: "('s \<Rightarrow> (bool \<times> 's) option) \<Rightarrow> bool" where
  "succeeds w \<longleftrightarrow> (\<forall>st. \<exists>st'. w st = Some (True, st'))"

named_theorems emit_intros \<open>writers that keep the contract\<close>

lemma emitsI:
  "(\<And>st. \<exists>ok p st'. w st = Some (ok, st') \<and> content st' = content st @ p \<and> prefix p bs \<and> (ok \<longrightarrow> p = bs))
    \<Longrightarrow> emits content w bs"
  by (simp add: emits_def)

lemma emitsE:
  assumes "emits content w bs"
  obtains ok p st' where "w st = Some (ok, st')" "content st' = content st @ p" "prefix p bs" "ok \<longrightarrow> p = bs"
  using assms unfolding emits_def by metis

lemma succeedsE:
  assumes "succeeds w" obtains st' where "w st = Some (True, st')"
  using assms unfolding succeeds_def by metis

lemma emits_chain: "list_all2 (emits content) ws bss \<Longrightarrow> emits content (run_chain ws) (concat bss)"
proof (induction rule: list_all2_induct)
  case Nil
  show ?case by (rule emitsI) auto
next
  case (Cons w ws bs bss)
  show ?case
  proof (rule emitsI)
    fix st
    obtain ok p st' where 1: "w st = Some (ok, st')" "content st' = content st @ p" "prefix p bs" "ok \<longrightarrow> p = bs"
      using Cons.hyps(1) by (rule emitsE)
    obtain ok2 q st2 where 2: "run_chain ws st' = Some (ok2, st2)" "content st2 = content st' @ q"
        "prefix q (concat bss)" "ok2 \<longrightarrow> q = concat bss"
      using Cons.IH by (rule emitsE)
    show "\<exists>ok p st'. run_chain (w # ws) st = Some (ok, st') \<and> content st' = content st @ p
        \<and> prefix p (concat (bs # bss)) \<and> (ok \<longrightarrow> p = concat (bs # bss))"
    proof (cases ok)
      case True
      with 1 2 show ?thesis by (intro exI [of _ ok2] exI [of _ "bs @ q"] exI [of _ st2]) simp
    next
      case False
      with 1 show ?thesis by (intro exI [of _ False] exI [of _ p] exI [of _ st']) simp
    qed
  qed
qed

lemma succeeds_chain: "\<forall>w \<in> set ws. succeeds w \<Longrightarrow> succeeds (run_chain ws)"
proof (induction ws)
  case (Cons w ws)
  then have w: "succeeds w" and ws: "succeeds (run_chain ws)" by auto
  have "\<exists>st'. run_chain (w # ws) st = Some (True, st')" for st
  proof -
    obtain st1 where "w st = Some (True, st1)" using w by (rule succeedsE)
    then show ?thesis using ws by (auto elim: succeedsE)
  qed
  then show ?case by (simp add: succeeds_def)
qed (simp add: succeeds_def)

text \<open>
  A sink: a family of writers over items, each emitting the encoding of its item. A reliable one
  also succeeds on its items.
\<close>

locale byte_sink =
  fixes content :: "'s \<Rightarrow> byte list"
    and put :: "'a \<Rightarrow> 's \<Rightarrow> (bool \<times> 's) option"
    and encode :: "'a \<Rightarrow> byte list"
    and valid :: "'a \<Rightarrow> bool"
  assumes put_emits: "valid x \<Longrightarrow> emits content (put x) (encode x)"
begin

lemma puts_emit:
  "\<forall>x \<in> set xs. valid x \<Longrightarrow> emits content (run_chain (map put xs)) (concat (map encode xs))"
  by (rule emits_chain) (simp add: list_all2_map1 list_all2_map2 list.rel_refl_strong put_emits)

lemma puts_success:
  assumes "\<forall>x \<in> set xs. valid x" and "run_chain (map put xs) st = Some (True, st')"
  shows "content st' = content st @ concat (map encode xs)"
  using puts_emit [OF assms(1)] by (rule emitsE [of _ _ _ st]) (use assms(2) in simp)

end

locale reliable_sink = byte_sink +
  assumes put_succeeds: "valid x \<Longrightarrow> succeeds (put x)"
begin

lemma puts_succeed: "\<forall>x \<in> set xs. valid x \<Longrightarrow> succeeds (run_chain (map put xs))"
  by (rule succeeds_chain) (auto simp: put_succeeds)

end

section \<open>The file keeps the contract\<close>

lemma write_all_step:
  assumes "data \<noteq> []" and "sink_ok A"
  obtains ok written err where
    "written \<le> length data" and
    "write_all A data st =
       (let st' = st\<lparr>fs_data := fs_data st @ take written data, fs_clock := fs_clock st + 1, fs_error := err\<rparr>
        in if \<not> ok \<or> written = 0 then Some (False, st') else write_all A (drop written data) st')" and
    "sink_reliable A \<longrightarrow> ok \<and> 0 < written"
proof -
  define chunk where "chunk = (if MAXDWORD < length data then take MAXDWORD data else data)"
  obtain ok written err where w: "WriteFile A (fs_clock st) chunk = (ok, written, err)"
    by (metis prod_cases3)
  have le: "written \<le> length chunk"
    using assms(2) w unfolding sink_ok_def by (metis fst_conv snd_conv)
  have chunk: "length chunk \<le> length data" "take written chunk = take written data" "chunk \<noteq> []"
    using le assms(1) by (auto simp: chunk_def MAXDWORD_def min_def split: if_splits)
  have "write_all A data st =
       (let st' = st\<lparr>fs_data := fs_data st @ take written data, fs_clock := fs_clock st + 1, fs_error := err\<rparr>
        in if \<not> ok \<or> written = 0 then Some (False, st') else write_all A (drop written data) st')"
    using assms(1) le chunk(2) w
    by (subst write_all.simps) (simp add: chunk_def [symmetric] Let_def)
  moreover have "sink_reliable A \<longrightarrow> ok \<and> 0 < written"
    using w chunk(3) unfolding sink_reliable_def by (metis fst_conv snd_conv)
  ultimately show thesis using that [of written err ok] le chunk(1) by simp
qed

lemma write_all_emits: "sink_ok A \<Longrightarrow> emits fs_data (write_all A data) data"
proof (rule emitsI)
  fix st
  assume A: "sink_ok A"
  show "\<exists>ok p st'. write_all A data st = Some (ok, st') \<and> fs_data st' = fs_data st @ p
      \<and> prefix p data \<and> (ok \<longrightarrow> p = data)"
  proof (induction "length data" arbitrary: data st rule: less_induct)
    case less
    show ?case
    proof (cases "data = []")
      case True
      then show ?thesis by (auto simp: write_all.simps)
    next
      case False
      obtain ok written err where w: "written \<le> length data" "write_all A data st =
         (let st' = st\<lparr>fs_data := fs_data st @ take written data, fs_clock := fs_clock st + 1, fs_error := err\<rparr>
          in if \<not> ok \<or> written = 0 then Some (False, st') else write_all A (drop written data) st')"
        by (rule write_all_step [OF False A])
      let ?st = "st\<lparr>fs_data := fs_data st @ take written data, fs_clock := fs_clock st + 1, fs_error := err\<rparr>"
      show ?thesis
      proof (cases "\<not> ok \<or> written = 0")
        case True
        then show ?thesis using w by (auto intro: take_is_prefix)
      next
        case go: False
        then have "length (drop written data) < length data" using w(1) False by simp
        from less.hyps [OF this, of ?st] obtain ok' p st' where r:
          "write_all A (drop written data) ?st = Some (ok', st')" "fs_data st' = fs_data ?st @ p"
          "prefix p (drop written data)" "ok' \<longrightarrow> p = drop written data" by metis
        have "prefix (take written data @ p) data"
          using r(3) by (metis append_take_drop_id same_prefix_prefix)
        then show ?thesis using w(2) go r by (auto simp: Let_def)
      qed
    qed
  qed
qed

lemma write_all_succeeds:
  assumes "sink_ok A" and "sink_reliable A"
  shows "succeeds (write_all A data)"
proof -
  have "\<exists>st'. write_all A data st = Some (True, st')" for st
  proof (induction "length data" arbitrary: data st rule: less_induct)
    case less
    show ?case
    proof (cases "data = []")
      case False
      obtain ok written err where w: "written \<le> length data" "write_all A data st =
         (let st' = st\<lparr>fs_data := fs_data st @ take written data, fs_clock := fs_clock st + 1, fs_error := err\<rparr>
          in if \<not> ok \<or> written = 0 then Some (False, st') else write_all A (drop written data) st')"
          "sink_reliable A \<longrightarrow> ok \<and> 0 < written"
        by (rule write_all_step [OF False assms(1)])
      with assms(2) have "length (drop written data) < length data" using False by simp
      from less.hyps [OF this] obtain st' where "write_all A (drop written data)
          (st\<lparr>fs_data := fs_data st @ take written data, fs_clock := fs_clock st + 1, fs_error := err\<rparr>) = Some (True, st')"
        by blast
      then show ?thesis using w assms(2) by (simp add: Let_def)
    qed (simp add: write_all.simps)
  qed
  then show ?thesis by (simp add: succeeds_def)
qed

lemma write_utf8_emits:
  assumes "sink_ok A"
  shows "emits fs_data (write_utf8 A (Some s)) (utf8 s)"
proof (rule emitsI)
  fix st
  let ?goal = "\<exists>ok p st'. write_utf8 A (Some s) st = Some (ok, st') \<and> fs_data st' = fs_data st @ p
      \<and> prefix p (utf8 s) \<and> (ok \<longrightarrow> p = utf8 s)"
  obtain n b err where q: "WideCharToMultiByte A s 0 = (n, b, err)" by (metis prod_cases3)
  show ?goal
  proof (cases "INT_MAX < length s \<or> s = [] \<or> n \<le> 0")
    case True
    then show ?thesis using q by (auto simp: write_utf8_def)
  next
    case False
    then have n: "n = int (length (utf8 s))" and enc:
        "\<exists>e. WideCharToMultiByte A s (length (utf8 s)) = (n, utf8 s, e)"
      using assms q unfolding sink_ok_def by (auto simp: prod_eq_iff split: if_splits)
    then obtain e where e: "WideCharToMultiByte A s (nat n) = (n, utf8 s, e)" by auto
    let ?st = "st\<lparr>fs_clock := fs_clock st + 1, fs_error := e\<rparr>"
    show ?thesis
    proof (cases "malloc_ok A (fs_clock st) (nat n)")
      case True
      have "write_utf8 A (Some s) st = write_all A (utf8 s) ?st"
        using False q e True n by (simp add: write_utf8_def)
      then show ?thesis
        using write_all_emits [OF assms, of "utf8 s"] by (auto elim!: emitsE [of _ _ _ ?st])
    next
      case malloc_fails: False
      then show ?thesis using False q by (auto simp: write_utf8_def)
    qed
  qed
qed

lemma write_utf8_succeeds:
  assumes "sink_ok A" and "sink_reliable A" and "length s \<le> INT_MAX" and "length (utf8 s) \<le> INT_MAX"
  shows "succeeds (write_utf8 A (Some s))"
proof -
  have "\<exists>st'. write_utf8 A (Some s) st = Some (True, st')" for st
  proof (cases "s = []")
    case True
    then show ?thesis by (simp add: write_utf8_def)
  next
    case False
    let ?n = "length (utf8 s)"
    have "fst (WideCharToMultiByte A s 0) = int ?n" "fst (WideCharToMultiByte A s ?n) = int ?n"
        "fst (snd (WideCharToMultiByte A s ?n)) = utf8 s"
      using assms(1,4) False unfolding sink_ok_def by auto
    then obtain b err e where q: "WideCharToMultiByte A s 0 = (int ?n, b, err)"
        "WideCharToMultiByte A s ?n = (int ?n, utf8 s, e)"
      by (metis prod.collapse)
    have "malloc_ok A k m" for k m using assms(2) by (simp add: sink_reliable_def)
    then have "write_utf8 A (Some s) st = write_all A (utf8 s) (st\<lparr>fs_clock := fs_clock st + 1, fs_error := e\<rparr>)"
      using q False assms(3) utf8_not_Nil [OF False] by (simp add: write_utf8_def)
    then show ?thesis using write_all_succeeds [OF assms(1,2)] by (metis succeedsE)
  qed
  then show ?thesis by (simp add: succeeds_def)
qed

text \<open>The two sinks of the export: raw bytes, and strings.\<close>

interpretation raw_sink: reliable_sink fs_data "write_all A" "\<lambda>d. d"
    "\<lambda>d. sink_ok A \<and> sink_reliable A" for A
  by unfold_locales (auto intro: write_all_emits write_all_succeeds)

interpretation text_sink: byte_sink fs_data "\<lambda>s. write_utf8 A (Some s)" utf8 "\<lambda>s. sink_ok A" for A
  by unfold_locales (auto intro: write_utf8_emits)

interpretation reliable_text_sink: reliable_sink fs_data "\<lambda>s. write_utf8 A (Some s)" utf8
    "\<lambda>s. sink_ok A \<and> sink_reliable A \<and> length s \<le> INT_MAX \<and> length (utf8 s) \<le> INT_MAX" for A
  by unfold_locales (auto intro: write_utf8_emits write_utf8_succeeds)

end
