(* ===== verification/TG_JsonExport.thy ===== *)
theory TG_JsonExport
  imports TG_Json TG_Sink TG_Store
begin

text \<open>
  The JSON writer of \<^verbatim>\<open>src/export.c\<close>: \<^verbatim>\<open>write_json_string\<close> on the heap array it allocates (every
  store bounds-checked, the allocation size with its wrap-around), \<^verbatim>\<open>write_json_field\<close> and
  \<^verbatim>\<open>write_json_export\<close>. The writer is shown to emit the document of \<open>TG_Json\<close>, and the file to
  read back as the log.
\<close>

section \<open>Building the escaped string\<close>

text \<open>\<^verbatim>\<open>array[index++] = c\<close>.\<close>

definition put1 :: "wstr \<Rightarrow> nat \<Rightarrow> wchar \<Rightarrow> (wstr \<times> nat) option" where
  "put1 arr t c = do { arr' \<leftarrow> buf_put arr t c; Some (arr', t + 1) }"

fun buf_puts :: "wstr \<Rightarrow> nat \<Rightarrow> wstr \<Rightarrow> wstr option" where
  "buf_puts arr t [] = Some arr"
| "buf_puts arr t (x # xs) = do { arr' \<leftarrow> buf_put arr t x; buf_puts arr' (t + 1) xs }"

text \<open>
  \<^verbatim>\<open>StringCchPrintfW(&array[t], n, ...)\<close>: the text that fits and a NUL; with no room it stores nothing.
\<close>

definition printf_at :: "text_api \<Rightarrow> wstr \<Rightarrow> nat \<Rightarrow> nat \<Rightarrow> string \<Rightarrow> fmt_arg list \<Rightarrow> wstr option" where
  "printf_at W arr t n fmt args =
     (if n = 0 then Some arr else buf_puts arr t (cch_printf W n fmt args @ [0]))"

definition escape_char :: "text_api \<Rightarrow> nat \<Rightarrow> wchar \<Rightarrow> wstr \<Rightarrow> nat \<Rightarrow> (wstr \<times> nat) option" where
  "escape_char W capacity character arr t =
     (case short_escape character of
        Some e \<Rightarrow> (do { (arr1, t1) \<leftarrow> put1 arr t W_BACKSLASH; put1 arr1 t1 e })
      | None \<Rightarrow>
          if character < 0x20 then (do {
            arr1 \<leftarrow> printf_at W arr t (capacity - t) (CHR 0x5C # ''u%04x'') [FNum (unat character)];
            Some (arr1, t + 6) })
          else put1 arr t character)"

fun escape_loop :: "text_api \<Rightarrow> nat \<Rightarrow> wstr \<Rightarrow> wstr \<Rightarrow> nat \<Rightarrow> (wstr \<times> nat) option" where
  "escape_loop W capacity [] arr t = Some (arr, t)"
| "escape_loop W capacity (c # cs) arr t = do {
     (arr1, t1) \<leftarrow> escape_char W capacity c arr t;
     escape_loop W capacity cs arr1 t1
   }"

text \<open>
  \<^verbatim>\<open>malloc(capacity * sizeof(WCHAR))\<close>: the array really allocated has the wrapped size, and holds
  whatever the heap held.
\<close>

definition wide_alloc :: "sink_api \<Rightarrow> u64 \<Rightarrow> file_state \<Rightarrow> wstr option \<times> file_state" where
  "wide_alloc A capacity st =
     (let bytes = unat (capacity * 2) in
      if malloc_ok A (fs_clock st) bytes
      then (Some (map (heap_junk A) [0..<bytes div 2]), st\<lparr>fs_clock := fs_clock st + 1\<rparr>)
      else (None, st\<lparr>fs_clock := fs_clock st + 1, fs_error := ERROR_OUTOFMEMORY\<rparr>))"

definition write_json_string :: "sink_api \<Rightarrow> text_api \<Rightarrow> wstr option \<Rightarrow> file_writer" where
  "write_json_string A W value_arg st =
     (let value = (case value_arg of None \<Rightarrow> [] | Some v \<Rightarrow> v);
          len = length value
      in if unat ((SIZE_MAX div 2 - 3) div 6) < len
         then Some (False, st\<lparr>fs_error := ERROR_BUFFER_OVERFLOW\<rparr>)
         else
           (let capacity = of_nat len * 6 + 3 in
            case wide_alloc A capacity st of
              (None, st1) \<Rightarrow> Some (False, st1)
            | (Some arr, st1) \<Rightarrow> (do {
                (arr1, t1) \<leftarrow> put1 arr 0 QUOTE;
                (arr2, t2) \<leftarrow> escape_loop W (unat capacity) value arr1 t1;
                (arr3, t3) \<leftarrow> put1 arr2 t2 QUOTE;
                arr4 \<leftarrow> buf_put arr3 t3 0;
                write_utf8 A (Some (cstr arr4)) st1 })))"

section \<open>Fields and documents\<close>

definition utf8_literal :: "sink_api \<Rightarrow> wstr \<Rightarrow> file_writer" where
  "utf8_literal A s = write_utf8 A (Some s)"

definition write_json_field :: "sink_api \<Rightarrow> text_api \<Rightarrow> string \<Rightarrow> wstr \<Rightarrow> bool \<Rightarrow> file_writer" where
  "write_json_field A W name value trailing_comma =
     run_chain
       [utf8_literal A (wide ''    '' @ [QUOTE]),
        utf8_literal A (wide name),
        utf8_literal A ([QUOTE] @ wide '': ''),
        write_json_string A W (Some value),
        utf8_literal A (if trailing_comma then COMMA # crlf else crlf)]"

definition format_timestamp :: "text_api \<Rightarrow> systemtime \<Rightarrow> nat \<Rightarrow> wstr" where
  "format_timestamp W t n =
     cch_printf W n ''%04u-%02u-%02uT%02u:%02u:%02u.%03u''
       [FNum (unat (wYear t)), FNum (unat (wMonth t)), FNum (unat (wDay t)),
        FNum (unat (wHour t)), FNum (unat (wMinute t)), FNum (unat (wSecond t)),
        FNum (unat (wMilliseconds t))]"

text \<open>The writes of one iteration; \<open>follows\<close> says that another event follows.\<close>

definition json_number :: "sink_api \<Rightarrow> string \<Rightarrow> wstr \<Rightarrow> file_writer list" where
  "json_number A name number =
     [utf8_literal A (wide ''    '' @ [QUOTE] @ wide name @ [QUOTE] @ wide '': ''),
      utf8_literal A number,
      utf8_literal A (COMMA # crlf)]"

definition json_event_writes :: "sink_api \<Rightarrow> text_api \<Rightarrow> TraceGlassEvent \<Rightarrow> bool \<Rightarrow> file_writer list" where
  "json_event_writes A W e follows =
     [utf8_literal A (wide ''  {'' @ crlf),
      write_json_field A W ''timestamp'' (format_timestamp W (ev_timestamp e) 64) True,
      write_json_field A W ''event_type'' (event_export_name (ev_type e)) True,
      write_json_field A W ''process_name'' (ev_process_name e) True] @
     json_number A ''pid'' (cch_printf W 64 ''%lu'' [FNum (unat (pid (ev_process e)))]) @
     json_number A ''parent_pid'' (cch_printf W 64 ''%lu'' [FNum (unat (pid (ev_parent e)))]) @
     [write_json_field A W ''details'' (ev_details e) True,
      write_json_field A W ''protocol'' (ev_protocol e) True,
      write_json_field A W ''local_address'' (ev_local_address e) True] @
     json_number A ''local_port'' (cch_printf W 64 ''%u'' [FNum (unat (ev_local_port e))]) @
     [write_json_field A W ''remote_address'' (ev_remote_address e) True] @
     json_number A ''remote_port'' (cch_printf W 64 ''%u'' [FNum (unat (ev_remote_port e))]) @
     [write_json_field A W ''state'' (ev_network_state e) True,
      write_json_field A W ''severity'' (alert_severity_name (ev_severity e)) True,
      write_json_field A W ''rule'' (ev_rule_name e) False,
      utf8_literal A (if follows then wide ''  }'' @ COMMA # crlf else wide ''  }'' @ crlf)]"

text \<open>
  The loop over the events from \<open>index\<close>, shared by the three formats: \<open>body e follows\<close> are the writes
  of one iteration. An index outside the array is \<open>None\<close>.
\<close>

function event_loop :: "(TraceGlassEvent \<Rightarrow> bool \<Rightarrow> file_writer list) \<Rightarrow> EventStore \<Rightarrow> nat \<Rightarrow> file_writer" where
  "event_loop body s index st =
     (if index < unat (st_event_count s) then do {
        e \<leftarrow> buf_get (st_events s) index;
        (ok, st') \<leftarrow> run_chain (body e (index + 1 < unat (st_event_count s))) st;
        if ok then event_loop body s (index + 1) st' else Some (False, st')
      } else Some (True, st))"
  by pat_completeness auto
termination
  by (relation "measure (\<lambda>(body, s, index, st). unat (st_event_count s) - index)") auto

declare event_loop.simps [simp del]

definition write_json_export :: "sink_api \<Rightarrow> text_api \<Rightarrow> EventStore \<Rightarrow> nat \<Rightarrow> file_writer" where
  "write_json_export A W s first_event =
     run_chain
       [utf8_literal A (91 # crlf),
        event_loop (json_event_writes A W) s first_event,
        utf8_literal A (93 # crlf)]"

section \<open>The escape array is never overrun\<close>

lemma buf_puts_in:
  "t + length xs \<le> length arr \<Longrightarrow> buf_puts arr t xs = Some (take t arr @ xs @ drop (t + length xs) arr)"
proof (induction xs arbitrary: arr t)
  case (Cons x xs)
  then have t: "t < length arr" "t + 1 + length xs \<le> length (arr[t := x])" by auto
  have "take (t + 1) (arr[t := x]) = take t arr @ [x]" using t(1) take_Suc_update [of t arr x] by simp
  then show ?case using Cons.IH [OF t(2)] t(1) by (simp add: buf_simps)
qed simp

text \<open>The state of the loop: the array's first \<open>length out\<close> units are the output so far.\<close>

definition holds_text :: "nat \<Rightarrow> wstr \<Rightarrow> wstr \<Rightarrow> nat \<Rightarrow> bool" where
  "holds_text cap out arr t \<longleftrightarrow> length arr = cap \<and> t = length out \<and> take t arr = out \<and> t \<le> cap"

lemma put1_holds:
  assumes "holds_text cap out arr t" and "t < cap"
  shows "\<exists>arr'. put1 arr t c = Some (arr', t + 1) \<and> holds_text cap (out @ [c]) arr' (t + 1)"
  using assms by (auto simp: put1_def holds_text_def buf_simps take_Suc_update)

lemma escape_char_holds:
  assumes "strsafe_ok W" and "holds_text cap out arr t" and "t + 7 \<le> cap"
  shows "\<exists>arr'. escape_char W cap c arr t = Some (arr', t + length (json_escape c))
      \<and> holds_text cap (out @ json_escape c) arr' (t + length (json_escape c))"
proof (cases "short_escape c")
  case (Some e)
  obtain a1 where 1: "put1 arr t W_BACKSLASH = Some (a1, t + 1)" "holds_text cap (out @ [W_BACKSLASH]) a1 (t + 1)"
    using put1_holds [OF assms(2)] assms(3) by force
  obtain a2 where "put1 a1 (t + 1) e = Some (a2, t + 1 + 1)" "holds_text cap ((out @ [W_BACKSLASH]) @ [e]) a2 (t + 1 + 1)"
    using put1_holds [OF 1(2)] assms(3) by force
  then show ?thesis using Some 1(1) by (simp add: escape_char_def json_escape_def)
next
  case None
  show ?thesis
  proof (cases "c < 0x20")
    case True
    have n: "unat c < 32" using True by (simp add: word_less_nat_alt)
    have esc: "json_escape c = W_BACKSLASH # 117 # zero_pad 4 (hex (unat c))"
      using None True by (simp add: json_escape_def)
    have six: "length (json_escape c) = 6" using control_hex [OF n] by (simp add: esc)
    have "vformat (CHR 0x5C # ''u%04x'') [FNum (unat c)] = json_escape c"
      by (simp add: conversion_spec_def esc wide_char_def W_BACKSLASH_def)
    then have "cch_printf W (cap - t) (CHR 0x5C # ''u%04x'') [FNum (unat c)] = json_escape c"
      using assms(1,3) six by (simp add: cch_printf_take)
    moreover have "t + length (json_escape c @ [0]) \<le> length arr"
      using assms(2,3) six by (simp add: holds_text_def)
    ultimately have "printf_at W arr t (cap - t) (CHR 0x5C # ''u%04x'') [FNum (unat c)]
        = Some (take t arr @ (json_escape c @ [0]) @ drop (t + length (json_escape c @ [0])) arr)"
      using assms(3) buf_puts_in [of t "json_escape c @ [0]" arr] by (simp add: printf_at_def)
    then show ?thesis
      using None True six assms(2,3) by (auto simp: escape_char_def holds_text_def)
  next
    case False
    then show ?thesis
      using None put1_holds [OF assms(2), of c] assms(3) by (simp add: escape_char_def json_escape_def)
  qed
qed

lemma escape_loop_holds:
  "strsafe_ok W \<Longrightarrow> holds_text cap out arr t \<Longrightarrow> t + 6 * length cs + 2 \<le> cap \<Longrightarrow>
   \<exists>arr' t'. escape_loop W cap cs arr t = Some (arr', t')
      \<and> holds_text cap (out @ concat (map json_escape cs)) arr' t' \<and> t' + 2 \<le> cap"
proof (induction cs arbitrary: out arr t)
  case (Cons c cs)
  obtain a1 where 1: "escape_char W cap c arr t = Some (a1, t + length (json_escape c))"
      "holds_text cap (out @ json_escape c) a1 (t + length (json_escape c))"
    using escape_char_holds [OF Cons.prems(1,2), of c] Cons.prems(3) by auto
  have "t + length (json_escape c) + 6 * length cs + 2 \<le> cap"
    using json_escape_length [of c] Cons.prems(3) by simp
  from Cons.IH [OF Cons.prems(1) 1(2) this] show ?case using 1(1) by simp
qed auto

text \<open>The size check is what makes the allocation exact: without it the product could wrap.\<close>

lemma escape_capacity:
  assumes "\<not> unat ((SIZE_MAX div 2 - 3) div 6) < n"
  shows "unat (of_nat n * 6 + 3 :: u64) = 6 * n + 3" and "unat ((of_nat n * 6 + 3 :: u64) * 2) div 2 = 6 * n + 3"
proof -
  have "unat ((SIZE_MAX div 2 - 3) div 6) = 1537228672809129300" by (simp add: SIZE_MAX_def)
  with assms have n: "n \<le> 1537228672809129300" by simp
  then show c: "unat (of_nat n * 6 + 3 :: u64) = 6 * n + 3"
    by (simp add: unat_word_ariths unat_of_nat)
  show "unat ((of_nat n * 6 + 3 :: u64) * 2) div 2 = 6 * n + 3"
    using n by (subst unat_word_ariths) (simp add: c)
qed

lemma json_quote_no_nul: "0 \<notin> set v \<Longrightarrow> 0 \<notin> set (json_quote v)"
  by (auto simp: json_quote_def QUOTE_def) (metis json_escape_no_nul)

lemma write_json_string_cases:
  assumes "strsafe_ok W" and "0 \<notin> set v"
  obtains st1 where "write_json_string A W (Some v) st = Some (False, st1)" "fs_data st1 = fs_data st"
      "unat ((SIZE_MAX div 2 - 3) div 6) < length v \<or> (\<exists>k n. \<not> malloc_ok A k n)"
  | st1 where "write_json_string A W (Some v) st = write_utf8 A (Some (json_quote v)) st1"
      "fs_data st1 = fs_data st"
proof (cases "unat ((SIZE_MAX div 2 - 3) div 6) < length v")
  case True
  then show thesis
    using that(1) [of "st\<lparr>fs_error := ERROR_BUFFER_OVERFLOW\<rparr>"] by (simp add: write_json_string_def)
next
  case False
  note cap = escape_capacity [OF False]
  let ?c = "of_nat (length v) * 6 + 3 :: u64" and ?n = "6 * length v + 3"
  show thesis
  proof (cases "malloc_ok A (fs_clock st) (unat (?c * 2))")
    case fails: False
    then show thesis
      using that(1) [of "st\<lparr>fs_clock := fs_clock st + 1, fs_error := ERROR_OUTOFMEMORY\<rparr>"] False
      by (auto simp: write_json_string_def wide_alloc_def Let_def)
  next
    case True
    let ?arr = "map (heap_junk A) [0..<?n]" and ?st = "st\<lparr>fs_clock := fs_clock st + 1\<rparr>"
    have alloc: "wide_alloc A ?c st = (Some ?arr, ?st)"
      using True cap by (simp only: wide_alloc_def Let_def if_True)
    have "holds_text ?n [] ?arr 0" by (simp add: holds_text_def)
    then obtain a1 where 1: "put1 ?arr 0 QUOTE = Some (a1, 1)" "holds_text ?n [QUOTE] a1 1"
      using put1_holds [of ?n "[]" ?arr 0 QUOTE] by auto
    obtain a2 t2 where 2: "escape_loop W ?n v a1 1 = Some (a2, t2)" "t2 + 2 \<le> ?n"
        "holds_text ?n ([QUOTE] @ concat (map json_escape v)) a2 t2"
      using escape_loop_holds [OF assms(1) 1(2), of v] by auto
    obtain a3 where 3: "put1 a2 t2 QUOTE = Some (a3, t2 + 1)" "holds_text ?n (json_quote v) a3 (t2 + 1)"
      using put1_holds [OF 2(3), of QUOTE] 2(2) by (auto simp: json_quote_def)
    have in4: "t2 + 1 < length a3" using 3(2) 2(2) by (simp add: holds_text_def)
    have "a3[t2 + 1 := 0] = json_quote v @ 0 # drop (Suc (t2 + 1)) a3"
      using 3(2) in4 unfolding upd_conv_take_nth_drop [OF in4] by (metis holds_text_def)
    then have built: "cstr (a3[t2 + 1 := 0]) = json_quote v"
      using json_quote_no_nul [OF assms(2)] by (simp add: cstr_append_nul)
    have "write_json_string A W (Some v) st = write_utf8 A (Some (json_quote v)) ?st"
      using False alloc cap(1) 1(1) 2(1) 3(1) in4 built
      by (simp add: write_json_string_def buf_simps)
    then show thesis using that(2) [of ?st] by simp
  qed
qed

section \<open>The writer emits the document\<close>

text \<open>A text whose last unit is not a high surrogate: its encoding does not depend on what follows.\<close>

definition closed_text :: "wstr \<Rightarrow> bool" where
  "closed_text s \<longleftrightarrow> s = [] \<or> \<not> high_surrogate (last s)"

lemma closed_append: "closed_text s \<Longrightarrow> closed_text t \<Longrightarrow> closed_text (s @ t)"
  by (auto simp: closed_text_def last_append)

lemma utf8_closed: "closed_text s \<Longrightarrow> utf8 (s @ t) = utf8 s @ utf8 t"
  by (rule utf8_append) (auto simp: closed_text_def)

lemma utf8_concat: "\<forall>s \<in> set ss. closed_text s \<Longrightarrow> utf8 (concat ss) = concat (map utf8 ss)"
  by (induction ss) (auto simp: utf8_closed)

lemma closed_concat: "\<forall>s \<in> set ss. closed_text s \<Longrightarrow> closed_text (concat ss)"
  by (induction ss) (auto simp: closed_append closed_text_def [of "[]"])

text \<open>
  The contract at the level of text: the writer emits the encoding of \<open>s\<close>, it succeeds when the
  platform does not fail, and \<open>s\<close> is closed, so that consecutive texts encode as their concatenation.
\<close>

definition writes_text :: "sink_api \<Rightarrow> file_writer \<Rightarrow> wstr \<Rightarrow> bool" where
  "writes_text A w s \<longleftrightarrow>
     emits fs_data w (utf8 s) \<and> closed_text s \<and> (sink_reliable A \<longrightarrow> succeeds w)"

lemma writes_chain:
  assumes "list_all2 (writes_text A) ws ss"
  shows "writes_text A (run_chain ws) (concat ss)"
proof -
  have "list_all2 (emits fs_data) ws (map utf8 ss)" and closed: "\<forall>s \<in> set ss. closed_text s"
    and ok: "sink_reliable A \<longrightarrow> (\<forall>w \<in> set ws. succeeds w)"
    using assms by (auto simp: writes_text_def list_all2_conv_all_nth in_set_conv_nth)
  from emits_chain [OF this(1)] show ?thesis
    using closed ok by (simp add: writes_text_def utf8_concat closed_concat succeeds_chain)
qed

lemma ascii_closed: "\<forall>c \<in> set s. unat c < 128 \<Longrightarrow> closed_text s"
  by (auto simp: closed_text_def high_surrogate_def dest!: last_in_set bspec)

lemma wide_ascii: "\<forall>c \<in> set s. of_char c < (128 :: nat) \<Longrightarrow> \<forall>c \<in> set (wide s). unat c < 128"
  by (auto simp: wide_def wide_char_def unat_of_nat)

definition short_text :: "wstr \<Rightarrow> bool" where
  "short_text s \<longleftrightarrow> length s \<le> 20000"

lemma short_text_bounds: "short_text s \<Longrightarrow> length s \<le> INT_MAX \<and> length (utf8 s) \<le> INT_MAX"
  using utf8_length [of s] by (simp add: short_text_def INT_MAX_def)

lemma writes_literal:
  assumes "sink_ok A" and "closed_text s" and "short_text s"
  shows "writes_text A (utf8_literal A s) s"
  using assms text_sink.put_emits [of A s] reliable_text_sink.put_succeeds [of A s] short_text_bounds
  unfolding writes_text_def utf8_literal_def by blast

lemma closed_json_quote: "closed_text (json_quote v)"
  by (simp add: closed_text_def json_quote_def QUOTE_def high_surrogate_def)

text \<open>A field of an event: a C string of the length its array allows.\<close>

definition field_text :: "wstr \<Rightarrow> bool" where
  "field_text v \<longleftrightarrow> 0 \<notin> set v \<and> length v \<le> 1024"

lemma json_quote_length: "length (json_quote v) \<le> 6 * length v + 2"
proof (induction v)
  case (Cons c v)
  then show ?case using json_escape_length [of c] by (simp add: json_quote_def)
qed (simp add: json_quote_def)

text \<open>A writer that either fails with nothing written or writes one string.\<close>

lemma writes_string_by_cases:
  assumes "sink_ok A" and "closed_text s" and "short_text s"
    and "\<And>st. (\<exists>st1. w st = Some (False, st1) \<and> fs_data st1 = fs_data st \<and> \<not> sink_reliable A) \<or>
           (\<exists>st1. w st = write_utf8 A (Some s) st1 \<and> fs_data st1 = fs_data st)"
  shows "writes_text A w s"
proof -
  have "emits fs_data w (utf8 s)"
  proof (rule emitsI)
    fix st
    show "\<exists>ok p st'. w st = Some (ok, st') \<and> fs_data st' = fs_data st @ p \<and> prefix p (utf8 s) \<and> (ok \<longrightarrow> p = utf8 s)"
    proof (cases "\<exists>st1. w st = write_utf8 A (Some s) st1 \<and> fs_data st1 = fs_data st")
      case True
      then obtain st1 where st1: "w st = write_utf8 A (Some s) st1" "fs_data st1 = fs_data st" by blast
      then show ?thesis
        using write_utf8_emits [OF assms(1), of s] by (auto elim!: emitsE [of _ _ _ st1])
    next
      case False
      then obtain st1 where "w st = Some (False, st1)" "fs_data st1 = fs_data st" using assms(4) [of st] by blast
      then show ?thesis by (intro exI [of _ False] exI [of _ "[]"] exI [of _ st1]) simp
    qed
  qed
  moreover have "succeeds w" if R: "sink_reliable A"
  proof -
    have ok: "succeeds (write_utf8 A (Some s))"
      using reliable_text_sink.put_succeeds [of A s] assms(1,3) R short_text_bounds by blast
    have "\<exists>st'. w st = Some (True, st')" for st
      using assms(4) [of st] R ok by (metis succeedsE)
    then show ?thesis by (simp add: succeeds_def)
  qed
  ultimately show ?thesis using assms(2) by (simp add: writes_text_def)
qed

lemma writes_json_string:
  assumes "sink_ok A" and "strsafe_ok W" and "field_text v"
  shows "writes_text A (write_json_string A W (Some v)) (json_quote v)"
proof (rule writes_string_by_cases [OF assms(1) closed_json_quote])
  show "short_text (json_quote v)"
    using json_quote_length [of v] assms(3) by (simp add: short_text_def field_text_def)
  fix st
  have v: "0 \<notin> set v" using assms(3) by (simp add: field_text_def)
  have small: "\<not> unat ((SIZE_MAX div 2 - 3) div 6) < length v"
    using assms(3) by (simp add: field_text_def SIZE_MAX_def)
  show "(\<exists>st1. write_json_string A W (Some v) st = Some (False, st1) \<and> fs_data st1 = fs_data st \<and> \<not> sink_reliable A) \<or>
      (\<exists>st1. write_json_string A W (Some v) st = write_utf8 A (Some (json_quote v)) st1 \<and> fs_data st1 = fs_data st)"
    by (cases rule: write_json_string_cases [OF assms(2) v, of A st]) (use small in \<open>auto simp: sink_reliable_def\<close>)
qed

lemma closed_dec: "closed_text (dec n)"
proof -
  have "\<not> high_surrogate c" if "is_digit c" for c
    using that by (auto simp: is_digit_def high_surrogate_def word_le_nat_alt)
  then show ?thesis using dec_digits [OF last_in_set [OF dec_not_Nil]] by (simp add: closed_text_def)
qed

lemma closed_Cons: "\<not> high_surrogate c \<Longrightarrow> closed_text s \<Longrightarrow> closed_text (c # s)"
  by (auto simp: closed_text_def)

lemma low_units [simp]:
  "\<not> high_surrogate 10" "\<not> high_surrogate 13" "\<not> high_surrogate 32" "\<not> high_surrogate 34"
  "\<not> high_surrogate 44" "\<not> high_surrogate 58" "\<not> high_surrogate 91" "\<not> high_surrogate 93"
  "\<not> high_surrogate 123" "\<not> high_surrogate 125"
  by (simp_all add: high_surrogate_def)

lemma closed_Nil [simp]: "closed_text []"
  by (simp add: closed_text_def)

lemma closed_crlf [simp]: "closed_text crlf"
  by (simp add: closed_text_def crlf_def)

lemma closed_ends: "closed_text (s @ [c]) \<longleftrightarrow> \<not> high_surrogate c"
  by (simp add: closed_text_def)

lemma closed_wide: "\<forall>c \<in> set s. of_char c < (128 :: nat) \<Longrightarrow> closed_text (wide s)"
  using ascii_closed wide_ascii by blast

lemmas closed_simps = closed_append closed_Cons closed_ends closed_wide json_chars

lemma writes_json_field:
  assumes "sink_ok A" and "strsafe_ok W" and "field_text v"
    and "\<forall>c \<in> set name. of_char c < (128 :: nat)" and "length name \<le> 100"
  shows "writes_text A (write_json_field A W name v comma) (member_text (wide name) (JStr v) (\<not> comma))"
proof -
  let ?ss = "[wide ''    '' @ [QUOTE], wide name, [QUOTE] @ wide '': '', json_quote v,
      if comma then COMMA # crlf else crlf]"
  have "writes_text A (write_json_field A W name v comma) (concat ?ss)"
    unfolding write_json_field_def
    by (rule writes_chain)
      (use assms in \<open>simp add: writes_literal writes_json_string closed_simps short_text_def\<close>)
  moreover have "concat ?ss = member_text (wide name) (JStr v) (\<not> comma)"
    by (simp add: member_text_def scalar_text_def comma_unless_def)
  ultimately show ?thesis by simp
qed

lemma number_text:
  assumes "strsafe_ok W" and "n < 4294967296"
  shows "cch_printf W 64 ''%lu'' [FNum n] = dec n" and "cch_printf W 64 ''%u'' [FNum n] = dec n"
  using assms dec_length [of n 10] by (simp_all add: cch_printf_take conversion_spec_def zero_pad_def)

lemma writes_json_number:
  assumes "sink_ok A" and "\<forall>c \<in> set name. of_char c < (128 :: nat)" and "length name \<le> 100" and "n < 4294967296"
  shows "\<exists>ss. list_all2 (writes_text A) (json_number A name (dec n)) ss \<and> concat ss = member_text (wide name) (JNum n) False"
proof -
  have "length (dec n) \<le> 10" using assms(4) by (intro dec_length) auto
  then have "list_all2 (writes_text A) (json_number A name (dec n))
      [wide ''    '' @ [QUOTE] @ wide name @ [QUOTE] @ wide '': '', dec n, COMMA # crlf]"
    using assms by (simp add: json_number_def writes_literal closed_simps closed_dec short_text_def)
  then show ?thesis
    by (intro exI conjI, assumption) (simp add: member_text_def scalar_text_def comma_unless_def)
qed

section \<open>Timestamps\<close>

lemma word16_dec: "length (zero_pad k (dec (unat (x :: u16)))) \<le> max k 5"
proof -
  have "unat x < 2 ^ LENGTH(16)" by (rule unsigned_less)
  then have "length (dec (unat x)) \<le> 5" by (intro dec_length) auto
  then show ?thesis by (simp add: zero_pad_def)
qed

lemma timestamp_text_eq:
  "timestamp_text t =
     zero_pad 4 (dec (unat (wYear t))) @ 45 # zero_pad 2 (dec (unat (wMonth t))) @ 45 # zero_pad 2 (dec (unat (wDay t)))
     @ 84 # zero_pad 2 (dec (unat (wHour t))) @ 58 # zero_pad 2 (dec (unat (wMinute t)))
     @ 58 # zero_pad 2 (dec (unat (wSecond t))) @ 46 # zero_pad 3 (dec (unat (wMilliseconds t)))"
  by (simp add: timestamp_text_def conversion_spec_def wide_char_def)

lemma timestamp_text_length: "length (timestamp_text t) \<le> 41"
  using word16_dec [of 4 "wYear t"] word16_dec [of 2 "wMonth t"] word16_dec [of 2 "wDay t"]
    word16_dec [of 2 "wHour t"] word16_dec [of 2 "wMinute t"] word16_dec [of 2 "wSecond t"]
    word16_dec [of 3 "wMilliseconds t"]
  by (simp add: timestamp_text_eq)

lemma timestamp_text_field: "field_text (timestamp_text t)"
proof -
  have "0 \<notin> set (timestamp_text t)"
    unfolding timestamp_text_def by (rule vformat_no_nul) simp_all
  then show ?thesis using timestamp_text_length [of t] by (simp add: field_text_def)
qed

lemma format_timestamp_eq: "strsafe_ok W \<Longrightarrow> format_timestamp W t 64 = timestamp_text t"
  using timestamp_text_length [of t]
  by (simp add: format_timestamp_def cch_printf_take timestamp_text_def [symmetric] del: vformat.simps)

section \<open>Events\<close>

lemma event_field_texts:
  assumes "event_wf e"
  shows "field_text (ev_process_name e)" "field_text (ev_parent_name e)" "field_text (ev_details e)"
    "field_text (ev_protocol e)" "field_text (ev_local_address e)" "field_text (ev_remote_address e)"
    "field_text (ev_network_state e)" "field_text (ev_rule_name e)"
    "field_text (event_export_name t)" "field_text (alert_severity_name v)"
  using assms
  by (auto simp: event_wf_def str_fits_def array_lengths field_text_def event_export_name_def
      alert_severity_name_def wide_no_nul split: EventType.splits AlertSeverity.splits)

lemma list_all2_pieces:
  assumes "\<exists>ss. list_all2 P ws ss \<and> concat ss = a" and "\<exists>ss. list_all2 P vs ss \<and> concat ss = b"
  shows "\<exists>ss. list_all2 P (ws @ vs) ss \<and> concat ss = a @ b"
  using assms by (metis concat_append list_all2_appendI)

lemma list_all2_piece: "P w s \<Longrightarrow> \<exists>ss. list_all2 P [w] ss \<and> concat ss = s"
  by (intro exI [of _ "[s]"]) simp

lemma list_all2_Cons_piece:
  "P w s \<Longrightarrow> \<exists>ss. list_all2 P ws ss \<and> concat ss = t \<Longrightarrow> \<exists>ss. list_all2 P (w # ws) ss \<and> concat ss = s @ t"
  using list_all2_pieces [of P "[w]" s ws t] list_all2_piece [of P w s] by simp

lemma writes_pieces:
  "\<exists>ss. list_all2 (writes_text A) ws ss \<and> concat ss = t \<Longrightarrow> writes_text A (run_chain ws) t"
  using writes_chain by blast

lemma dword_bounds: "unat (x :: dword) < 4294967296" "unat (y :: u16) < 4294967296"
proof -
  have "unat x < 2 ^ LENGTH(32)" "unat y < 2 ^ LENGTH(16)" by (rule unsigned_less)+
  then show "unat x < 4294967296" "unat y < 4294967296" by auto
qed

lemma writes_json_event:
  assumes "sink_ok A" and "strsafe_ok W" and "event_wf e"
  shows "writes_text A (run_chain (json_event_writes A W e follows)) (object_text (event_fields e) (\<not> follows))"
proof -
  note texts = event_field_texts [OF assms(3)] timestamp_text_field
  note field = writes_json_field [OF assms(1,2)]
  note number = writes_json_number [OF assms(1)]
  have first: "writes_text A (utf8_literal A (wide ''  {'' @ crlf)) (wide ''  {'' @ crlf)"
    by (rule writes_literal [OF assms(1)]) (simp_all add: closed_simps short_text_def)
  have final: "writes_text A
      (utf8_literal A (if follows then wide ''  }'' @ COMMA # crlf else wide ''  }'' @ crlf))
      (wide ''  }'' @ comma_unless (\<not> follows) @ crlf)"
    using writes_literal [OF assms(1), of "wide ''  }'' @ comma_unless (\<not> follows) @ crlf"]
    by (cases follows) (simp_all add: closed_simps short_text_def comma_unless_def)
  have "\<exists>ss. list_all2 (writes_text A) (json_event_writes A W e follows) ss \<and> concat ss =
      ((wide ''  {'' @ crlf) @ member_text (wide ''timestamp'') (JStr (timestamp_text (ev_timestamp e))) (\<not> True)
       @ member_text (wide ''event_type'') (JStr (event_export_name (ev_type e))) (\<not> True)
       @ member_text (wide ''process_name'') (JStr (ev_process_name e)) (\<not> True))
      @ member_text (wide ''pid'') (JNum (unat (pid (ev_process e)))) False
      @ member_text (wide ''parent_pid'') (JNum (unat (pid (ev_parent e)))) False
      @ (member_text (wide ''details'') (JStr (ev_details e)) (\<not> True)
         @ member_text (wide ''protocol'') (JStr (ev_protocol e)) (\<not> True)
         @ member_text (wide ''local_address'') (JStr (ev_local_address e)) (\<not> True))
      @ member_text (wide ''local_port'') (JNum (unat (ev_local_port e))) False
      @ member_text (wide ''remote_address'') (JStr (ev_remote_address e)) (\<not> True)
      @ member_text (wide ''remote_port'') (JNum (unat (ev_remote_port e))) False
      @ (member_text (wide ''state'') (JStr (ev_network_state e)) (\<not> True)
         @ member_text (wide ''severity'') (JStr (alert_severity_name (ev_severity e))) (\<not> True)
         @ member_text (wide ''rule'') (JStr (ev_rule_name e)) (\<not> False)
         @ (wide ''  }'' @ comma_unless (\<not> follows) @ crlf))"
    unfolding json_event_writes_def number_text [OF assms(2) dword_bounds(1)]
      number_text [OF assms(2) dword_bounds(2)] format_timestamp_eq [OF assms(2)]
    by (intro list_all2_pieces list_all2_Cons_piece list_all2_piece first final field number texts dword_bounds)
      simp_all
  from writes_pieces [OF this] show ?thesis
    by (simp add: object_text_def event_fields_def)
qed

lemma run_chain_single: "run_chain [w] st = w st"
  by (cases "w st") auto

lemma run_chain_Cons: "run_chain [v, w] st = (case v st of None \<Rightarrow> None
    | Some (ok, st') \<Rightarrow> if ok then w st' else Some (False, st'))"
  by (cases "v st") (auto simp: run_chain_single simp del: run_chain.simps(2) simp: run_chain.simps(2) [of v])

text \<open>The loop: the texts of the events from \<open>index\<close> on, each knowing whether another follows.\<close>

fun loop_text :: "(TraceGlassEvent \<Rightarrow> bool \<Rightarrow> wstr) \<Rightarrow> TraceGlassEvent list \<Rightarrow> wstr" where
  "loop_text T [] = []"
| "loop_text T (e # es) = T e (es \<noteq> []) @ loop_text T es"

lemma writes_event_loop:
  assumes body: "\<And>e follows. e \<in> set (st_events s) \<Longrightarrow> writes_text A (run_chain (body e follows)) (T e follows)"
    and len: "unat (st_event_count s) = length (st_events s)"
  shows "writes_text A (event_loop body s index) (loop_text T (drop index (st_events s)))"
proof (induction "length (st_events s) - index" arbitrary: index)
  case 0
  then have "event_loop body s index = (\<lambda>st. Some (True, st))"
    using len by (intro ext) (subst event_loop.simps, simp)
  then show ?case
    using 0 by (auto simp: writes_text_def succeeds_def intro!: emitsI)
next
  case (Suc n)
  then have i: "index < length (st_events s)" by simp
  let ?e = "st_events s ! index"
  have follows: "index + 1 < unat (st_event_count s) \<longleftrightarrow> drop (index + 1) (st_events s) \<noteq> []"
    using len by (simp add: not_le)
  have "event_loop body s index
      = run_chain [run_chain (body ?e (index + 1 < unat (st_event_count s))), event_loop body s (index + 1)]"
  proof
    fix st
    show "event_loop body s index st
        = run_chain [run_chain (body ?e (index + 1 < unat (st_event_count s))), event_loop body s (index + 1)] st"
      using i len
      by (subst event_loop.simps)
        (cases "run_chain (body ?e (index + 1 < unat (st_event_count s))) st", auto simp: buf_simps run_chain_Cons simp del: run_chain.simps(2))
  qed
  moreover have "writes_text A
      (run_chain [run_chain (body ?e (index + 1 < unat (st_event_count s))), event_loop body s (index + 1)])
      (concat [T ?e (index + 1 < unat (st_event_count s)), loop_text T (drop (index + 1) (st_events s))])"
    by (rule writes_chain) (use body i Suc in simp)
  moreover have "drop index (st_events s) = ?e # drop (index + 1) (st_events s)"
    using i by (simp add: Cons_nth_drop_Suc)
  ultimately show ?case using follows by simp
qed

lemma objects_text_loop:
  "objects_text (map event_fields es) = loop_text (\<lambda>e follows. object_text (event_fields e) (\<not> follows)) es"
  by (induction es) simp_all

text \<open>What the export asks of the store: the invariant, and events whose strings fit their arrays.\<close>

definition exportable :: "EventStore \<Rightarrow> bool" where
  "exportable s \<longleftrightarrow> store_wf s \<and> (\<forall>e \<in> set (st_events s). event_wf e)"

lemma writes_json_export:
  assumes "sink_ok A" and "strsafe_ok W" and "exportable s"
  shows "writes_text A (write_json_export A W s first) (json_document (drop first (st_events s)))"
proof -
  have loop: "writes_text A (event_loop (json_event_writes A W) s first)
      (loop_text (\<lambda>e follows. object_text (event_fields e) (\<not> follows)) (drop first (st_events s)))"
    using assms by (intro writes_event_loop writes_json_event) (auto simp: exportable_def store_wf_def)
  have "writes_text A (write_json_export A W s first)
      (concat [91 # crlf, loop_text (\<lambda>e follows. object_text (event_fields e) (\<not> follows)) (drop first (st_events s)), 93 # crlf])"
    unfolding write_json_export_def
    by (rule writes_chain) (simp add: loop writes_literal assms closed_Cons short_text_def crlf_def)
  then show ?thesis by (simp add: json_document_def objects_text_loop)
qed

section \<open>Well-formed UTF-16 survives\<close>

text \<open>Events whose strings hold no unpaired surrogate: for these the encoding loses nothing.\<close>

definition paired_event :: "TraceGlassEvent \<Rightarrow> bool" where
  "paired_event e \<longleftrightarrow>
     list_all well_paired
       [ev_process_name e, ev_details e, ev_protocol e, ev_local_address e, ev_remote_address e,
        ev_network_state e, ev_rule_name e]"

lemma paired_ascii: "\<forall>c \<in> set s. unat c < 128 \<Longrightarrow> well_paired s"
  by (rule well_paired_plain) (auto simp: surrogate_def high_surrogate_def low_surrogate_def)

lemma paired_wide: "\<forall>c \<in> set s. of_char c < (128 :: nat) \<Longrightarrow> well_paired (wide s)"
  using paired_ascii wide_ascii by blast

lemma paired_digits: "\<forall>c \<in> set s. is_digit c \<Longrightarrow> well_paired s"
  by (rule paired_ascii) (auto simp: is_digit_def word_le_nat_alt)

lemma escape_plain: "\<not> surrogate c \<Longrightarrow> well_paired (json_escape c)"
proof (cases "c < 0x20")
  case True
  have "unat c < 32" using True by (simp add: word_less_nat_alt)
  have hd: "\<not> surrogate (hex_digit d)" if "d < 16" for d
  proof -
    have "unat (hex_digit d) < 128" using that by (simp add: hex_digit_def unat_of_nat)
    then show ?thesis by (simp add: surrogate_def high_surrogate_def low_surrogate_def)
  qed
  show ?thesis
    using True control_hex [OF \<open>unat c < 32\<close>] hd [of "unat c div 16"] hd [of "unat c mod 16"] \<open>unat c < 32\<close>
    by (intro well_paired_plain)
      (auto simp: json_escape_def short_escape_def W_BACKSLASH_def surrogate_def high_surrogate_def
        low_surrogate_def split: if_splits)
next
  case False
  assume "\<not> surrogate c"
  with False show ?thesis
    by (intro well_paired_plain)
      (auto simp: json_escape_def short_escape_def W_BACKSLASH_def surrogate_def high_surrogate_def
        low_surrogate_def split: if_splits)
qed

lemma escape_surrogate: "surrogate c \<Longrightarrow> json_escape c = [c]"
  by (auto simp: json_escape_def short_escape_def surrogate_def high_surrogate_def low_surrogate_def
      word_less_nat_alt)

lemma paired_escape: "well_paired v \<Longrightarrow> well_paired (concat (map json_escape v))"
proof (induction v rule: well_paired.induct)
  case (3 c d cs)
  show ?case
  proof (cases "high_surrogate c \<and> low_surrogate d")
    case True
    then show ?thesis using 3 by (simp add: escape_surrogate surrogate_def)
  next
    case False
    then have "\<not> surrogate c" "well_paired (d # cs)" using 3 by (auto split: if_splits)
    then show ?thesis using 3 False well_paired_append [OF escape_plain [of c]] by simp
  qed
qed (auto simp: escape_plain)

lemma paired_quote: "well_paired v \<Longrightarrow> well_paired (json_quote v)"
proof -
  assume "well_paired v"
  then have "well_paired ([34] @ concat (map json_escape v) @ [34])"
    by (intro well_paired_append paired_escape)
      (simp_all add: surrogate_def high_surrogate_def low_surrogate_def)
  then show ?thesis by (simp add: json_quote_def QUOTE_def)
qed

lemma paired_punctuation [simp]:
  "well_paired crlf" "well_paired [QUOTE]" "well_paired (comma_unless b)" "well_paired [91]" "well_paired [93]"
  by (rule paired_ascii, simp add: json_chars comma_unless_def)+

lemma quote_no_surrogate [simp]: "\<not> surrogate QUOTE" "\<not> surrogate 91" "\<not> surrogate 93"
  by (simp_all add: surrogate_def high_surrogate_def low_surrogate_def QUOTE_def)

definition paired_value :: "json \<Rightarrow> bool" where
  "paired_value v = (case v of JStr s \<Rightarrow> well_paired s | _ \<Rightarrow> True)"

lemma paired_member: "well_paired name \<Longrightarrow> paired_value v \<Longrightarrow> well_paired (member_text name v final)"
  unfolding member_text_def scalar_text_def paired_value_def
  by (intro well_paired_append)
    (auto simp: paired_wide paired_quote paired_digits dec_digits split: json.splits)

lemma paired_members: "\<forall>(n, v) \<in> set ms. well_paired n \<and> paired_value v \<Longrightarrow> well_paired (members_text ms)"
  by (induction ms rule: members_text.induct) (auto intro!: well_paired_append paired_member)

lemma paired_timestamp: "well_paired (timestamp_text t)"
proof (rule paired_ascii)
  have "unat c < 128" if "is_digit c" for c using that by (auto simp: is_digit_def word_le_nat_alt)
  then show "\<forall>c \<in> set (timestamp_text t). unat c < 128"
    by (auto simp: timestamp_text_eq dest!: zero_pad_digits)
qed

lemma paired_event_fields: "paired_event e \<Longrightarrow> \<forall>(n, v) \<in> set (event_fields e). well_paired n \<and> paired_value v"
  by (auto simp: event_fields_def paired_event_def paired_value_def paired_timestamp paired_wide
      event_export_name_def alert_severity_name_def split: EventType.splits AlertSeverity.splits)

lemma paired_objects:
  "\<forall>ms \<in> set mss. \<forall>(n, v) \<in> set ms. well_paired n \<and> paired_value v \<Longrightarrow> well_paired (objects_text mss)"
  by (induction mss)
    (auto simp: object_text_def paired_wide paired_members intro!: well_paired_append)

lemma paired_document: "\<forall>e \<in> set es. paired_event e \<Longrightarrow> well_paired (json_document es)"
proof -
  assume "\<forall>e \<in> set es. paired_event e"
  then have "well_paired (objects_text (map event_fields es))"
    using paired_event_fields by (intro paired_objects) (metis (no_types, lifting) imageE list.set_map)
  then have "well_paired ([91] @ crlf @ objects_text (map event_fields es) @ [93] @ crlf)"
    by (intro well_paired_append) simp_all
  then show ?thesis by (simp add: json_document_def)
qed

section \<open>Properties\<close>

text \<open>
  A platform for the witnesses: it writes at most seven bytes at a time and never fails.
\<close>

definition slow_sink :: sink_api where
  "slow_sink =
     \<lparr>WriteFile = (\<lambda>k d. (True, min 7 (length d), 0)),
      WideCharToMultiByte = (\<lambda>s n. if length (utf8 s) \<le> INT_MAX then (int (length (utf8 s)), utf8 s, 0) else (0, [], 0)),
      malloc_ok = (\<lambda>k n. True),
      heap_junk = (\<lambda>i. 0xCDCD)\<rparr>"

definition empty_file :: file_state where
  "empty_file = \<lparr>fs_data = [], fs_clock = 0, fs_error = 0\<rparr>"

lemma slow_sink_ok: "sink_ok slow_sink" "sink_reliable slow_sink"
  by (auto simp: sink_ok_def sink_reliable_def slow_sink_def)

lemma started_store_exportable: "exportable started_store"
  using started_store_wf
  by (simp add: exportable_def started_store_def start_event_def event_wf_def zero_event_def array_lengths)

lemma writes_success:
  assumes "writes_text A w s" and "w st = Some (True, st')"
  shows "fs_data st' = fs_data st @ utf8 s"
  using assms unfolding writes_text_def by (auto elim!: emitsE [of _ _ _ st])

text \<open>
  \<^bold>\<open>C15\<close>. For events whose texts are well-formed UTF-16 (every surrogate in a pair) a successful
  JSON export can be read back: the bytes it appends, decoded as UTF-8 and read by a JSON reader,
  are the array of the exported events' fields in log order, whatever characters they hold and
  however the writes were split.
\<close>

theorem json_export_reads_back:
  assumes "sink_ok A" and "strsafe_ok W" and "exportable s" and "\<forall>e \<in> set (st_events s). paired_event e"
    and "write_json_export A W s first st = Some (True, st')"
  shows "\<exists>bytes. fs_data st' = fs_data st @ bytes \<and>
           Option.bind (utf8_decode bytes) json_parse = Some (JArr (map (JObj \<circ> event_fields) (drop first (st_events s))))"
proof -
  let ?doc = "json_document (drop first (st_events s))"
  have "well_paired ?doc" by (rule paired_document) (use assms(4) in \<open>auto dest: in_set_dropD\<close>)
  then show ?thesis
    using writes_success [OF writes_json_export [OF assms(1,2,3)] assms(5)]
    by (intro exI [of _ "utf8 ?doc"]) (simp add: utf8_roundtrip json_parse_document)
qed

theorem json_export_reads_back_witness:
  "\<exists>st'. write_json_export slow_sink ascii_text started_store 0 empty_file = Some (True, st') \<and>
     Option.bind (utf8_decode (fs_data st')) json_parse = Some (JArr [JObj (event_fields (start_event\<lparr>ev_sequence := 1\<rparr>))])"
proof -
  have "succeeds (write_json_export slow_sink ascii_text started_store 0)"
    using writes_json_export [OF slow_sink_ok(1) ascii_text_strsafe started_store_exportable]
      slow_sink_ok(2) by (simp add: writes_text_def)
  then obtain st' where r: "write_json_export slow_sink ascii_text started_store 0 empty_file = Some (True, st')"
    by (rule succeedsE)
  have "\<forall>e \<in> set (st_events started_store). paired_event e"
    by (simp add: started_store_def start_event_def zero_event_def paired_event_def)
  from json_export_reads_back [OF slow_sink_ok(1) ascii_text_strsafe started_store_exportable this r]
  show ?thesis using r by (auto simp: empty_file_def started_store_def)
qed

text \<open>
  \<^bold>\<open>C19\<close>. \<^verbatim>\<open>write_json_string\<close> never leaves the array it allocates, whose size it computes with
  wrap-around arithmetic: it always returns, and when it succeeds the file has grown by the quoted string, which a
  JSON reader reads back as the value.
\<close>

theorem json_string_is_safe:
  assumes "sink_ok A" and "strsafe_ok W" and "0 \<notin> set v"
  shows "\<exists>ok st'. write_json_string A W (Some v) st = Some (ok, st') \<and>
           (ok \<longrightarrow> fs_data st' = fs_data st @ utf8 (json_quote v)) \<and>
           string_body (drop 1 (json_quote v)) = Some (v, [])"
proof -
  have read: "string_body (drop 1 (json_quote v)) = Some (v, [])"
    using string_body_quote [of v "[]"] by (simp add: json_quote_def)
  show ?thesis
  proof (cases rule: write_json_string_cases [OF assms(2,3), of A st])
    case (1 st1)
    then show ?thesis using read by (intro exI [of _ False] exI [of _ st1]) simp
  next
    case (2 st1)
    obtain ok p st' where "write_utf8 A (Some (json_quote v)) st1 = Some (ok, st')"
        "fs_data st' = fs_data st1 @ p" "ok \<longrightarrow> p = utf8 (json_quote v)"
      by (rule emitsE [OF write_utf8_emits [OF assms(1)]])
    then show ?thesis using 2 read by auto
  qed
qed

theorem json_string_is_safe_witness:
  "\<exists>ok st'. write_json_string slow_sink ascii_text (Some [34, 10, 1]) empty_file = Some (ok, st') \<and>
     string_body (drop 1 (json_quote [34, 10, 1])) = Some ([34, 10, 1], [])"
  using json_string_is_safe [OF slow_sink_ok(1) ascii_text_strsafe, of "[34, 10, 1]" empty_file] by auto

end
