(* ===== verification/TG_CsvExport.thy ===== *)
theory TG_CsvExport
  imports TG_JsonExport
begin

text \<open>
  The CSV and text writers of \<^verbatim>\<open>src/export.c\<close>. The CSV is read back by a reader written from
  RFC 4180; the text lines are shown to fit the writer's line buffer.
\<close>

section \<open>CSV fields\<close>

text \<open>The loop of \<^verbatim>\<open>write_csv_field\<close>: quotes are doubled.\<close>

fun csv_loop :: "wstr \<Rightarrow> wstr \<Rightarrow> nat \<Rightarrow> (wstr \<times> nat) option" where
  "csv_loop [] arr t = Some (arr, t)"
| "csv_loop (c # cs) arr t = do {
     (arr1, t1) \<leftarrow> (if c = QUOTE then put1 arr t QUOTE else Some (arr, t));
     (arr2, t2) \<leftarrow> put1 arr1 t1 c;
     csv_loop cs arr2 t2
   }"

definition write_csv_field :: "sink_api \<Rightarrow> wstr option \<Rightarrow> file_writer" where
  "write_csv_field A value_arg st =
     (let value = (case value_arg of None \<Rightarrow> [] | Some v \<Rightarrow> v);
          len = length value
      in if unat ((SIZE_MAX div 2 - 3) div 2) < len
         then Some (False, st\<lparr>fs_error := ERROR_BUFFER_OVERFLOW\<rparr>)
         else
           (let capacity = of_nat len * 2 + 3 in
            case wide_alloc A capacity st of
              (None, st1) \<Rightarrow> Some (False, st1)
            | (Some arr, st1) \<Rightarrow> (do {
                (arr1, t1) \<leftarrow> put1 arr 0 QUOTE;
                (arr2, t2) \<leftarrow> csv_loop value arr1 t1;
                (arr3, t3) \<leftarrow> put1 arr2 t2 QUOTE;
                arr4 \<leftarrow> buf_put arr3 t3 0;
                write_utf8 A (Some (cstr arr4)) st1 })))"

section \<open>CSV documents\<close>

definition utf8_bom :: "byte list" where
  "utf8_bom = [0xEF, 0xBB, 0xBF]"

definition csv_header :: wstr where
  "csv_header = wide ''timestamp,event_type,process_name,pid,parent_pid,details,protocol,local_address,local_port,remote_address,remote_port,state,severity,rule'' @ crlf"

text \<open>The macro \<^verbatim>\<open>CSV_TEXT\<close>.\<close>

definition csv_text :: "sink_api \<Rightarrow> wstr \<Rightarrow> file_writer list" where
  "csv_text A value = [write_csv_field A (Some value), utf8_literal A [COMMA]]"

definition csv_event_writes :: "sink_api \<Rightarrow> text_api \<Rightarrow> TraceGlassEvent \<Rightarrow> bool \<Rightarrow> file_writer list" where
  "csv_event_writes A W e follows =
     csv_text A (format_timestamp W (ev_timestamp e) 64) @
     csv_text A (event_export_name (ev_type e)) @
     csv_text A (ev_process_name e) @
     csv_text A (cch_printf W 64 ''%lu'' [FNum (unat (pid (ev_process e)))]) @
     csv_text A (cch_printf W 64 ''%lu'' [FNum (unat (pid (ev_parent e)))]) @
     csv_text A (ev_details e) @
     csv_text A (ev_protocol e) @
     csv_text A (ev_local_address e) @
     csv_text A (cch_printf W 64 ''%u'' [FNum (unat (ev_local_port e))]) @
     csv_text A (ev_remote_address e) @
     csv_text A (cch_printf W 64 ''%u'' [FNum (unat (ev_remote_port e))]) @
     csv_text A (ev_network_state e) @
     csv_text A (alert_severity_name (ev_severity e)) @
     [write_csv_field A (Some (ev_rule_name e)), utf8_literal A crlf]"

definition write_csv_export :: "sink_api \<Rightarrow> text_api \<Rightarrow> EventStore \<Rightarrow> nat \<Rightarrow> file_writer" where
  "write_csv_export A W s first_event =
     run_chain
       [write_all A utf8_bom,
        utf8_literal A csv_header,
        event_loop (csv_event_writes A W) s first_event]"

section \<open>Text documents\<close>

definition text_line :: "text_api \<Rightarrow> TraceGlassEvent \<Rightarrow> wstr" where
  "text_line W e =
     cch_printf W 1536 (''%s | %s | %s | PID %lu | Parent PID %lu | %s'' @ [CHR 0x0D, CHR 0x0A])
       [FStr (format_timestamp W (ev_timestamp e) 64), FStr (event_type_name (ev_type e)),
        FStr (ev_process_name e), FNum (unat (pid (ev_process e))), FNum (unat (pid (ev_parent e))),
        FStr (ev_details e)]"

definition text_event_writes :: "sink_api \<Rightarrow> text_api \<Rightarrow> TraceGlassEvent \<Rightarrow> bool \<Rightarrow> file_writer list" where
  "text_event_writes A W e follows = [utf8_literal A (text_line W e)]"

definition write_text_export :: "sink_api \<Rightarrow> text_api \<Rightarrow> EventStore \<Rightarrow> nat \<Rightarrow> file_writer" where
  "write_text_export A W s first_event =
     run_chain [write_all A utf8_bom, event_loop (text_event_writes A W) s first_event]"

section \<open>The texts\<close>

definition csv_escape :: "wchar \<Rightarrow> wstr" where
  "csv_escape c = (if c = QUOTE then [QUOTE, QUOTE] else [c])"

definition csv_quote :: "wstr \<Rightarrow> wstr" where
  "csv_quote s = QUOTE # concat (map csv_escape s) @ [QUOTE]"

definition event_row :: "TraceGlassEvent \<Rightarrow> wstr list" where
  "event_row e =
     [timestamp_text (ev_timestamp e), event_export_name (ev_type e), ev_process_name e,
      dec (unat (pid (ev_process e))), dec (unat (pid (ev_parent e))), ev_details e, ev_protocol e,
      ev_local_address e, dec (unat (ev_local_port e)), ev_remote_address e,
      dec (unat (ev_remote_port e)), ev_network_state e, alert_severity_name (ev_severity e),
      ev_rule_name e]"

fun row_text :: "wstr list \<Rightarrow> wstr" where
  "row_text [] = []"
| "row_text [f] = csv_quote f @ crlf"
| "row_text (f # fs) = csv_quote f @ COMMA # row_text fs"

text \<open>The byte order mark is the encoding of U+FEFF.\<close>

definition csv_document :: "TraceGlassEvent list \<Rightarrow> wstr" where
  "csv_document es = 0xFEFF # csv_header @ concat (map (row_text \<circ> event_row) es)"

definition text_record :: "TraceGlassEvent \<Rightarrow> wstr" where
  "text_record e =
     timestamp_text (ev_timestamp e) @ wide '' | '' @ event_type_name (ev_type e) @ wide '' | ''
     @ ev_process_name e @ wide '' | PID '' @ dec (unat (pid (ev_process e)))
     @ wide '' | Parent PID '' @ dec (unat (pid (ev_parent e))) @ wide '' | '' @ ev_details e @ crlf"

definition text_document :: "TraceGlassEvent list \<Rightarrow> wstr" where
  "text_document es = 0xFEFF # concat (map text_record es)"

section \<open>A CSV reader\<close>

text \<open>The rest of a quoted field after its opening quote.\<close>

fun csv_quoted :: "wstr \<Rightarrow> (wstr \<times> wstr) option" where
  "csv_quoted [] = None"
| "csv_quoted [c] = (if c = 34 then Some ([], []) else None)"
| "csv_quoted (c # d # cs) =
     (if c \<noteq> 34 then map_option (\<lambda>(s, rest). (c # s, rest)) (csv_quoted (d # cs))
      else if d = 34 then map_option (\<lambda>(s, rest). (34 # s, rest)) (csv_quoted cs)
      else Some ([], d # cs))"

definition csv_plain_char :: "wchar \<Rightarrow> bool" where
  "csv_plain_char c \<longleftrightarrow> c \<noteq> 34 \<and> c \<noteq> 44 \<and> c \<noteq> 13 \<and> c \<noteq> 10"

definition csv_field :: "wstr \<Rightarrow> (wstr \<times> wstr) option" where
  "csv_field s =
     (if take 1 s = [34] then csv_quoted (drop 1 s)
      else Some (takeWhile csv_plain_char s, dropWhile csv_plain_char s))"

fun csv_record :: "nat \<Rightarrow> wstr \<Rightarrow> (wstr list \<times> wstr) option" where
  "csv_record 0 s = None"
| "csv_record (Suc k) s =
     (case csv_field s of
        None \<Rightarrow> None
      | Some (f, r) \<Rightarrow>
          if take 1 r = [44] then map_option (\<lambda>(fs, rest). (f # fs, rest)) (csv_record k (drop 1 r))
          else if take 2 r = [13, 10] then Some ([f], drop 2 r)
          else None)"

fun csv_records :: "nat \<Rightarrow> wstr \<Rightarrow> wstr list list option" where
  "csv_records 0 s = None"
| "csv_records (Suc k) s =
     (if s = [] then Some []
      else case csv_record k s of
        None \<Rightarrow> None
      | Some (fs, rest) \<Rightarrow> map_option (Cons fs) (csv_records k rest))"

text \<open>A file, with the byte order mark skipped.\<close>

definition csv_parse :: "wstr \<Rightarrow> wstr list list option" where
  "csv_parse s = (let t = (if take 1 s = [0xFEFF] then drop 1 s else s) in csv_records (Suc (length t)) t)"

definition csv_columns :: "wstr list" where
  "csv_columns = map wide [''timestamp'', ''event_type'', ''process_name'', ''pid'', ''parent_pid'', ''details'',
     ''protocol'', ''local_address'', ''local_port'', ''remote_address'', ''remote_port'', ''state'', ''severity'', ''rule'']"

section \<open>Reading rows back\<close>

lemma csv_quoted_escape:
  "\<not> (\<exists>r. t = 34 # r) \<Longrightarrow> csv_quoted (concat (map csv_escape s) @ 34 # t) = Some (s, t)"
proof (induction s)
  case Nil
  then show ?case by (cases t) auto
next
  case (Cons c s)
  obtain d r where r: "concat (map csv_escape s) @ 34 # t = d # r"
    by (cases "concat (map csv_escape s) @ 34 # t") auto
  with Cons have "csv_quoted (d # r) = Some (s, t)" by simp
  then show ?case using r by (auto simp: csv_escape_def [of c] QUOTE_def)
qed

lemma csv_field_quote: "\<not> (\<exists>r. t = 34 # r) \<Longrightarrow> csv_field (csv_quote s @ t) = Some (s, t)"
  using csv_quoted_escape [of t s] by (simp add: csv_field_def csv_quote_def QUOTE_def)

lemma csv_record_row:
  "fs \<noteq> [] \<Longrightarrow> length fs \<le> k \<Longrightarrow> csv_record k (row_text fs @ rest) = Some (fs, rest)"
proof (induction fs arbitrary: k rule: row_text.induct)
  case (2 f)
  then obtain j where "k = Suc j" by (cases k) auto
  then show ?case by (simp add: csv_field_quote crlf_def)
next
  case (3 f g fs)
  then obtain j where k: "k = Suc j" by (cases k) auto
  with 3 have "csv_record j (row_text (g # fs) @ rest) = Some (g # fs, rest)" by simp
  then show ?case by (simp add: k csv_field_quote COMMA_def)
qed simp

lemma row_text_length: "fs \<noteq> [] \<Longrightarrow> length fs < length (row_text fs)"
  by (induction fs rule: row_text.induct) (auto simp: csv_quote_def crlf_def)

lemma csv_records_rows:
  "\<forall>fs \<in> set rows. fs \<noteq> [] \<Longrightarrow> length (concat (map row_text rows)) < k \<Longrightarrow>
   csv_records k (concat (map row_text rows)) = Some rows"
proof (induction rows arbitrary: k)
  case Nil
  then show ?case by (cases k) auto
next
  case (Cons fs rows)
  then obtain j where k: "k = Suc j" by (cases k) auto
  have fs: "fs \<noteq> []" "length fs < length (row_text fs)" using Cons.prems row_text_length by auto
  then have "csv_record j (row_text fs @ concat (map row_text rows)) = Some (fs, concat (map row_text rows))"
    using Cons.prems k by (intro csv_record_row) auto
  moreover have "csv_records j (concat (map row_text rows)) = Some rows"
    using Cons fs k by auto
  ultimately show ?case using fs k by auto
qed

text \<open>The header line has no quotes; its fields are plain.\<close>

lemma csv_record_plain:
  "\<forall>c \<in> set f. csv_plain_char c \<Longrightarrow> f \<noteq> [] \<Longrightarrow>
   csv_record (Suc k) (f @ 44 # s) = map_option (\<lambda>(fs, rest). (f # fs, rest)) (csv_record k s) \<and>
   csv_record (Suc k) (f @ 13 # 10 # s) = Some ([f], s)"
proof -
  assume f: "\<forall>c \<in> set f. csv_plain_char c" "f \<noteq> []"
  have "takeWhile csv_plain_char (f @ x # t) = f \<and> dropWhile csv_plain_char (f @ x # t) = x # t"
    if "\<not> csv_plain_char x" for x t
    using f(1) that by (simp add: takeWhile_append dropWhile_append)
  moreover have "\<not> csv_plain_char 44" "\<not> csv_plain_char 13" by (simp_all add: csv_plain_char_def)
  moreover have "take 1 (f @ t) \<noteq> [34]" for t
    using f by (cases f) (auto simp: csv_plain_char_def)
  ultimately show ?thesis by (simp add: csv_field_def)
qed

fun plain_row :: "wstr list \<Rightarrow> wstr" where
  "plain_row [] = []"
| "plain_row [f] = f @ crlf"
| "plain_row (f # fs) = f @ COMMA # plain_row fs"

lemma csv_record_plain_row:
  "fs \<noteq> [] \<Longrightarrow> \<forall>f \<in> set fs. f \<noteq> [] \<and> (\<forall>c \<in> set f. csv_plain_char c) \<Longrightarrow> length fs \<le> k \<Longrightarrow>
   csv_record k (plain_row fs @ rest) = Some (fs, rest)"
proof (induction fs arbitrary: k rule: plain_row.induct)
  case (2 f)
  then obtain j where "k = Suc j" by (cases k) auto
  then show ?case using 2 csv_record_plain [of f j rest] by (simp add: crlf_def del: csv_record.simps)
next
  case (3 f g fs)
  then obtain j where k: "k = Suc j" by (cases k) auto
  with 3 have "csv_record j (plain_row (g # fs) @ rest) = Some (g # fs, rest)" by simp
  then show ?case
    using 3 csv_record_plain [of f j "plain_row (g # fs) @ rest"] by (simp add: k COMMA_def del: csv_record.simps)
qed simp

lemma csv_header_row: "csv_header = plain_row csv_columns"
  by (simp add: csv_header_def csv_columns_def wide_def wide_char_def COMMA_def)

lemma csv_columns_plain: "\<forall>f \<in> set csv_columns. f \<noteq> [] \<and> (\<forall>c \<in> set f. csv_plain_char c)"
  by (simp add: csv_columns_def csv_plain_char_def wide_def wide_char_def)

lemma event_row_not_Nil: "event_row e \<noteq> []"
  by (simp add: event_row_def)

lemma csv_parse_document: "csv_parse (csv_document es) = Some (csv_columns # map event_row es)"
proof -
  let ?rows = "concat (map row_text (map event_row es))"
  let ?k = "length (csv_header @ ?rows)"
  have h: "0 < length csv_header" "14 \<le> length csv_header"
    by (simp_all add: csv_header_def)
  have "csv_record ?k (csv_header @ ?rows) = Some (csv_columns, ?rows)"
    unfolding csv_header_row
    by (rule csv_record_plain_row [OF _ csv_columns_plain])
      (use h in \<open>simp_all add: csv_columns_def csv_header_row\<close>)
  moreover have "csv_records ?k ?rows = Some (map event_row es)"
    by (rule csv_records_rows) (use h in \<open>auto simp: event_row_not_Nil\<close>)
  moreover have "csv_header \<noteq> []" using h by auto
  ultimately have "csv_records (Suc ?k) (csv_header @ ?rows) = Some (csv_columns # map event_row es)"
    by simp
  then show ?thesis by (simp add: csv_parse_def csv_document_def comp_def Let_def del: csv_records.simps)
qed

section \<open>The writers emit the texts\<close>

lemma csv_loop_holds:
  "holds_text cap out arr t \<Longrightarrow> t + 2 * length cs + 2 \<le> cap \<Longrightarrow>
   \<exists>arr' t'. csv_loop cs arr t = Some (arr', t')
      \<and> holds_text cap (out @ concat (map csv_escape cs)) arr' t' \<and> t' + 2 \<le> cap"
proof (induction cs arbitrary: out arr t)
  case (Cons c cs)
  have room: "t < cap" "t + 1 < cap" using Cons.prems(2) by auto
  show ?case
  proof (cases "c = QUOTE")
    case True
    obtain a1 where 1: "put1 arr t QUOTE = Some (a1, t + 1)" "holds_text cap (out @ [QUOTE]) a1 (t + 1)"
      using put1_holds [OF Cons.prems(1) room(1)] by blast
    obtain a2 where 2: "put1 a1 (t + 1) c = Some (a2, t + 1 + 1)" "holds_text cap ((out @ [QUOTE]) @ [c]) a2 (t + 1 + 1)"
      using put1_holds [OF 1(2) room(2)] by blast
    have "t + 1 + 1 + 2 * length cs + 2 \<le> cap" using Cons.prems(2) by simp
    from Cons.IH [OF 2(2) this] show ?thesis using 1(1) 2(1) True by (auto simp: csv_escape_def)
  next
    case False
    obtain a1 where 1: "put1 arr t c = Some (a1, t + 1)" "holds_text cap (out @ [c]) a1 (t + 1)"
      using put1_holds [OF Cons.prems(1) room(1)] by blast
    have "t + 1 + 2 * length cs + 2 \<le> cap" using Cons.prems(2) by simp
    from Cons.IH [OF 1(2) this] show ?thesis using 1(1) False by (auto simp: csv_escape_def)
  qed
qed auto

lemma csv_capacity:
  assumes "\<not> unat ((SIZE_MAX div 2 - 3) div 2) < n"
  shows "unat (of_nat n * 2 + 3 :: u64) = 2 * n + 3" and "unat ((of_nat n * 2 + 3 :: u64) * 2) div 2 = 2 * n + 3"
proof -
  have "unat ((SIZE_MAX div 2 - 3) div 2) = 4611686018427387902" by (simp add: SIZE_MAX_def)
  with assms have n: "n \<le> 4611686018427387902" by simp
  then show c: "unat (of_nat n * 2 + 3 :: u64) = 2 * n + 3"
    by (simp add: unat_word_ariths unat_of_nat)
  show "unat ((of_nat n * 2 + 3 :: u64) * 2) div 2 = 2 * n + 3"
    using n by (subst unat_word_ariths) (simp add: c)
qed

lemma csv_quote_no_nul: "0 \<notin> set v \<Longrightarrow> 0 \<notin> set (csv_quote v)"
  by (auto simp: csv_quote_def csv_escape_def QUOTE_def split: if_splits)

lemma write_csv_field_cases:
  assumes "0 \<notin> set v"
  obtains st1 where "write_csv_field A (Some v) st = Some (False, st1)" "fs_data st1 = fs_data st"
      "unat ((SIZE_MAX div 2 - 3) div 2) < length v \<or> (\<exists>k n. \<not> malloc_ok A k n)"
  | st1 where "write_csv_field A (Some v) st = write_utf8 A (Some (csv_quote v)) st1"
      "fs_data st1 = fs_data st"
proof (cases "unat ((SIZE_MAX div 2 - 3) div 2) < length v")
  case True
  then show thesis
    using that(1) [of "st\<lparr>fs_error := ERROR_BUFFER_OVERFLOW\<rparr>"] by (simp add: write_csv_field_def)
next
  case False
  note cap = csv_capacity [OF False]
  let ?c = "of_nat (length v) * 2 + 3 :: u64" and ?n = "2 * length v + 3"
  show thesis
  proof (cases "malloc_ok A (fs_clock st) (unat (?c * 2))")
    case fails: False
    then show thesis
      using that(1) [of "st\<lparr>fs_clock := fs_clock st + 1, fs_error := ERROR_OUTOFMEMORY\<rparr>"] False
      by (auto simp: write_csv_field_def wide_alloc_def Let_def)
  next
    case True
    let ?arr = "map (heap_junk A) [0..<?n]" and ?st = "st\<lparr>fs_clock := fs_clock st + 1\<rparr>"
    have alloc: "wide_alloc A ?c st = (Some ?arr, ?st)"
      using True cap by (simp only: wide_alloc_def Let_def if_True)
    have "holds_text ?n [] ?arr 0" by (simp add: holds_text_def)
    then obtain a1 where 1: "put1 ?arr 0 QUOTE = Some (a1, 1)" "holds_text ?n [QUOTE] a1 1"
      using put1_holds [of ?n "[]" ?arr 0 QUOTE] by auto
    obtain a2 t2 where 2: "csv_loop v a1 1 = Some (a2, t2)" "t2 + 2 \<le> ?n"
        "holds_text ?n ([QUOTE] @ concat (map csv_escape v)) a2 t2"
      using csv_loop_holds [OF 1(2), of v] by auto
    obtain a3 where 3: "put1 a2 t2 QUOTE = Some (a3, t2 + 1)" "holds_text ?n (csv_quote v) a3 (t2 + 1)"
      using put1_holds [OF 2(3), of QUOTE] 2(2) by (auto simp: csv_quote_def)
    have in4: "t2 + 1 < length a3" using 3(2) 2(2) by (simp add: holds_text_def)
    have "a3[t2 + 1 := 0] = csv_quote v @ 0 # drop (Suc (t2 + 1)) a3"
      using 3(2) in4 unfolding upd_conv_take_nth_drop [OF in4] by (metis holds_text_def)
    then have built: "cstr (a3[t2 + 1 := 0]) = csv_quote v"
      using csv_quote_no_nul [OF assms] by (simp add: cstr_append_nul)
    have "write_csv_field A (Some v) st = write_utf8 A (Some (csv_quote v)) ?st"
      using False alloc 1(1) 2(1) 3(1) in4 built
      by (simp add: write_csv_field_def buf_simps)
    then show thesis using that(2) [of ?st] by simp
  qed
qed

lemma closed_csv_quote: "closed_text (csv_quote v)"
  by (simp add: closed_text_def csv_quote_def QUOTE_def)

lemma csv_quote_length: "length (csv_quote v) \<le> 2 * length v + 2"
  by (induction v) (simp_all add: csv_quote_def csv_escape_def)

lemma writes_csv_field:
  assumes "sink_ok A" and "field_text v"
  shows "writes_text A (write_csv_field A (Some v)) (csv_quote v)"
proof (rule writes_string_by_cases [OF assms(1) closed_csv_quote])
  show "short_text (csv_quote v)"
    using csv_quote_length [of v] assms(2) by (simp add: short_text_def field_text_def)
  fix st
  have v: "0 \<notin> set v" using assms(2) by (simp add: field_text_def)
  have small: "\<not> unat ((SIZE_MAX div 2 - 3) div 2) < length v"
    using assms(2) by (simp add: field_text_def SIZE_MAX_def)
  show "(\<exists>st1. write_csv_field A (Some v) st = Some (False, st1) \<and> fs_data st1 = fs_data st \<and> \<not> sink_reliable A) \<or>
      (\<exists>st1. write_csv_field A (Some v) st = write_utf8 A (Some (csv_quote v)) st1 \<and> fs_data st1 = fs_data st)"
    by (cases rule: write_csv_field_cases [OF v, of A st]) (use small in \<open>auto simp: sink_reliable_def\<close>)
qed

lemma field_dec: "n < 4294967296 \<Longrightarrow> field_text (dec n)"
proof -
  assume "n < 4294967296"
  then have "length (dec n) \<le> 10" by (intro dec_length) auto
  then show ?thesis using digits_no_nul [of "dec n"] dec_digits by (auto simp: field_text_def)
qed

lemma writes_csv_text:
  assumes "sink_ok A" and "field_text v"
  shows "\<exists>ss. list_all2 (writes_text A) (csv_text A v) ss \<and> concat ss = csv_quote v @ [COMMA]"
  using writes_csv_field [OF assms] writes_literal [OF assms(1), of "[COMMA]"]
  by (intro exI [of _ "[csv_quote v, [COMMA]]"]) (simp add: csv_text_def closed_simps short_text_def)

lemma writes_csv_event:
  assumes "sink_ok A" and "strsafe_ok W" and "event_wf e"
  shows "writes_text A (run_chain (csv_event_writes A W e follows)) (row_text (event_row e))"
proof -
  note texts = event_field_texts [OF assms(3)] timestamp_text_field
  note csv = writes_csv_text [OF assms(1)]
  have crlf: "writes_text A (utf8_literal A crlf) crlf"
    by (rule writes_literal [OF assms(1)]) (simp_all add: closed_simps short_text_def)
  have "\<exists>ss. list_all2 (writes_text A) (csv_event_writes A W e follows) ss \<and> concat ss =
      (csv_quote (timestamp_text (ev_timestamp e)) @ [COMMA])
      @ (csv_quote (event_export_name (ev_type e)) @ [COMMA])
      @ (csv_quote (ev_process_name e) @ [COMMA])
      @ (csv_quote (dec (unat (pid (ev_process e)))) @ [COMMA])
      @ (csv_quote (dec (unat (pid (ev_parent e)))) @ [COMMA])
      @ (csv_quote (ev_details e) @ [COMMA])
      @ (csv_quote (ev_protocol e) @ [COMMA])
      @ (csv_quote (ev_local_address e) @ [COMMA])
      @ (csv_quote (dec (unat (ev_local_port e))) @ [COMMA])
      @ (csv_quote (ev_remote_address e) @ [COMMA])
      @ (csv_quote (dec (unat (ev_remote_port e))) @ [COMMA])
      @ (csv_quote (ev_network_state e) @ [COMMA])
      @ (csv_quote (alert_severity_name (ev_severity e)) @ [COMMA])
      @ (csv_quote (ev_rule_name e) @ crlf)"
    unfolding csv_event_writes_def number_text [OF assms(2) dword_bounds(1)]
      number_text [OF assms(2) dword_bounds(2)] format_timestamp_eq [OF assms(2)]
    by (intro list_all2_pieces list_all2_Cons_piece list_all2_piece csv crlf
        writes_csv_field [OF assms(1)] texts field_dec dword_bounds)
  from writes_pieces [OF this] show ?thesis by (simp add: event_row_def)
qed

lemma bom_text: "utf8 [0xFEFF] = utf8_bom"
  by (simp add: utf8_def utf8_char_def utf8_bom_def surrogate_def high_surrogate_def low_surrogate_def)

lemma writes_bom: "sink_ok A \<Longrightarrow> writes_text A (write_all A utf8_bom) [0xFEFF]"
  using write_all_emits [of A utf8_bom] raw_sink.put_succeeds [of A utf8_bom]
  by (simp add: writes_text_def bom_text closed_text_def high_surrogate_def)

lemma loop_text_rows: "loop_text (\<lambda>e follows. T e) es = concat (map T es)"
  by (induction es) simp_all

lemma writes_csv_export:
  assumes "sink_ok A" and "strsafe_ok W" and "exportable s"
  shows "writes_text A (write_csv_export A W s first) (csv_document (drop first (st_events s)))"
proof -
  have loop: "writes_text A (event_loop (csv_event_writes A W) s first)
      (loop_text (\<lambda>e follows. row_text (event_row e)) (drop first (st_events s)))"
    using assms by (intro writes_event_loop writes_csv_event) (auto simp: exportable_def store_wf_def)
  have header: "writes_text A (utf8_literal A csv_header) csv_header"
    by (rule writes_literal [OF assms(1)]) (simp_all add: csv_header_def closed_simps short_text_def)
  have "writes_text A (write_csv_export A W s first)
      (concat [[0xFEFF], csv_header, loop_text (\<lambda>e follows. row_text (event_row e)) (drop first (st_events s))])"
    unfolding write_csv_export_def
    by (rule writes_chain) (simp add: loop header writes_bom assms)
  then show ?thesis by (simp add: csv_document_def loop_text_rows comp_def)
qed

lemma event_type_name_field: "field_text (event_type_name t)" "length (event_type_name t) \<le> 13"
  by (auto simp: event_type_name_def field_text_def wide_no_nul split: EventType.splits)

text \<open>The line buffer of 1536 characters holds the longest line an event can give.\<close>

lemma text_line_eq:
  assumes "strsafe_ok W" and "event_wf e"
  shows "text_line W e = text_record e" and "length (text_record e) < 1536"
proof -
  have "length (ev_process_name e) < 260" "length (ev_details e) < 1024"
    using assms(2) by (simp_all add: event_wf_def str_fits_def array_lengths)
  moreover have "length (dec (unat (x :: dword))) \<le> 10" for x
    using dword_bounds(1) [of x] by (intro dec_length) auto
  note this [of "pid (ev_process e)"] this [of "pid (ev_parent e)"]
  ultimately show len: "length (text_record e) < 1536"
    using timestamp_text_length [of "ev_timestamp e"] event_type_name_field(2) [of "ev_type e"]
    by (simp add: text_record_def crlf_def)
  have "vformat (''%s | %s | %s | PID %lu | Parent PID %lu | %s'' @ [CHR 0x0D, CHR 0x0A])
       [FStr (timestamp_text (ev_timestamp e)), FStr (event_type_name (ev_type e)),
        FStr (ev_process_name e), FNum (unat (pid (ev_process e))), FNum (unat (pid (ev_parent e))),
        FStr (ev_details e)] = text_record e"
    by (simp add: text_record_def conversion_spec_def wide_def wide_char_def zero_pad_def crlf_def)
  then show "text_line W e = text_record e"
    using assms(1) len by (simp add: text_line_def format_timestamp_eq cch_printf_take del: vformat.simps)
qed

lemma writes_text_export:
  assumes "sink_ok A" and "strsafe_ok W" and "exportable s"
  shows "writes_text A (write_text_export A W s first) (text_document (drop first (st_events s)))"
proof -
  have body: "writes_text A (run_chain (text_event_writes A W e follows)) (text_record e)"
    if "e \<in> set (st_events s)" for e follows
  proof -
    have wf: "event_wf e" using that assms(3) by (simp add: exportable_def)
    have "closed_text (text_record e)"
      unfolding text_record_def closed_text_def crlf_def by (simp add: last_append)
    then have "writes_text A (utf8_literal A (text_record e)) (text_record e)"
      using text_line_eq(2) [OF assms(2) wf] by (intro writes_literal assms(1)) (simp_all add: short_text_def)
    moreover have "run_chain [w] = w" for w :: file_writer by (rule ext) (rule run_chain_single)
    ultimately show ?thesis using text_line_eq(1) [OF assms(2) wf] by (simp only: text_event_writes_def)
  qed
  have loop: "writes_text A (event_loop (text_event_writes A W) s first)
      (loop_text (\<lambda>e follows. text_record e) (drop first (st_events s)))"
    using assms body by (intro writes_event_loop) (auto simp: exportable_def store_wf_def)
  have "writes_text A (write_text_export A W s first)
      (concat [[0xFEFF], loop_text (\<lambda>e follows. text_record e) (drop first (st_events s))])"
    unfolding write_text_export_def by (rule writes_chain) (simp add: loop writes_bom assms)
  then show ?thesis by (simp add: text_document_def loop_text_rows)
qed

section \<open>Properties\<close>

lemma csv_escape_plain: "\<not> surrogate c \<Longrightarrow> well_paired (csv_escape c)"
  by (rule well_paired_plain) (auto simp: csv_escape_def)

lemma paired_csv_escape: "well_paired v \<Longrightarrow> well_paired (concat (map csv_escape v))"
proof (induction v rule: well_paired.induct)
  case (3 c d cs)
  show ?case
  proof (cases "high_surrogate c \<and> low_surrogate d")
    case True
    then have "csv_escape c = [c]" "csv_escape d = [d]"
      by (auto simp: csv_escape_def QUOTE_def low_surrogate_def)
    then show ?thesis using 3 True by simp
  next
    case False
    then have "\<not> surrogate c" "well_paired (d # cs)" using 3 by (auto split: if_splits)
    then show ?thesis using 3 False well_paired_append [OF csv_escape_plain [of c]] by simp
  qed
qed (auto simp: csv_escape_plain)

lemma paired_csv_quote: "well_paired v \<Longrightarrow> well_paired (csv_quote v)"
  using well_paired_append [of "[QUOTE]" "concat (map csv_escape v) @ [QUOTE]"]
    well_paired_append [OF paired_csv_escape [of v], of "[QUOTE]"]
  by (simp add: csv_quote_def)

lemma paired_row: "\<forall>f \<in> set fs. well_paired f \<Longrightarrow> well_paired (row_text fs)"
proof (induction fs rule: row_text.induct)
  case (2 f)
  then show ?case by (auto intro: well_paired_append paired_csv_quote)
next
  case (3 f g fs)
  then have "well_paired (csv_quote f @ [COMMA] @ row_text (g # fs))"
    by (intro well_paired_append paired_csv_quote) (auto simp: surrogate_def high_surrogate_def low_surrogate_def COMMA_def)
  then show ?case by simp
qed simp

lemma paired_event_row: "paired_event e \<Longrightarrow> \<forall>f \<in> set (event_row e). well_paired f"
  by (auto simp: event_row_def paired_event_def paired_timestamp paired_wide paired_digits dec_digits
      event_export_name_def alert_severity_name_def split: EventType.splits AlertSeverity.splits)

lemma paired_rows: "\<forall>e \<in> set es. paired_event e \<Longrightarrow> well_paired (concat (map (row_text \<circ> event_row) es))"
  by (induction es) (auto intro!: well_paired_append paired_row paired_event_row)

lemma paired_csv_document: "\<forall>e \<in> set es. paired_event e \<Longrightarrow> well_paired (csv_document es)"
proof -
  assume "\<forall>e \<in> set es. paired_event e"
  then have "well_paired ([0xFEFF] @ csv_header @ concat (map (row_text \<circ> event_row) es))"
    unfolding csv_header_def
    by (intro well_paired_append paired_rows paired_wide)
      (simp_all add: surrogate_def high_surrogate_def low_surrogate_def)
  then show ?thesis by (simp add: csv_document_def)
qed

text \<open>
  \<^bold>\<open>C16\<close>. For events whose texts are well-formed UTF-16 (every surrogate in a pair, which names
  taken from the system need not be) a successful CSV export can be read back: its bytes, decoded
  as UTF-8 and read by an RFC 4180 reader, are the header and one record of fourteen fields per
  exported event, whatever quotes, commas or line breaks the fields hold.
\<close>

theorem csv_export_reads_back:
  assumes "sink_ok A" and "strsafe_ok W" and "exportable s" and "\<forall>e \<in> set (st_events s). paired_event e"
    and "write_csv_export A W s first st = Some (True, st')"
  shows "\<exists>bytes. fs_data st' = fs_data st @ bytes \<and>
           Option.bind (utf8_decode bytes) csv_parse = Some (csv_columns # map event_row (drop first (st_events s)))"
proof -
  let ?doc = "csv_document (drop first (st_events s))"
  have "well_paired ?doc" by (rule paired_csv_document) (use assms(4) in \<open>auto dest: in_set_dropD\<close>)
  then show ?thesis
    using writes_success [OF writes_csv_export [OF assms(1,2,3)] assms(5)]
    by (intro exI [of _ "utf8 ?doc"]) (simp add: utf8_roundtrip csv_parse_document)
qed

theorem csv_export_reads_back_witness:
  "\<exists>st'. write_csv_export slow_sink ascii_text started_store 0 empty_file = Some (True, st') \<and>
     Option.bind (utf8_decode (fs_data st')) csv_parse = Some [csv_columns, event_row (start_event\<lparr>ev_sequence := 1\<rparr>)]"
proof -
  have "succeeds (write_csv_export slow_sink ascii_text started_store 0)"
    using writes_csv_export [OF slow_sink_ok(1) ascii_text_strsafe started_store_exportable]
      slow_sink_ok(2) by (simp add: writes_text_def)
  then obtain st' where r: "write_csv_export slow_sink ascii_text started_store 0 empty_file = Some (True, st')"
    by (rule succeedsE)
  have "\<forall>e \<in> set (st_events started_store). paired_event e"
    by (simp add: started_store_def start_event_def zero_event_def paired_event_def)
  from csv_export_reads_back [OF slow_sink_ok(1) ascii_text_strsafe started_store_exportable this r]
  show ?thesis using r by (auto simp: empty_file_def started_store_def)
qed

text \<open>
  A successful text export writes one complete line per exported event: no line is cut by
  the 1536-character buffer it is formatted in.
\<close>

lemma text_export_writes_whole_lines:
  assumes "sink_ok A" and "strsafe_ok W" and "exportable s"
    and "write_text_export A W s first st = Some (True, st')"
  shows "fs_data st' = fs_data st @ utf8_bom @ concat (map (utf8 \<circ> text_record) (drop first (st_events s)))"
proof -
  have "closed_text (text_record e)" for e
    unfolding text_record_def closed_text_def crlf_def by (simp add: last_append)
  then have "utf8 (concat (map text_record es)) = concat (map (utf8 \<circ> text_record) es)" for es
    by (simp add: utf8_concat comp_def)
  moreover have "utf8 ([0xFEFF] @ s) = utf8_bom @ utf8 s" for s
    unfolding bom_text [symmetric] by (rule utf8_closed) (simp add: closed_text_def high_surrogate_def)
  ultimately show ?thesis
    using writes_success [OF writes_text_export [OF assms(1,2,3)] assms(4)]
    by (simp add: text_document_def)
qed

end
