(* ===== verification/TG_Export.thy ===== *)
theory TG_Export
  imports TG_CsvExport
begin

text \<open>
  The entry points of \<^verbatim>\<open>src/export.c\<close>: \<^verbatim>\<open>export_events_to_file\<close> with its error message and the
  save dialog's path and extension handling.
\<close>

section \<open>Data\<close>

datatype ExportFormat = EXPORT_FORMAT_JSON | EXPORT_FORMAT_CSV | EXPORT_FORMAT_TEXT | EXPORT_FORMAT_UNLISTED int

datatype ExportResult = EXPORT_RESULT_CANCELLED | EXPORT_RESULT_SUCCEEDED | EXPORT_RESULT_FAILED

text \<open>
  \<^item> \<open>CreateFileW path\<close>: the last error when the file cannot be created; a created file is empty.
  \<^item> \<open>CloseHandle k\<close>: the last error when closing fails (a buffered write may fail there).
\<close>

record file_api =
  CreateFileW :: "wstr \<Rightarrow> dword option"
  CloseHandle :: "nat \<Rightarrow> dword option"

text \<open>The answer of \<^verbatim>\<open>GetSaveFileNameW\<close>: the path and filter chosen, or \<^verbatim>\<open>CommDlgExtendedError\<close>.\<close>

datatype dialog_answer = DialogChosen wstr nat | DialogEnded dword

section \<open>Writing a file\<close>

definition set_export_error :: "text_api \<Rightarrow> wstr option \<Rightarrow> nat \<Rightarrow> string \<Rightarrow> dword \<Rightarrow> wstr option" where
  "set_export_error W buffer n operation error =
     (case buffer of
        None \<Rightarrow> None
      | Some b \<Rightarrow>
          if n = 0 then Some b
          else Some (cch_printf W n
            (''%s'' @ [CHR 0x0D, CHR 0x0A, CHR 0x0D, CHR 0x0A] @ ''Reason:'' @ [CHR 0x0D, CHR 0x0A] @ ''%s'')
            [FStr (wide operation), FStr (format_windows_error W error 256)]))"

definition clear_message :: "wstr option \<Rightarrow> nat \<Rightarrow> wstr option" where
  "clear_message buffer n = (case buffer of None \<Rightarrow> None | Some b \<Rightarrow> if n > 0 then Some [] else Some b)"

definition write_export :: "sink_api \<Rightarrow> text_api \<Rightarrow> EventStore \<Rightarrow> nat \<Rightarrow> ExportFormat \<Rightarrow> file_writer" where
  "write_export A W s first_event format =
     (if format = EXPORT_FORMAT_JSON then write_json_export A W s first_event
      else if format = EXPORT_FORMAT_CSV then write_csv_export A W s first_event
      else write_text_export A W s first_event)"

text \<open>The return value, the message buffer, and the file if one was created.\<close>

definition export_events_to_file ::
  "file_api \<Rightarrow> sink_api \<Rightarrow> text_api \<Rightarrow> EventStore option \<Rightarrow> u64 \<Rightarrow> wstr option \<Rightarrow> ExportFormat \<Rightarrow>
     wstr option \<Rightarrow> nat \<Rightarrow> (bool \<times> wstr option \<times> file_state option) option" where
  "export_events_to_file F A W store first_event path format error_message n =
     (let message = clear_message error_message n in
      case (store, path) of
        (Some s, Some p) \<Rightarrow>
          if st_event_count s < first_event
          then Some (False, set_export_error W message n ''Events could not be exported.'' ERROR_INVALID_PARAMETER, None)
          else (case CreateFileW F p of
            Some e \<Rightarrow> Some (False, set_export_error W message n ''The export file could not be created.'' e, None)
          | None \<Rightarrow> (do {
              (ok, st) \<leftarrow> write_export A W s (unat first_event) format \<lparr>fs_data = [], fs_clock = 0, fs_error = 0\<rparr>;
              let error = (if ok then ERROR_SUCCESS else fs_error st);
              let (result, error') = (case CloseHandle F (fs_clock st) of
                    Some e \<Rightarrow> if ok then (False, e) else (ok, error)
                  | None \<Rightarrow> (ok, error));
              Some (result,
                    (if result then message
                     else set_export_error W message n ''The export could not be completed.'' error'),
                    Some st) }))
      | _ \<Rightarrow> Some (False, set_export_error W message n ''Events could not be exported.'' ERROR_INVALID_PARAMETER, None))"

section \<open>The save dialog\<close>

definition W_DOT :: wchar where "W_DOT = 46"

definition json_extension :: wstr where "json_extension = wide ''.json''"
definition csv_extension :: wstr where "csv_extension = wide ''.csv''"
definition text_extension :: wstr where "text_extension = wide ''.txt''"

text \<open>The position of a dot in the last path component.\<close>

definition extension_dot :: "wstr \<Rightarrow> nat option" where
  "extension_dot path =
     (case wcsrchr path W_DOT of
        None \<Rightarrow> None
      | Some d \<Rightarrow>
          (case wcsrchr path W_BACKSLASH of
             None \<Rightarrow> Some d
           | Some l \<Rightarrow> if d > l then Some d else None))"

definition path_has_extension :: "wstr \<Rightarrow> bool" where
  "path_has_extension path \<longleftrightarrow> extension_dot path \<noteq> None"

definition known_extension :: "text_api \<Rightarrow> wstr option \<Rightarrow> bool" where
  "known_extension W ext \<longleftrightarrow>
     string_equals_insensitive W ext (Some json_extension) \<or>
     string_equals_insensitive W ext (Some csv_extension) \<or>
     string_equals_insensitive W ext (Some text_extension)"

text \<open>The success flag and the path buffer afterwards.\<close>

definition apply_selected_extension :: "text_api \<Rightarrow> wstr \<Rightarrow> nat \<Rightarrow> wstr \<Rightarrow> bool \<times> wstr" where
  "apply_selected_extension W path path_count ext =
     (case extension_dot path of
        Some d \<Rightarrow>
          if known_extension W (Some (drop d path))
          then (case StringCchCatW W path_count (take d path) ext of (path', ok) \<Rightarrow> (ok, path'))
          else (True, path)
      | None \<Rightarrow> (case StringCchCatW W path_count path ext of (path', ok) \<Rightarrow> (ok, path')))"

text \<open>The test before the extension of the filter is applied; \<^verbatim>\<open>wcsrchr\<close> may return NULL.\<close>

definition takes_extension :: "text_api \<Rightarrow> wstr \<Rightarrow> bool" where
  "takes_extension W path \<longleftrightarrow>
     \<not> path_has_extension path \<or>
     known_extension W (map_option (\<lambda>d. drop d path) (wcsrchr path W_DOT))"

definition dialog_format :: "nat \<Rightarrow> ExportFormat" where
  "dialog_format filter_index =
     (if filter_index = 2 then EXPORT_FORMAT_CSV
      else if filter_index = 3 then EXPORT_FORMAT_TEXT else EXPORT_FORMAT_JSON)"

definition format_extension :: "ExportFormat \<Rightarrow> wstr" where
  "format_extension format =
     (if format = EXPORT_FORMAT_CSV then csv_extension
      else if format = EXPORT_FORMAT_TEXT then text_extension else json_extension)"

text \<open>The result, the saved path, the message, and the file written with its path.\<close>

definition export_events_with_dialog ::
  "file_api \<Rightarrow> sink_api \<Rightarrow> text_api \<Rightarrow> dialog_answer \<Rightarrow> EventStore option \<Rightarrow> u64 \<Rightarrow> wstr option \<Rightarrow> nat \<Rightarrow>
     wstr option \<Rightarrow> nat \<Rightarrow>
     (ExportResult \<times> wstr option \<times> wstr option \<times> (wstr \<times> file_state) option) option" where
  "export_events_with_dialog F A W answer store first_event saved_path saved_count error_message error_count =
     (let saved = clear_message saved_path saved_count;
          message = clear_message error_message error_count
      in case answer of
        DialogEnded e \<Rightarrow>
          if e = 0 then Some (EXPORT_RESULT_CANCELLED, saved, message, None)
          else Some (EXPORT_RESULT_FAILED, saved,
            set_export_error W message error_count ''The Save As dialog could not be opened.'' e, None)
      | DialogChosen path filter_index \<Rightarrow>
          (let format = dialog_format filter_index;
               ext = format_extension format;
               (ok, final_path) =
                 (if takes_extension W path then apply_selected_extension W path MAX_PATH ext
                  else (True, path))
           in if \<not> ok
              then Some (EXPORT_RESULT_FAILED, saved,
                set_export_error W message error_count ''The export path is too long.'' ERROR_BUFFER_OVERFLOW, None)
              else (do {
                (result, message', file) \<leftarrow>
                  export_events_to_file F A W store first_event (Some final_path) format message error_count;
                let written = map_option (Pair final_path) file;
                if \<not> result then Some (EXPORT_RESULT_FAILED, saved, message', written)
                else Some (EXPORT_RESULT_SUCCEEDED,
                           (case saved of None \<Rightarrow> None
                            | Some b \<Rightarrow> Some (if saved_count = 0 then b else wcopy saved_count final_path)),
                           message', written) })))"

section \<open>Extensions\<close>

text \<open>The path without a known export extension.\<close>

definition export_base :: "text_api \<Rightarrow> wstr \<Rightarrow> wstr" where
  "export_base W path =
     (case extension_dot path of
        Some d \<Rightarrow> if known_extension W (Some (drop d path)) then take d path else path
      | None \<Rightarrow> path)"

definition foreign_extension :: "text_api \<Rightarrow> wstr \<Rightarrow> bool" where
  "foreign_extension W path \<longleftrightarrow> (\<exists>d. extension_dot path = Some d \<and> \<not> known_extension W (Some (drop d path)))"

lemma extension_dot_bound: "extension_dot path = Some d \<Longrightarrow> d < length path \<and> path ! d = W_DOT"
  by (auto simp: extension_dot_def dest: wcsrchr_Some split: option.splits if_splits)

lemma apply_selected_extension_eq:
  assumes "strsafe_ok W" and "length path < n"
  shows "apply_selected_extension W path n ext =
     (if foreign_extension W path then (True, path)
      else (length (export_base W path) + length ext < n, take (n - 1) (export_base W path @ ext)))"
proof (cases "extension_dot path")
  case None
  then show ?thesis
    using assms by (simp add: apply_selected_extension_def foreign_extension_def export_base_def plat_simps)
next
  case (Some d)
  have "length (take d path) < n" using extension_dot_bound [OF Some] assms(2) by simp
  then show ?thesis
    using Some assms
    by (simp add: apply_selected_extension_def foreign_extension_def export_base_def plat_simps)
qed

section \<open>Properties\<close>

text \<open>The document of a format.\<close>

definition export_document :: "ExportFormat \<Rightarrow> TraceGlassEvent list \<Rightarrow> wstr" where
  "export_document format es =
     (if format = EXPORT_FORMAT_JSON then json_document es
      else if format = EXPORT_FORMAT_CSV then csv_document es else text_document es)"

lemma writes_export:
  assumes "sink_ok A" and "strsafe_ok W" and "exportable s"
  shows "writes_text A (write_export A W s first format) (export_document format (drop first (st_events s)))"
  using writes_json_export [OF assms] writes_csv_export [OF assms] writes_text_export [OF assms]
  by (simp add: write_export_def export_document_def)

lemma error_message_set:
  assumes "strsafe_ok W" and "1 < n" and "operation \<noteq> []"
  shows "\<exists>t. set_export_error W (Some b) n operation e = Some t \<and> t \<noteq> [] \<and> length t < n"
proof -
  obtain c cs where o: "operation = c # cs" using assms(3) by (cases operation) auto
  let ?t = "set_export_error W (Some b) n operation e"
  obtain m where n: "n = Suc (Suc m)" using assms(2) by (metis Suc_lessE less_imp_Suc_add One_nat_def)
  show ?thesis
    using assms(1,2)
    by (simp add: set_export_error_def cch_printf_take conversion_spec_def o n wide_def)
qed

lemma file_export_contract:
  assumes "sink_ok A" and "strsafe_ok W" and "exportable s" and "1 < n"
  shows "\<exists>result message file.
     export_events_to_file F A W (Some s) first (Some path) format (Some b) n = Some (result, Some message, file) \<and>
     (if result
      then message = [] \<and> (\<exists>st. file = Some st \<and>
        fs_data st = utf8 (export_document format (drop (unat first) (st_events s))))
      else message \<noteq> [] \<and> length message < n \<and> (\<forall>st. file = Some st \<longrightarrow>
        prefix (fs_data st) (utf8 (export_document format (drop (unat first) (st_events s))))))"
proof -
  let ?bs = "utf8 (export_document format (drop (unat first) (st_events s)))"
  let ?st0 = "\<lparr>fs_data = [], fs_clock = 0, fs_error = 0\<rparr>"
  have clear: "clear_message (Some b) n = Some []" using assms(4) by (simp add: clear_message_def)
  have message: "\<exists>t. set_export_error W (Some []) n op e = Some t \<and> t \<noteq> [] \<and> length t < n" if "op \<noteq> []" for op e
    using error_message_set [OF assms(2,4) that] .
  obtain ok p st where w: "write_export A W s (unat first) format ?st0 = Some (ok, st)"
      "fs_data st = fs_data ?st0 @ p" "prefix p ?bs" "ok \<longrightarrow> p = ?bs"
    using writes_export [OF assms(1,2,3), of "unat first" format]
    unfolding writes_text_def by (auto elim!: emitsE [of _ _ _ ?st0])
  consider "st_event_count s < first" | e where "\<not> st_event_count s < first" "CreateFileW F path = Some e"
    | "\<not> st_event_count s < first" "CreateFileW F path = None" by (cases "CreateFileW F path") auto
  then show ?thesis
  proof cases
    case 1
    obtain t where "set_export_error W (Some []) n ''Events could not be exported.'' ERROR_INVALID_PARAMETER = Some t"
        "t \<noteq> []" "length t < n" using message by (metis list.distinct(1))
    then show ?thesis using 1
      by (intro exI [of _ False] exI [of _ t] exI [of _ None]) (simp add: export_events_to_file_def clear)
  next
    case (2 e)
    obtain t where "set_export_error W (Some []) n ''The export file could not be created.'' e = Some t"
        "t \<noteq> []" "length t < n" using message by (metis list.distinct(1))
    then show ?thesis using 2
      by (intro exI [of _ False] exI [of _ t] exI [of _ None]) (simp add: export_events_to_file_def clear)
  next
    case 3
    show ?thesis
    proof (cases "ok \<and> CloseHandle F (fs_clock st) = None")
      case True
      then show ?thesis using 3 w
        by (intro exI [of _ True] exI [of _ "[]"] exI [of _ "Some st"])
          (simp add: export_events_to_file_def clear)
    next
      case False
      define e where "e = (if ok then the (CloseHandle F (fs_clock st)) else fs_error st)"
      obtain t where "set_export_error W (Some []) n ''The export could not be completed.'' e = Some t"
          "t \<noteq> []" "length t < n" using message by (metis list.distinct(1))
      then show ?thesis using 3 w False
        by (intro exI [of _ False] exI [of _ t] exI [of _ "Some st"])
          (auto simp: export_events_to_file_def clear e_def split: option.splits)
    qed
  qed
qed

text \<open>
  \<^bold>\<open>C17\<close>. \<^verbatim>\<open>export_events_to_file\<close> always returns without leaving its buffers, whatever fails.
  TRUE means that the file holds the whole document of the requested format and the message is
  empty; FALSE comes with a non-empty message, and whatever file was created holds a prefix of
  that document.
\<close>

theorem export_to_file_contract:
  assumes "sink_ok A" and "strsafe_ok W" and "exportable s" and "1 < n"
  shows "\<exists>result message file.
     export_events_to_file F A W (Some s) first (Some path) format (Some b) n = Some (result, Some message, file) \<and>
     (if result
      then message = [] \<and> (\<exists>st. file = Some st \<and>
        fs_data st = utf8 (export_document format (drop (unat first) (st_events s))))
      else message \<noteq> [] \<and> length message < n \<and> (\<forall>st. file = Some st \<longrightarrow>
        prefix (fs_data st) (utf8 (export_document format (drop (unat first) (st_events s))))))"
  using assms by (rule file_export_contract)

theorem export_to_file_contract_witness:
  "\<exists>result message file.
     export_events_to_file \<lparr>CreateFileW = (\<lambda>p. None), CloseHandle = (\<lambda>k. Some 5)\<rparr> slow_sink ascii_text
       (Some started_store) 0 (Some (wide ''a.csv'')) EXPORT_FORMAT_CSV (Some []) 512 = Some (result, Some message, file)"
  using export_to_file_contract [OF slow_sink_ok(1) ascii_text_strsafe started_store_exportable, of 512
      "\<lparr>CreateFileW = (\<lambda>p. None), CloseHandle = (\<lambda>k. Some 5)\<rparr>" 0 "wide ''a.csv''" EXPORT_FORMAT_CSV "[]"]
  by force

text \<open>
  When nothing fails (the file can be created and closed, memory is available, every write makes some
  progress) the export succeeds, however small the pieces are in which the file accepts the bytes.
\<close>

lemma export_succeeds:
  assumes "sink_ok A" and "sink_reliable A" and "strsafe_ok W" and "exportable s"
    and "first \<le> st_event_count s" and "CreateFileW F path = None" and "\<forall>k. CloseHandle F k = None"
  shows "\<exists>message st. export_events_to_file F A W (Some s) first (Some path) format buffer n = Some (True, message, Some st)
     \<and> fs_data st = utf8 (export_document format (drop (unat first) (st_events s)))"
proof -
  let ?st0 = "\<lparr>fs_data = [], fs_clock = 0, fs_error = 0\<rparr>"
  have w: "writes_text A (write_export A W s (unat first) format) (export_document format (drop (unat first) (st_events s)))"
    by (rule writes_export [OF assms(1,3,4)])
  then have "succeeds (write_export A W s (unat first) format)"
    using assms(2) by (simp add: writes_text_def)
  then obtain st where "write_export A W s (unat first) format ?st0 = Some (True, st)"
    by (rule succeedsE)
  with writes_success [OF w this] show ?thesis
    using assms(5,6,7) by (simp add: export_events_to_file_def not_less [symmetric])
qed

text \<open>The file the dialog's answer is written to.\<close>

definition dialog_target :: "text_api \<Rightarrow> wstr \<Rightarrow> nat \<Rightarrow> wstr" where
  "dialog_target W path filter_index =
     (if foreign_extension W path then path
      else export_base W path @ format_extension (dialog_format filter_index))"

lemma dialog_condition: "takes_extension W path \<longleftrightarrow> \<not> foreign_extension W path"
proof (cases "extension_dot path")
  case None
  then show ?thesis by (simp add: takes_extension_def path_has_extension_def foreign_extension_def)
next
  case (Some d)
  then have "wcsrchr path W_DOT = Some d"
    by (auto simp: extension_dot_def split: option.splits if_splits)
  then show ?thesis using Some by (simp add: takes_extension_def path_has_extension_def foreign_extension_def)
qed

lemma dialog_path:
  assumes "strsafe_ok W" and "length path < MAX_PATH"
  shows "(if takes_extension W path then apply_selected_extension W path MAX_PATH (format_extension (dialog_format i)) else (True, path))
    = (length (dialog_target W path i) < MAX_PATH, take (MAX_PATH - 1) (dialog_target W path i))"
  using assms
  by (auto simp: dialog_condition apply_selected_extension_eq dialog_target_def)

text \<open>
  \<^bold>\<open>C18\<close>. The whole dialog, by the path with the extension of the chosen filter: when it does not fit
  \<^verbatim>\<open>MAX_PATH\<close> the export fails without touching any file; otherwise no other file is touched, an
  export that succeeds leaves the whole document in the format of the filter there and reports
  that path, and one that fails reports none, gives a message, and has left at most a prefix of
  the document in the file if it could create it.
\<close>

theorem dialog_export_target:
  assumes "sink_ok A" and "strsafe_ok W" and "exportable s" and "length path < MAX_PATH"
    and "1 < n" and "0 < m"
    and "export_events_with_dialog F A W (DialogChosen path i) (Some s) first (Some b) m (Some c) n
         = Some (result, saved, message, written)"
  shows "if MAX_PATH \<le> length (dialog_target W path i) then result = EXPORT_RESULT_FAILED \<and> written = None
     else result = EXPORT_RESULT_FAILED \<and> saved = Some [] \<and> message \<noteq> Some [] \<and>
       (\<forall>file st. written = Some (file, st) \<longrightarrow> file = dialog_target W path i \<and>
         prefix (fs_data st) (utf8 (export_document (dialog_format i) (drop (unat first) (st_events s))))) \<or>
       result = EXPORT_RESULT_SUCCEEDED \<and> saved = Some (wcopy m (dialog_target W path i)) \<and> message = Some [] \<and>
       (\<exists>st. written = Some (dialog_target W path i, st) \<and>
         fs_data st = utf8 (export_document (dialog_format i) (drop (unat first) (st_events s))))"
proof (cases "MAX_PATH \<le> length (dialog_target W path i)")
  case True
  then show ?thesis
    using assms(7) by (simp add: export_events_with_dialog_def Let_def dialog_path [OF assms(2,4)])
next
  case False
  let ?t = "dialog_target W path i"
  have target: "take (MAX_PATH - 1) ?t = ?t" using False by simp
  have clear: "clear_message (Some c) n = Some []" "clear_message (Some b) m = Some []"
    using assms(5,6) by (simp_all add: clear_message_def)
  obtain r msg created where x: "export_events_to_file F A W (Some s) first (Some ?t) (dialog_format i) (Some []) n
        = Some (r, Some msg, created)"
      "if r then msg = [] \<and> (\<exists>st. created = Some st \<and>
          fs_data st = utf8 (export_document (dialog_format i) (drop (unat first) (st_events s))))
        else msg \<noteq> [] \<and> length msg < n \<and> (\<forall>st. created = Some st \<longrightarrow>
          prefix (fs_data st) (utf8 (export_document (dialog_format i) (drop (unat first) (st_events s)))))"
    using file_export_contract [OF assms(1,2,3,5), of F first ?t "dialog_format i" "[]"] by metis
  have "export_events_with_dialog F A W (DialogChosen path i) (Some s) first (Some b) m (Some c) n
      = (if \<not> r then Some (EXPORT_RESULT_FAILED, Some [], Some msg, map_option (Pair ?t) created)
         else Some (EXPORT_RESULT_SUCCEEDED, Some (wcopy m ?t), Some msg, map_option (Pair ?t) created))"
    using False x(1) target assms(6)
    by (simp add: export_events_with_dialog_def Let_def dialog_path [OF assms(2,4)] clear)
  then show ?thesis using assms(7) x(2) False by (cases r) auto
qed

text \<open>A dialog answer without an extension, saved as CSV.\<close>

theorem dialog_export_target_witness:
  "\<exists>result saved message written.
     export_events_with_dialog \<lparr>CreateFileW = (\<lambda>p. None), CloseHandle = (\<lambda>k. None)\<rparr> slow_sink ascii_text
       (DialogChosen (wide ''events'') 2) (Some started_store) 0 (Some []) 260 (Some []) 512
       = Some (result, saved, message, written) \<and>
     (result = EXPORT_RESULT_FAILED \<or> saved = Some (wide ''events.csv''))"
proof -
  let ?F = "\<lparr>CreateFileW = (\<lambda>p. None), CloseHandle = (\<lambda>k. None)\<rparr>"
  have dot: "extension_dot (wide ''events'') = None"
    by (simp add: extension_dot_def wide_def wide_char_def W_DOT_def)
  then have "dialog_target ascii_text (wide ''events'') 2 = wide ''events.csv''"
    by (simp add: dialog_target_def foreign_extension_def export_base_def format_extension_def
        dialog_format_def csv_extension_def flip: wide_append)
  note t = this
  have len: "length (wide ''events'') < MAX_PATH" "length (wide ''events.csv'') < MAX_PATH"
    by (simp_all add: MAX_PATH_def)
  have df: "dialog_format 2 = EXPORT_FORMAT_CSV" by (simp add: dialog_format_def)
  obtain r1 msg1 f1 where "export_events_to_file ?F slow_sink ascii_text (Some started_store) 0
      (Some (wide ''events.csv'')) EXPORT_FORMAT_CSV (Some []) 512 = Some (r1, msg1, f1)"
    using file_export_contract [OF slow_sink_ok(1) ascii_text_strsafe started_store_exportable, of 512 ?F 0
        "wide ''events.csv''" EXPORT_FORMAT_CSV "[]"] by auto
  then obtain r sv msg w where x: "export_events_with_dialog ?F slow_sink ascii_text (DialogChosen (wide ''events'') 2)
      (Some started_store) 0 (Some []) 260 (Some []) 512 = Some (r, sv, msg, w)"
    using dialog_path [OF ascii_text_strsafe len(1), of 2] len(2)
    by (cases r1) (simp_all add: export_events_with_dialog_def Let_def t clear_message_def df)
  have "260 = MAX_PATH" by (simp add: MAX_PATH_def)
  then have "wcopy 260 (wide ''events.csv'') = wide ''events.csv''" by (simp add: wcopy_def)
  with dialog_export_target [OF slow_sink_ok(1) ascii_text_strsafe started_store_exportable len(1) _ _ x]
  show ?thesis using x t len by (auto split: if_splits)
qed

end
