(* ===== verification/TG_WellFormed.thy ===== *)
theory TG_WellFormed
  imports TG_Window TG_Export
begin

text \<open>
  What every component relies on about events, as an invariant of the window: every event in the
  log fits its arrays (\<open>event_wf\<close>), if every event that is pushed does. Along with it, what no
  message changes: the telemetry engine and what has been set up.
\<close>

section \<open>What no message changes\<close>

definition fixed :: "GuiState \<Rightarrow> bool \<times> bool \<times> bool \<times> bool \<times> TelemetryEngine" where
  "fixed g = (g_queue_ready g, g_store_ready g, g_telemetry_ready g, g_shutting_down g, g_telemetry g)"

lemma fixedD:
  assumes "fixed g' = fixed g"
  shows "g_queue_ready g' = g_queue_ready g" and "g_store_ready g' = g_store_ready g" and "g_telemetry_ready g' = g_telemetry_ready g"
    and "g_shutting_down g' = g_shutting_down g" and "g_telemetry g' = g_telemetry g"
  using assms by (simp_all add: fixed_def)

lemma fixed_texts [simp]:
  "fixed (update_monitoring_label g) = fixed g" "fixed (update_overview_metrics U g) = fixed g"
  "fixed (update_status_bar U g) = fixed g" "fixed (set_transient_status U m g) = fixed g" "fixed (update_selected_view g) = fixed g"
  by (simp_all add: fixed_def update_monitoring_label_def update_overview_metrics_def update_status_bar_def set_transient_status_def
      update_selected_view_def set_overview_visible_def read_tick_def Let_def)

lemma fixed_sort [simp]:
  "fixed (sort_view U v force g) = fixed g" "fixed (update_sort_indicator v g) = fixed g" "fixed (show_rows U i t e g) = fixed g"
  by (auto simp: fixed_def sort_view_def set_list_def update_sort_indicator_def show_rows_def Let_def split: GuiView.split option.split)

lemma fixed_show_events: "show_events U ks g = Some g' \<Longrightarrow> fixed g' = fixed g \<and> g_store g' = g_store g \<and> g_queue g' = g_queue g"
proof (induction ks arbitrary: g)
  case (Cons i ks)
  then obtain e where "show_events U ks (show_rows U (of_nat i) (ev_type e) e g) = Some g'"
    by (auto split: Option.bind_splits)
  from Cons.IH [OF this] show ?case by simp
qed simp

text \<open>Set-up, log and queue together.\<close>

definition core :: "GuiState \<Rightarrow> (bool \<times> bool \<times> bool \<times> bool \<times> TelemetryEngine) \<times> EventStore \<times> node_heap \<times> EventQueue" where
  "core g = (fixed g, g_store g, g_queue g)"

lemma core_rebuild:
  "rebuild_event_lists U g = Some g' \<Longrightarrow> core g' = core g"
  "rebuild_overview_lists U g = Some g' \<Longrightarrow> core g' = core g"
  "rebuild_tree U g = Some g' \<Longrightarrow> core g' = core g"
  by (auto simp: core_def rebuild_event_lists_def rebuild_overview_lists_def rebuild_tree_def
      split: Option.bind_splits dest!: fixed_show_events)
    (simp_all add: fixed_def)

lemma core_filtered: "rebuild_filtered_views U g = Some g' \<Longrightarrow> core g' = core g"
  by (auto simp: rebuild_filtered_views_def split: if_splits Option.bind_splits dest!: core_rebuild)
    (simp_all add: core_def fixed_def)

lemma core_texts [simp]:
  "core (update_monitoring_label g) = core g" "core (update_overview_metrics U g) = core g"
  "core (update_status_bar U g) = core g" "core (set_transient_status U m g) = core g" "core (update_selected_view g) = core g"
  "core (sort_view U v force g) = core g" "core (update_sort_indicator v g) = core g" "core (show_rows U i t e g) = core g"
  by (simp_all add: core_def)
    (simp_all add: update_monitoring_label_def update_selected_view_def set_overview_visible_def update_sort_indicator_def Let_def
      split: option.split)

lemma core_toggle:
  assumes "toggle_pause U g = Some g'"
  shows "core g' = core g"
proof -
  let ?g1 = "update_monitoring_label (g\<lparr>g_rendering_paused := \<not> g_rendering_paused g\<rparr>)"
  have "core ?g1 = core (g\<lparr>g_rendering_paused := \<not> g_rendering_paused g\<rparr>)" by simp
  then have "core ?g1 = core g" by (simp add: core_def fixed_def)
  moreover have "core (c\<lparr>g_render_dirty := False\<rparr>) = core c" for c by (simp add: core_def fixed_def)
  ultimately show ?thesis
    using assms by (auto simp: toggle_pause_def Let_def split: if_splits Option.bind_splits dest!: core_rebuild)
qed

lemma core_clear: "core (clear_current_view U g) = core g"
  by (cases "current_view g") (simp_all add: clear_current_view_def Let_def, simp_all add: core_def fixed_def)

lemma core_click: "core (handle_column_click U control column g) = core g"
proof -
  have "core (g\<lparr>g_sort_states := so\<rparr>) = core g" for so by (simp add: core_def fixed_def)
  then show ?thesis by (cases control) (simp_all add: handle_column_click_def Let_def)
qed

text \<open>Only the notification changes the log or the queue.\<close>

fun drains_queue :: "gui_message \<Rightarrow> bool" where
  "drains_queue (EventsReady alerts) = True"
| "drains_queue _ = False"

lemma core_step:
  assumes "gui_step U msg g = Some g'" and "\<not> drains_queue msg"
  shows "core g' = core g"
proof -
  have upd: "core (g\<lparr>g_search_edit := t, g_filter_timer_active := b\<rparr>) = core g" "core (g\<lparr>g_event_filter := i\<rparr>) = core g"
    "core (g\<lparr>g_filter_timer_active := b\<rparr>) = core g" "core (g\<lparr>g_navigation := i\<rparr>) = core g" for t b i
    by (simp_all add: core_def fixed_def)
  show ?thesis
    using assms upd
    by (cases msg) (auto simp: core_clear core_click split: if_splits dest!: core_filtered core_toggle)
qed

section \<open>The log stays well-formed\<close>

definition log_wf :: "GuiState \<Rightarrow> bool" where
  "log_wf g \<longleftrightarrow> (\<forall>e \<in> set (st_events (g_store g)). event_wf e)"

lemma sequence_wf [simp]: "event_wf (e\<lparr>ev_sequence := n\<rparr>) = event_wf e"
  by (simp add: event_wf_def)

lemma add_accepted_wf:
  assumes "list_api_ok (gui_list U)" and "store_wf (g_store g)" and "log_wf g" and "event_wf e"
    and "add_accepted_event U e g = Some (acc, e', g')"
  shows "log_wf g' \<and> event_wf e' \<and> store_wf (g_store g') \<and> fixed g' = fixed g"
proof -
  obtain acc0 e0 g0 store ok where a: "add_accepted_event U e g = Some (acc0, e0, g0)"
      "store_add (gui_store U) (g_store g) e = Some (ok, acc0, store, e0)" "g_store g0 = store"
      "extends (gui_text U) g g0 (if acc0 then [e0] else [])"
    using add_accepted_extends [OF assms(1,2)] by blast
  have same: "acc0 = acc" "e0 = e'" "g0 = g'" using a(1) assms(5) by simp_all
  have "event_wf e'" using log_of_add [OF a(2)] assms(4) unfolding same by (cases acc) auto
  moreover have "st_events (g_store g') = st_events (g_store g) @ (if acc then [e'] else [])" "store_wf (g_store g')"
    using a(4) unfolding same by (simp_all add: extends_def)
  moreover have "fixed (g\<lparr>g_store := st\<rparr>) = fixed g" for st by (simp add: fixed_def)
  then have "fixed g' = fixed g"
    using assms(5) by (auto simp: add_accepted_event_def Let_def split: if_splits Option.bind_splits)
  ultimately show ?thesis using assms(3) by (auto simp: log_wf_def split: if_splits)
qed

lemma add_alerts_wf:
  assumes "list_api_ok (gui_list U)"
  shows "store_wf (g_store (dr_gui d)) \<Longrightarrow> log_wf (dr_gui d) \<Longrightarrow> distinct ks \<Longrightarrow> \<forall>k \<in> set ks. event_wf (dr_alerts d ! k) \<Longrightarrow>
    add_alerts U ks d = Some d' \<Longrightarrow> log_wf (dr_gui d') \<and> fixed (dr_gui d') = fixed (dr_gui d)"
proof (induction ks arbitrary: d)
  case (Cons k ks)
  let ?a = "dr_alerts d ! k"
  obtain acc e' g' where a: "add_accepted_event U ?a (dr_gui d) = Some (acc, e', g')"
      "add_alerts U ks (d\<lparr>dr_gui := g', dr_alerts := (dr_alerts d)[k := e'], dr_any_accepted := dr_any_accepted d \<or> acc\<rparr>) = Some d'"
    using Cons.prems(5) by (auto simp: buf_get_def split: Option.bind_splits if_splits)
  have g': "log_wf g'" "store_wf (g_store g')" "fixed g' = fixed (dr_gui d)"
    using add_accepted_wf [OF assms Cons.prems(1,2) _ a(1)] Cons.prems(4) by simp_all
  have "\<forall>j \<in> set ks. event_wf ((dr_alerts d)[k := e'] ! j)"
    using Cons.prems(3,4) by (metis distinct.simps(2) list.set_intros(2) nth_list_update_neq)
  then show ?case using Cons.IH [OF _ _ _ _ a(2)] g' Cons.prems(3) by simp
qed simp

lemma drain_event_wf:
  assumes "list_api_ok (gui_list U)" and "strsafe_ok (gui_text U)" and "store_wf (g_store (dr_gui d))"
    and "length (dr_alerts d) = TRACEGLASS_MAX_ALERTS_PER_EVENT" and "log_wf (dr_gui d)" and "event_wf e"
    and "drain_event U e d = Some d'"
  shows "log_wf (dr_gui d') \<and> fixed (dr_gui d') = fixed (dr_gui d)"
proof -
  let ?W = "gui_text U"
  obtain acc e' g' where a: "add_accepted_event U e (dr_gui d) = Some (acc, e', g')"
    using assms(7) by (auto simp: drain_event_def split: Option.bind_splits)
  note g' = add_accepted_wf [OF assms(1,3,5,6) a]
  show ?thesis
  proof (cases acc)
    case False
    then show ?thesis using assms(7) a g' by (auto simp: drain_event_def)
  next
    case True
    let ?alerts = "rule_alerts ?W e'"
    let ?arr = "?alerts @ drop (length ?alerts) (dr_alerts d)"
    have n: "length ?alerts \<le> 2" by (rule rule_alerts_length)
    then have det: "detection_evaluate ?W (Some e') (Some (dr_alerts d)) TRACEGLASS_MAX_ALERTS_PER_EVENT = Some (length ?alerts, Some ?arr)"
      using detection_stores [of TRACEGLASS_MAX_ALERTS_PER_EVENT "dr_alerts d" ?W e'] assms(4)
      by (auto simp: TRACEGLASS_MAX_ALERTS_PER_EVENT_def)
    let ?d1 = "d\<lparr>dr_gui := g', dr_any_accepted := True,
      dr_tree_changed := dr_tree_changed d \<or> ev_type e' = EVENT_PROCESS_START \<or> ev_type e' = EVENT_PROCESS_STOP,
      dr_alerts := ?arr\<rparr>"
    have rest: "add_alerts U [0..<length ?alerts] ?d1 = Some d'"
      using assms(7) a True det by (simp add: drain_event_def)
    have "\<forall>k \<in> set [0..<length ?alerts]. event_wf (?arr ! k)"
      using alert_event_wf [OF assms(2)] g' by (auto simp: nth_append)
    then show ?thesis using add_alerts_wf [OF assms(1) _ _ _ _ rest] g' by simp
  qed
qed

lemma drain_all_wf:
  assumes "list_api_ok (gui_list U)" and "strsafe_ok (gui_text U)"
  shows "store_wf (g_store (dr_gui d)) \<Longrightarrow> length (dr_alerts d) = TRACEGLASS_MAX_ALERTS_PER_EVENT \<Longrightarrow>
    log_wf (dr_gui d) \<Longrightarrow> \<forall>e \<in> set es. event_wf e \<Longrightarrow> fold (\<lambda>e d. Option.bind d (drain_event U e)) es (Some d) = Some d' \<Longrightarrow>
    log_wf (dr_gui d') \<and> fixed (dr_gui d') = fixed (dr_gui d)"
proof (induction es arbitrary: d)
  case (Cons e es)
  obtain d1 where d1: "drain_event U e d = Some d1" "drains U 3 (spec_ingest (gui_text U) e) d d1"
    using drain_event_drains [OF assms(1) Cons.prems(1,2)] by blast
  have "log_wf (dr_gui d1) \<and> fixed (dr_gui d1) = fixed (dr_gui d)"
    using drain_event_wf [OF assms Cons.prems(1-3) _ d1(1)] Cons.prems(4) by simp
  moreover have "length (dr_alerts d1) = TRACEGLASS_MAX_ALERTS_PER_EVENT"
    using d1(2) Cons.prems(2) by (simp add: drains_def)
  ultimately show ?case using Cons.IH [OF drains_wf [OF d1(2)]] Cons.prems(4,5) d1(1) by simp
qed simp

lemma drain_events_wf:
  assumes "gui_api_ok U" and "strsafe_ok (gui_text U)" and "store_wf (g_store g)" and "log_wf g"
    and "holds (g_queue g) es" and "\<forall>e \<in> set es. event_wf e" and "length alerts = TRACEGLASS_MAX_ALERTS_PER_EVENT"
    and "drain_events U alerts g = Some g'"
  shows "log_wf g' \<and> fixed g' = fixed g"
proof -
  have api: "list_api_ok (gui_list U)" using assms(1) by (simp add: gui_api_ok_def)
  let ?d = "\<lparr>dr_gui = g, dr_alerts = alerts, dr_tree_changed = False, dr_any_accepted = False\<rparr>"
  let ?body = "\<lambda>e d. Option.bind d (drain_event U e)"
  obtain q where q: "drain_loop queue_pop ?body (g_queue g) (Some ?d) = Some (q, fold ?body es (Some ?d))"
    using event_fifo.drain_all [OF assms(5), of ?body "Some ?d"] by auto
  then obtain d where d: "fold ?body es (Some ?d) = Some d"
    using drain_all_drains [OF api, of ?d es] assms(3,7) by auto
  have "log_wf (dr_gui d) \<and> fixed (dr_gui d) = fixed g"
    using drain_all_wf [OF api assms(2) _ _ _ assms(6) d] assms(3,4,7) by simp
  then have g1: "log_wf ((dr_gui d)\<lparr>g_queue := q\<rparr>)" "fixed ((dr_gui d)\<lparr>g_queue := q\<rparr>) = fixed g"
    by (simp_all add: log_wf_def fixed_def)
  have "core (h\<lparr>g_render_dirty := b\<rparr>) = core h" for h b by (simp add: core_def fixed_def)
  then have "core g' = core ((dr_gui d)\<lparr>g_queue := q\<rparr>)"
    using assms(8) q d
    by (auto simp: drain_events_def Let_def split: if_splits Option.bind_splits dest!: core_rebuild)
  then show ?thesis using g1 by (simp add: core_def log_wf_def)
qed

section \<open>What the telemetry threads push\<close>

text \<open>
  The events of the three sources: the differences of two snapshots, the established connections,
  the records of the trace; each with whatever the platform answers at that moment.
\<close>

definition snapshot_api :: "process_api \<Rightarrow> bool" where
  "snapshot_api P \<longleftrightarrow> process_api_ok P \<and> qsort_ok compare_snapshot_entries (qsort_entries P)"

inductive emitted :: "text_api \<Rightarrow> TraceGlassEvent \<Rightarrow> bool" for W where
  appeared: "snapshot_api P \<Longrightarrow> capture_processes P = Some xs \<Longrightarrow> x \<in> set xs \<Longrightarrow>
    emit_start_event W T utc discovered xs (length xs) x = Some e \<Longrightarrow> emitted W e"
| gone: "snapshot_api P \<Longrightarrow> capture_processes P = Some xs \<Longrightarrow> x \<in> set xs \<Longrightarrow>
    emit_stop_event W T utc xs (length xs) x = Some e \<Longrightarrow> emitted W e"
| connected: "process_api_ok P \<Longrightarrow> network_api_ok N \<Longrightarrow> emitted W (network_event N P W T utc (key_of_row row))"
| traced: "process_api_ok P \<Longrightarrow> tdh_ok D \<Longrightarrow> length stack = 2048 \<Longrightarrow>
    etw_event D P W T utc stack r = Some e \<Longrightarrow> emitted W e"

lemma captured_entries:
  assumes "snapshot_api P" and "capture_processes P = Some xs"
  shows "sorted_by compare_snapshot_entries xs \<and> (\<forall>x \<in> set xs. entry_wf x)"
proof -
  have P: "process_api_ok P" "qsort_ok compare_snapshot_entries (qsort_entries P)" using assms(1) by (simp_all add: snapshot_api_def)
  obtain ts where ts: "Toolhelp32 P = Some ts" "mset xs = mset (map (capture_entry P) ts)"
    using capture_sorted(2) [OF P(2) assms(2)] by blast
  have "set xs = capture_entry P ` set ts" using mset_eq_setD [OF ts(2)] by simp
  then show ?thesis using capture_entry_wf(1) [OF P(1) ts(1)] capture_sorted(1) [OF P(2) assms(2)] by auto
qed

lemma emitted_wf:
  assumes "strsafe_ok W" and "emitted W e"
  shows "event_wf e"
  using assms(2)
proof cases
  case (appeared P xs x T utc discovered)
  then show ?thesis
    using monitor_event [OF assms(1), of xs x T utc discovered e] captured_entries [OF appeared(1,2)] by blast
next
  case (gone P xs x T utc)
  then show ?thesis
    using monitor_event [OF assms(1), of xs x T utc False e] captured_entries [OF gone(1,2)] by blast
next
  case (connected P N T utc row)
  then show ?thesis using network_event [OF assms(1) connected(3,2) refl, of T utc row] by simp
next
  case (traced P D stack T utc r)
  then show ?thesis using etw_event_total [OF assms(1) traced(2,1,3), of T utc r] by auto
qed

text \<open>The worker pushes nothing else.\<close>

definition remembers :: "ProcessMonitor \<Rightarrow> bool" where
  "remembers m \<longleftrightarrow> pm_previous m = [] \<or> (\<exists>P. snapshot_api P \<and> capture_processes P = Some (pm_previous m))"

lemma poll_emitted:
  assumes "monitor_wf m" and "remembers m" and "snapshot_api P" and "capture_processes P = Some current"
    and "e \<in> set (poll_starts W T utc m current @ poll_stops W T utc m current)"
  shows "emitted W e"
proof -
  have sub: "set (missing r xs ys) \<subseteq> set ys" for r :: "ProcessSnapshotEntry \<Rightarrow> ProcessSnapshotEntry \<Rightarrow> bool" and xs ys
    by (auto simp: missing_def)
  consider x where "x \<in> set current" "e = the (emit_start_event W T utc (\<not> pm_initialized m) current (length current) x)"
    | x where "x \<in> set (pm_previous m)" "e = the (emit_stop_event W T utc (pm_previous m) (length (pm_previous m)) x)"
    using assms(5) sub by (fastforce simp: poll_starts_def poll_stops_def split: if_splits)
  then show ?thesis
  proof cases
    case 1
    then have "emit_start_event W T utc (\<not> pm_initialized m) current (length current) x = Some e"
      using emit_events_total(1) captured_entries [OF assms(3,4)] by auto
    then show ?thesis using appeared [OF assms(3,4) 1(1)] by blast
  next
    case 2
    then have "emit_stop_event W T utc (pm_previous m) (length (pm_previous m)) x = Some e"
      using emit_events_total(2) assms(1) by (auto simp: monitor_wf_def)
    moreover obtain P' where "snapshot_api P'" "capture_processes P' = Some (pm_previous m)"
      using assms(2) 2(1) by (auto simp: remembers_def)
    ultimately show ?thesis using gone 2(1) by blast
  qed
qed

definition answers_ok :: "poll_env \<Rightarrow> bool" where
  "answers_ok env \<longleftrightarrow> poll_env_ok env \<and> process_api_ok (pe_process env) \<and> network_api_ok (pe_network env)"

definition worker_inv :: "TelemetryEngine \<Rightarrow> bool" where
  "worker_inv e \<longleftrightarrow> engine_polls e \<and> remembers (te_process_monitor e)"

lemma delivered_subset: "delivered_part M kept new \<Longrightarrow> set kept \<subseteq> set new"
  by (auto simp: delivered_part_def dest: list_emb_set)

lemma process_poll_emits:
  assumes "answers_ok env" and "monitor_wf m" and "remembers m" and "holds q es"
  shows "\<exists>ok m' q' kept. process_monitor_poll (pe_process env) W T utc (pe_malloc env) (Some m) (Some q) = Some (ok, Some m', Some q') \<and>
    holds q' (es @ kept) \<and> (\<forall>e \<in> set kept. emitted W e) \<and> monitor_wf m' \<and> remembers m'"
proof (cases "capture_processes (pe_process env)")
  case None
  then show ?thesis
    using assms(2-4) by (intro exI [of _ False] exI [of _ m] exI [of _ q] exI [of _ "[]"]) (simp add: process_monitor_poll_def)
next
  case (Some current)
  have ok: "snapshot_api (pe_process env)" "malloc_fresh (pe_malloc env)"
    using assms(1) by (simp_all add: answers_ok_def poll_env_ok_def snapshot_api_def)
  then have "qsort_ok compare_snapshot_entries (qsort_entries (pe_process env))" by (simp add: snapshot_api_def)
  from poll_delivers [OF assms(2) this ok(2) assms(4) Some, of W T utc]
  obtain q' kept where p: "process_monitor_poll (pe_process env) W T utc (pe_malloc env) (Some m) (Some q) =
        Some (True, Some (monitor_after current), Some q')" "holds q' (es @ kept)"
      "delivered_part (pe_malloc env) kept (poll_starts W T utc m current @ poll_stops W T utc m current)"
      "monitor_wf (monitor_after current)"
    by blast
  have "\<forall>e \<in> set kept. emitted W e"
    using delivered_subset [OF p(3)] poll_emitted [OF assms(2,3) ok(1) Some] by blast
  moreover have "remembers (monitor_after current)" using ok(1) Some by (auto simp: remembers_def monitor_after_def)
  ultimately show ?thesis using p(1,2,4) by blast
qed

lemma network_poll_emits:
  assumes "answers_ok env" and "network_wf m" and "holds q es"
  shows "\<exists>ok m' q' kept. network_monitor_poll (pe_network env) (pe_process env) W T utc (pe_malloc env) (Some m) (Some q)
      = Some (ok, Some m', Some q') \<and>
    holds q' (es @ kept) \<and> (\<forall>e \<in> set kept. emitted W e) \<and> network_wf m' \<and> nm_winsock_initialized m' = nm_winsock_initialized m"
proof (cases "\<exists>rows. tcp_table (pe_network env) rows")
  case True
  then obtain rows where t: "tcp_table (pe_network env) rows" by blast
  have ok: "clib_ok (pe_network env)" "malloc_fresh (pe_malloc env)" "process_api_ok (pe_process env)" "network_api_ok (pe_network env)"
    using assms(1) by (simp_all add: answers_ok_def poll_env_ok_def)
  let ?new = "map (network_event (pe_network env) (pe_process env) W T utc) (new_connections m rows)"
  obtain q' kept where p: "emit_events (pe_malloc env) ?new q = Some q'" "holds q' (es @ kept)" "delivered_part (pe_malloc env) kept ?new"
    using emit_events_hold [OF ok(2) assms(3)] by blast
  have "set (new_connections m rows) \<subseteq> key_of_row ` set rows"
    by (auto simp: new_connections_def missing_def established_def)
  then have "\<forall>e \<in> set ?new. emitted W e" using connected [OF ok(3,4)] by auto
  then have "\<forall>e \<in> set kept. emitted W e" using delivered_subset [OF p(3)] by blast
  moreover have "nm_winsock_initialized (network_after (pe_network env) m rows) = nm_winsock_initialized m"
    by (simp add: network_after_def Let_def)
  ultimately show ?thesis
    using p network_poll_run [OF ok(1) assms(2) t] network_after_facts(1) [OF ok(1)] by auto
next
  case False
  then show ?thesis
    using network_poll_fails assms(2,3)
    by (intro exI [of _ False] exI [of _ m] exI [of _ q] exI [of _ "[]"]) simp
qed

lemma round_emits:
  assumes "answers_ok env" and "worker_inv e" and "holds q es"
  shows "\<exists>e' q' kept. worker_round W T env (e, q) = Some (e', q') \<and> holds q' (es @ kept) \<and>
    (\<forall>x \<in> set kept. emitted W x) \<and> worker_inv e' \<and> same_but_snapshots e e'"
proof -
  have e: "te_queue e" "monitor_wf (te_process_monitor e)" "remembers (te_process_monitor e)" "network_wf (te_network_monitor e)"
    using assms(2) by (simp_all add: worker_inv_def engine_polls_def)
  obtain ok m q1 k1 where p: "process_monitor_poll (pe_process env) W T (pe_process_time env) (pe_malloc env)
       (Some (te_process_monitor e)) (Some q) = Some (ok, Some m, Some q1)" "holds q1 (es @ k1)"
      "\<forall>x \<in> set k1. emitted W x" "monitor_wf m" "remembers m"
    using process_poll_emits [OF assms(1) e(2,3) assms(3)] by blast
  obtain ok2 nm q2 k2 where n: "network_monitor_poll (pe_network env) (pe_process env) W T (pe_network_time env)
       (pe_malloc env) (Some (te_network_monitor e)) (Some q1) = Some (ok2, Some nm, Some q2)"
      "holds q2 ((es @ k1) @ k2)" "\<forall>x \<in> set k2. emitted W x" "network_wf nm"
      "nm_winsock_initialized nm = nm_winsock_initialized (te_network_monitor e)"
    using network_poll_emits [OF assms(1) e(4) p(2)] by blast
  show ?thesis
  proof (cases "te_network_available e")
    case True
    then show ?thesis
      using p n e(1)
      by (intro exI [of _ "e\<lparr>te_process_monitor := m, te_network_monitor := nm\<rparr>"] exI [of _ q2] exI [of _ "k1 @ k2"])
        (auto simp: worker_round_def worker_inv_def engine_polls_def same_but_snapshots_def)
  next
    case False
    then show ?thesis
      using p e
      by (intro exI [of _ "e\<lparr>te_process_monitor := m\<rparr>"] exI [of _ q1] exI [of _ k1])
        (simp add: worker_round_def worker_inv_def engine_polls_def same_but_snapshots_def)
  qed
qed

section \<open>The running program\<close>

text \<open>
  The window with its telemetry: messages are handled one at a time, and between them, at the
  granularity of the queue's lock, one event of some source is pushed.
\<close>

inductive session_reachable :: "text_api \<Rightarrow> GuiState \<Rightarrow> bool" for W where
  opened: "gui_text U = W \<Longrightarrow> create_window U A N True window zero_gui os = Some (True, g, os') \<Longrightarrow> session_reachable W g"
| message: "session_reachable W g \<Longrightarrow> gui_api_ok U \<Longrightarrow> gui_text U = W \<Longrightarrow> message_ok msg \<Longrightarrow>
    gui_step U msg g = Some g' \<Longrightarrow> session_reachable W g'"
| telemetry: "session_reachable W g \<Longrightarrow> malloc_fresh M \<Longrightarrow> emitted W e \<Longrightarrow> emit_event M e (g_queue g) = Some q \<Longrightarrow>
    session_reachable W (g\<lparr>g_queue := q\<rparr>)"

lemma session_gui_reachable: "session_reachable W g \<Longrightarrow> gui_reachable W g"
  by (induction rule: session_reachable.induct) (auto intro: gui_reachable.intros)

definition queue_wf :: "node_heap \<times> EventQueue \<Rightarrow> bool" where
  "queue_wf q \<longleftrightarrow> (\<exists>es. holds q es \<and> (\<forall>e \<in> set es. event_wf e))"

text \<open>Handling one message.\<close>

lemma step_keeps_wf:
  assumes "gui_api_ok U" and "strsafe_ok (gui_text U)" and "message_ok msg" and "store_wf (g_store g)"
    and "log_wf g" and "queue_wf (g_queue g)" and "gui_step U msg g = Some g'"
  shows "log_wf g' \<and> queue_wf (g_queue g') \<and> fixed g' = fixed g"
proof (cases "drains_queue msg")
  case False
  then have "core g' = core g" using core_step assms(7) by blast
  then show ?thesis using assms(5,6) by (simp add: core_def log_wf_def)
next
  case True
  then obtain alerts where msg: "msg = EventsReady alerts" by (cases msg) auto
  obtain es where es: "holds (g_queue g) es" "\<forall>e \<in> set es. event_wf e" using assms(6) by (auto simp: queue_wf_def)
  show ?thesis
  proof (cases "g_queue_ready g")
    case True
    then have d: "drain_events U alerts g = Some g'" "length alerts = TRACEGLASS_MAX_ALERTS_PER_EVENT"
      using assms(3,7) msg by simp_all
    have "holds (g_queue g') []" using drain_events_result [OF assms(1,4) es(1) d(2)] d(1) by auto
    then show ?thesis
      using drain_events_wf [OF assms(1,2,4,5) es d(2,1)] by (auto simp: queue_wf_def)
  next
    case False
    then show ?thesis using assms(5-7) msg by simp
  qed
qed

text \<open>Pushing one event.\<close>

lemma push_keeps_wf:
  assumes "malloc_fresh M" and "event_wf e" and "queue_wf q0" and "emit_event M e q0 = Some q"
  shows "queue_wf q"
proof -
  obtain es where "holds q0 es" "\<forall>e \<in> set es. event_wf e" using assms(3) by (auto simp: queue_wf_def)
  then show ?thesis
    using emit_event_holds [OF assms(1), of q0 es e] assms(2,4) unfolding queue_wf_def
    by (intro exI [of _ "if M (fst q0) = None then es else es @ [e]"]) auto
qed

lemma session_inv:
  assumes "strsafe_ok W"
  shows "session_reachable W g \<Longrightarrow> log_wf g \<and> queue_wf (g_queue g)"
proof (induction rule: session_reachable.induct)
  case (opened U A N window os g os')
  obtain h where "g = update_status_bar U (update_overview_metrics U (update_selected_view h))"
      "st_events (g_store h) = []" "holds (g_queue h) []"
    using created_shape [OF opened(2)] by metis
  moreover from this have "core g = core h" by simp
  ultimately show ?case by (auto simp: core_def log_wf_def queue_wf_def)
next
  case (message g U msg g')
  have "store_wf (g_store g)"
    using reachable_inv [OF session_gui_reachable [OF message.hyps(1)]] by (simp add: gui_inv_def)
  then show ?case
    using step_keeps_wf [OF message.hyps(2) _ message.hyps(4) _ _ _ message.hyps(5)] message.IH message.hyps(3) assms by simp
next
  case (telemetry g M e q)
  then show ?case
    using push_keeps_wf [OF telemetry.hyps(2) emitted_wf [OF assms telemetry.hyps(3)] _ telemetry.hyps(4)] by (simp add: log_wf_def)
qed

section \<open>Properties\<close>

text \<open>
  \<^bold>\<open>C40\<close>. Whatever the monitors observe, the user does and the platform answers, the log can be
  exported at any moment: every event in it fits its arrays, because every event of the process
  monitor, the network monitor and the ETW callback does, the queue and the store hand events on
  unchanged and the alerts derived from them are well-formed too. So an export returns, and either
  the file holds the whole document or it holds a prefix of it and an error is reported.
\<close>

theorem session_always_exportable:
  assumes "session_reachable W g" and "strsafe_ok W" and "sink_ok A" and "1 < n"
  shows "exportable (g_store g) \<and>
    (\<exists>result message file.
      export_events_to_file F A W (Some (g_store g)) first (Some path) format (Some b) n = Some (result, Some message, file) \<and>
      (if result
       then message = [] \<and> (\<exists>st. file = Some st \<and>
         fs_data st = utf8 (export_document format (drop (unat first) (st_events (g_store g)))))
       else message \<noteq> [] \<and> length message < n \<and> (\<forall>st. file = Some st \<longrightarrow>
         prefix (fs_data st) (utf8 (export_document format (drop (unat first) (st_events (g_store g))))))))"
proof -
  have "store_wf (g_store g)"
    using reachable_inv [OF session_gui_reachable [OF assms(1)]] by (simp add: gui_inv_def)
  then have "exportable (g_store g)"
    using session_inv [OF assms(2,1)] by (simp add: exportable_def log_wf_def)
  then show ?thesis using file_export_contract [OF assms(3,2) _ assms(4)] by blast
qed

text \<open>A window that has received a network event and drained it.\<close>

theorem session_always_exportable_witness:
  "\<exists>g g' result message file. gui_step plain_gui (EventsReady (replicate 3 zero_event)) g = Some g' \<and>
    exportable (g_store g') \<and> export_events_to_file \<lparr>CreateFileW = (\<lambda>p. None), CloseHandle = (\<lambda>k. None)\<rparr> slow_sink ascii_text
      (Some (g_store g')) 0 (Some (wide ''a.json'')) EXPORT_FORMAT_JSON (Some []) 2 = Some (result, Some message, file)"
proof -
  obtain g os where "create_window plain_gui free_system one_connection True 7 zero_gui idle_system = Some (True, g, os)"
    using plain_gui_created by blast
  then have g: "session_reachable ascii_text g" by (intro opened [of plain_gui]) (simp_all add: plain_gui_def)
  then have inv: "gui_inv ascii_text g" using reachable_inv session_gui_reachable by blast
  then obtain es where es: "holds (g_queue g) es" by (auto simp: gui_inv_def)
  have "network_api_ok one_connection" "process_api_ok one_process"
    by (simp_all add: network_api_ok_def one_connection_def process_api_ok_def one_process_def wide_no_nul)
  then have e: "emitted ascii_text (network_event one_connection one_process ascii_text no_clock zero_time (key_of_row web_row))"
    (is "emitted _ ?e") by (intro connected)
  obtain q where q: "emit_event next_address ?e (g_queue g) = Some q"
    using emit_event_holds [OF next_address_fresh es, of ?e] by auto
  let ?g = "g\<lparr>g_queue := q\<rparr>" and ?msg = "EventsReady (replicate 3 zero_event)"
  have reach: "session_reachable ascii_text ?g" using telemetry [OF g next_address_fresh e q] .
  have ok: "message_ok ?msg" "gui_text plain_gui = ascii_text"
    by (simp_all add: plain_gui_def TRACEGLASS_MAX_ALERTS_PER_EVENT_def)
  obtain g' where g': "gui_step plain_gui ?msg ?g = Some g'"
    using step_inv [OF plain_gui_ok _ ok(1), of ?g] reachable_inv [OF session_gui_reachable [OF reach]] ok(2) by metis
  have "session_reachable ascii_text g'" using message [OF reach plain_gui_ok ok(2,1) g'] .
  note exported = session_always_exportable [OF this ascii_text_strsafe slow_sink_ok(1), of 2 "\<lparr>CreateFileW = (\<lambda>p. None), CloseHandle = (\<lambda>k. None)\<rparr>" 0
      "wide ''a.json''" EXPORT_FORMAT_JSON "[]"]
  then obtain result message created where "exportable (g_store g')" "export_events_to_file \<lparr>CreateFileW = (\<lambda>p. None), CloseHandle = (\<lambda>k. None)\<rparr> slow_sink ascii_text
      (Some (g_store g')) 0 (Some (wide ''a.json'')) EXPORT_FORMAT_JSON (Some []) 2 = Some (result, Some message, created)"
    by auto
  then show ?thesis using g' by blast
qed

end
