(* ===== verification/Spec2Isabelle.thy ===== *)
theory Spec2Isabelle
  imports TG_Notify TG_ContextMenu TG_DetailsWindow TG_Layout TG_Logger TG_WellFormed
begin

text \<open>
  TraceGlass is a native Windows viewer for process and network activity, written in C against
  Win32 and ETW. This development models its code under \<^verbatim>\<open>src/src\<close> and \<^verbatim>\<open>src/include\<close>.

  \<^bold>\<open>The program.\<close> Telemetry threads produce events: the ETW consumer (\<^verbatim>\<open>etw_monitor.c\<close>) from kernel
  process records, and the worker of \<^verbatim>\<open>telemetry.c\<close> by polling process snapshots
  (\<^verbatim>\<open>process_monitor.c\<close>) and TCP tables (\<^verbatim>\<open>network_monitor.c\<close>). They push them into the queue of
  \<^verbatim>\<open>event_queue.c\<close>, which notifies the window with at most one posted message. The GUI thread
  (\<^verbatim>\<open>gui.c\<close>) drains the queue into the session's store (\<^verbatim>\<open>event_store.c\<close>), runs the detection rules
  (\<^verbatim>\<open>detection.c\<close>) on each event, stores the alerts behind it, and keeps its lists, the process
  tree and the overview up to date. The session can be exported (\<^verbatim>\<open>export.c\<close>).

  \<^bold>\<open>Theories.\<close>
  \<^item> \<open>TG_Prelude\<close>, \<open>TG_Text\<close>: machine types, bounds-checked arrays, the printf conversions of the
    sources' formats, the platform's string functions as parameters.
  \<^item> \<open>TG_Utils\<close> (\<^verbatim>\<open>utils.c\<close>), \<open>TG_Events\<close> (\<^verbatim>\<open>events.h\<close>, \<^verbatim>\<open>events.c\<close>): strings, times, the event record.
  \<^item> \<open>TG_Queue\<close>, \<open>TG_Notify\<close> (\<^verbatim>\<open>event_queue.c\<close>): the linked queue on a heap, as an instance of the
    locale \<open>fifo_queue\<close>, and the notification protocol as a step relation over the critical sections.
  \<^item> \<open>TG_Store\<close>, \<open>TG_Session\<close> (\<^verbatim>\<open>event_store.c\<close>): the log and the process table with their growth,
    and the abstract session they implement. \<open>TG_Detection\<close> (\<^verbatim>\<open>detection.c\<close>): the rules.
  \<^item> \<open>TG_Utf8\<close>, \<open>TG_Sink\<close>, \<open>TG_Json\<close>, \<open>TG_JsonExport\<close>, \<open>TG_CsvExport\<close>, \<open>TG_Export\<close> (\<^verbatim>\<open>export.c\<close>): the
    byte sink as an instance of the locales \<open>byte_sink\<close> and \<open>reliable_sink\<close>, the three writers with
    readers for what they write, the file and the dialog.
  \<^item> \<open>TG_Snapshot\<close>, \<open>TG_ProcessMonitor\<close>, \<open>TG_NetworkMonitor\<close>: the polling monitors over the locales
    \<open>comparator\<close> (order for \<^verbatim>\<open>qsort\<close> and \<^verbatim>\<open>bsearch\<close>) and \<open>snapshot_identity\<close> (difference of snapshots).
  \<^item> \<open>TG_EtwMonitor\<close>, \<open>TG_EtwSession\<close> (\<^verbatim>\<open>etw_monitor.c\<close>), \<open>TG_Telemetry\<close> (\<^verbatim>\<open>telemetry.c\<close>): decoding, the
    callback, the session's and the engine's lifecycle on explicit resources of the system, the worker.
  \<^item> \<open>TG_Rows\<close>, \<open>TG_Details\<close>, \<open>TG_ProcessTree\<close>, \<open>TG_GuiState\<close>, \<open>TG_Views\<close>, \<open>TG_ViewsCurrent\<close>,
    \<open>TG_Drain\<close>, \<open>TG_Window\<close>, \<open>TG_ContextMenu\<close> (\<^verbatim>\<open>gui.c\<close>): rows, filters and order; texts and
    clipboard; the tree; the window's state; its message handling; what the views show as an
    invariant; draining as a refinement; creation and shutdown; the context menu.
  \<^item> \<open>TG_Controls\<close>, \<open>TG_Layout\<close>, \<open>TG_DetailsWindow\<close> (\<^verbatim>\<open>gui.c\<close>): the controls and their fonts as GDI
    objects; the place of every control and the column widths; the windows that show one event, each
    with its heap block and font.
  \<^item> \<open>TG_Logger\<close> (\<^verbatim>\<open>logger.c\<close>): the lock, the handle and the lines of the log file.
  \<^item> \<open>TG_WellFormed\<close>: the lengths of all strings of an event, from the three sources through queue,
    store and detection to the export.

  \<^bold>\<open>Conventions.\<close> Functions carry the names of the C functions they model. A \<^verbatim>\<open>WCHAR\<close> array used as a
  string is the list of its units before the NUL; arrays that are filled element by element are
  lists with checked access. \<^verbatim>\<open>size_t\<close>, \<^verbatim>\<open>DWORD\<close> and ports keep their widths as words. Pointers that
  may be \<^verbatim>\<open>NULL\<close> are options; nodes and blocks that are freed live in explicit heaps. An outer
  \<open>None\<close> is undefined behaviour or a call that does not return; that it does not occur is part of
  the properties (and that it does, in \<open>context_menu_use_after_free\<close>). Loops are structural over the
  elements or indices they visit or have a termination proof; there is no fuel. The one loop that
  need not end by itself, the telemetry worker, runs over the answers of its waits.

  \<^bold>\<open>Platform.\<close> Win32, ETW, TDH, the C library's \<^verbatim>\<open>qsort\<close> and \<^verbatim>\<open>bsearch\<close>, and the allocations are
  parameters, grouped into records (\<open>text_api\<close>, \<open>sink_api\<close>, \<open>os_api\<close>, \<open>gui_api\<close>, ...). What the code
  relies on is a named predicate on such a record (\<open>strsafe_ok\<close>, \<open>sink_ok\<close>, \<open>qsort_ok\<close>,
  \<open>bsearch_ok\<close>, \<open>malloc_fresh\<close>, \<open>os_ok\<close>, ...), which states documented behaviour and is shown to be
  satisfiable by the witnesses. A few predicates assume more than the documentation promises, and
  the properties that use them say so: \<open>list_api_ok\<close> and \<open>tree_api_ok\<close> that an item can be inserted
  and the arrays for the tree allocated (the code handles a failure, but its views then lack rows),
  \<open>sessions_stop\<close> that an active ETW session can be stopped (otherwise it is leaked),
  \<open>timestamps_convert\<close> that the timestamps compared are valid times (otherwise the comparison is not
  transitive), and \<open>tabs_ok\<close> the borders of the tab control.

  \<^bold>\<open>What the lemmas show.\<close> Per component an invariant that every operation keeps, the result of every
  operation on all its branches, and the absence of undefined behaviour; across components that no
  event is lost or duplicated between a push and the store, that the exported bytes read back as
  the log, that the views show the store, and that starting and stopping leave no resource behind.

  \<^bold>\<open>Not modelled.\<close> The log lines the components write (they have no effect on the modelled state),
  the colours of the controls, the sizes inside a details window, message boxes, registering the
  window classes, the message loop of \<^verbatim>\<open>gui_run\<close> and \<^verbatim>\<open>main.c\<close> around it, the export smoke test and
  the resource files. Lines are logged one at a time, as if the lock were never contended. Within one critical
  section the queue's operations are atomic. Pushing from a telemetry thread between two messages
  is a step of its own; the store is only touched by the GUI thread, as in the code.
\<close>

end
